(* ===== verification/Prelude.thy ===== *)
theory Prelude
  imports Main "HOL-Library.Multiset"
begin

text \<open>
  Shared vocabulary of the development.

  Every coroutine of the application is modelled as a \<open>prog\<close>: a function from the
  state to a result and the state it leaves behind. A raised exception is the result
  \<open>Inl e\<close>, and the state it leaves is kept, because what was committed before the
  exception stays committed. \<open>andthen\<close> is sequencing (\<open>x = await f(); ...\<close>),
  \<open>raise\<close> a raise statement, \<open>for_each\<close> a for loop over a list.

  The theory also holds the partial-correctness triples the component proofs are written
  in, and list lemmas about tables updated row by row.
\<close>

section \<open>Programs with state and exceptions\<close>

type_synonym ('w, 'e, 'a) prog = "'w \<Rightarrow> ('e + 'a) \<times> 'w"

named_theorems prog_simps \<open>equations that run a program on a state\<close>
named_theorems triple_rules \<open>rules of the triples\<close>
named_theorems keeps_rules \<open>rules for programs that keep an invariant\<close>

definition ret :: "'a \<Rightarrow> ('w, 'e, 'a) prog" where
  "ret a = (\<lambda>w. (Inr a, w))"

definition raise :: "'e \<Rightarrow> ('w, 'e, 'a) prog" where
  "raise e = (\<lambda>w. (Inl e, w))"

definition andthen :: "('w, 'e, 'a) prog \<Rightarrow> ('a \<Rightarrow> ('w, 'e, 'b) prog) \<Rightarrow> ('w, 'e, 'b) prog" where
  "andthen f g = (\<lambda>w. case f w of (Inl e, w') \<Rightarrow> (Inl e, w') | (Inr a, w') \<Rightarrow> g a w')"

text \<open>Reading the state, and replacing it.\<close>

definition gets :: "('w \<Rightarrow> 'a) \<Rightarrow> ('w, 'e, 'a) prog" where
  "gets f = (\<lambda>w. (Inr (f w), w))"

definition modifies :: "('w \<Rightarrow> 'w) \<Rightarrow> ('w, 'e, unit) prog" where
  "modifies f = (\<lambda>w. (Inr (), f w))"

text \<open>A result computed without touching the state, raising if it is an error.\<close>

definition lift_result :: "'e + 'a \<Rightarrow> ('w, 'e, 'a) prog" where
  "lift_result r = (\<lambda>w. (r, w))"

fun for_each :: "('a \<Rightarrow> ('w, 'e, 'b) prog) \<Rightarrow> 'a list \<Rightarrow> ('w, 'e, unit) prog" where
  "for_each f [] = ret ()"
| "for_each f (x # xs) = andthen (f x) (\<lambda>_. for_each f xs)"

lemma ret_run [prog_simps, simp]: "ret a w = (Inr a, w)"
  by (simp add: ret_def)

lemma raise_run [prog_simps, simp]: "raise e w = (Inl e, w)"
  by (simp add: raise_def)

lemma gets_run [prog_simps, simp]: "gets f w = (Inr (f w), w)"
  by (simp add: gets_def)

lemma modifies_run [prog_simps, simp]: "modifies f w = (Inr (), f w)"
  by (simp add: modifies_def)

lemma lift_result_run [prog_simps, simp]: "lift_result r w = (r, w)"
  by (simp add: lift_result_def)

lemma andthen_Inl [prog_simps, simp]: "f w = (Inl e, w') \<Longrightarrow> andthen f g w = (Inl e, w')"
  by (simp add: andthen_def)

lemma andthen_Inr [prog_simps, simp]: "f w = (Inr a, w') \<Longrightarrow> andthen f g w = g a w'"
  by (simp add: andthen_def)

lemma andthen_eq_Inr:
  "andthen f g w = (Inr b, w'') \<longleftrightarrow> (\<exists>a w'. f w = (Inr a, w') \<and> g a w' = (Inr b, w''))"
  by (auto simp: andthen_def split: prod.splits sum.splits)

lemma andthen_eq_Inl:
  "andthen f g w = (Inl e, w'') \<longleftrightarrow>
     f w = (Inl e, w'') \<or> (\<exists>a w'. f w = (Inr a, w') \<and> g a w' = (Inl e, w''))"
  by (auto simp: andthen_def split: prod.splits sum.splits)

lemma andthen_InrE:
  assumes "andthen f g w = (Inr b, w'')"
  obtains a w' where "f w = (Inr a, w')" and "g a w' = (Inr b, w'')"
  using assms by (auto simp: andthen_eq_Inr)

lemma andthen_assoc: "andthen (andthen f g) h = andthen f (\<lambda>a. andthen (g a) h)"
  by (rule ext) (auto simp: andthen_def split: prod.splits sum.splits)

lemma andthen_ret_left [simp]: "andthen (ret a) f = f a"
  by (rule ext) simp

section \<open>Triples\<close>

text \<open>
  \<open>triple P f Q E\<close>: from a state satisfying \<open>P\<close>, a normal return satisfies
  \<open>Q\<close> of the value and the state left, and a raise satisfies \<open>E\<close>. Every \<open>prog\<close> is
  a total function, so one of the two happens.
\<close>

definition triple ::
  "('w \<Rightarrow> bool) \<Rightarrow> ('w, 'e, 'a) prog \<Rightarrow> ('a \<Rightarrow> 'w \<Rightarrow> bool) \<Rightarrow> ('e \<Rightarrow> 'w \<Rightarrow> bool) \<Rightarrow> bool" where
  "triple P f Q E \<longleftrightarrow>
     (\<forall>w. P w \<longrightarrow> (case f w of (Inl e, w') \<Rightarrow> E e w' | (Inr a, w') \<Rightarrow> Q a w'))"

definition keeps :: "('w \<Rightarrow> bool) \<Rightarrow> ('w, 'e, 'a) prog \<Rightarrow> bool" where
  "keeps I f \<longleftrightarrow> (\<forall>w. I w \<longrightarrow> I (snd (f w)))"

lemma tripleI:
  assumes "\<And>w a w'. P w \<Longrightarrow> f w = (Inr a, w') \<Longrightarrow> Q a w'"
    and "\<And>w e w'. P w \<Longrightarrow> f w = (Inl e, w') \<Longrightarrow> E e w'"
  shows "triple P f Q E"
  using assms by (auto simp: triple_def split: prod.splits sum.splits)

lemma triple_InrD: "triple P f Q E \<Longrightarrow> P w \<Longrightarrow> f w = (Inr a, w') \<Longrightarrow> Q a w'"
  by (force simp: triple_def)

lemma triple_InlD: "triple P f Q E \<Longrightarrow> P w \<Longrightarrow> f w = (Inl e, w') \<Longrightarrow> E e w'"
  by (force simp: triple_def)

lemma triple_andthen [triple_rules]:
  assumes "triple P f R E" and "\<And>a. triple (R a) (g a) Q E"
  shows "triple P (andthen f g) Q E"
proof (rule tripleI)
  fix w a w' assume P: "P w" and run: "andthen f g w = (Inr a, w')"
  from run obtain b w1 where f: "f w = (Inr b, w1)" and g: "g b w1 = (Inr a, w')"
    by (rule andthen_InrE)
  from triple_InrD [OF assms(1) P f] have "R b w1" .
  from triple_InrD [OF assms(2) this g] show "Q a w'" .
next
  fix w e w' assume P: "P w" and run: "andthen f g w = (Inl e, w')"
  then consider "f w = (Inl e, w')" | b w1 where "f w = (Inr b, w1)" "g b w1 = (Inl e, w')"
    by (auto simp: andthen_eq_Inl)
  then show "E e w'"
  proof cases
    case 1
    from triple_InlD [OF assms(1) P this] show ?thesis .
  next
    case 2
    from triple_InrD [OF assms(1) P 2(1)] have "R b w1" .
    from triple_InlD [OF assms(2) this 2(2)] show ?thesis .
  qed
qed

lemma keepsI: "(\<And>w r w'. I w \<Longrightarrow> f w = (r, w') \<Longrightarrow> I w') \<Longrightarrow> keeps I f"
  by (metis keeps_def prod.collapse)

lemma keepsD: "keeps I f \<Longrightarrow> I w \<Longrightarrow> f w = (r, w') \<Longrightarrow> I w'"
  by (metis keeps_def snd_conv)

lemma keeps_ret [keeps_rules]: "keeps I (ret a)"
  by (simp add: keeps_def)

lemma keeps_raise [keeps_rules]: "keeps I (raise e)"
  by (simp add: keeps_def)

lemma keeps_gets [keeps_rules]: "keeps I (gets f)"
  by (simp add: keeps_def)

lemma keeps_lift_result [keeps_rules]: "keeps I (lift_result r)"
  by (simp add: keeps_def)

lemma keeps_andthen [keeps_rules]:
  "keeps I f \<Longrightarrow> (\<And>a. keeps I (g a)) \<Longrightarrow> keeps I (andthen f g)"
  by (force simp: keeps_def andthen_def split: prod.splits sum.splits)

lemma keeps_if [keeps_rules]:
  "(b \<Longrightarrow> keeps I f) \<Longrightarrow> (\<not> b \<Longrightarrow> keeps I g) \<Longrightarrow> keeps I (if b then f else g)"
  by simp

lemma keeps_option [keeps_rules]:
  "(x = None \<Longrightarrow> keeps I f) \<Longrightarrow> (\<And>a. x = Some a \<Longrightarrow> keeps I (g a)) \<Longrightarrow>
     keeps I (case x of None \<Rightarrow> f | Some a \<Rightarrow> g a)"
  by (cases x) simp_all

lemma keeps_for_each [keeps_rules]:
  "(\<And>x. x \<in> set xs \<Longrightarrow> keeps I (f x)) \<Longrightarrow> keeps I (for_each f xs)"
  by (induction xs) (auto intro: keeps_andthen keeps_ret)

section \<open>Which exceptions a program can raise\<close>

named_theorems raises_rules \<open>rules bounding the exceptions of a program\<close>

definition raises_only :: "'e set \<Rightarrow> ('w, 'e, 'a) prog \<Rightarrow> bool" where
  "raises_only X f \<longleftrightarrow> (\<forall>w. case fst (f w) of Inl e \<Rightarrow> e \<in> X | Inr a \<Rightarrow> True)"

lemma raises_onlyI: "(\<And>w e w'. f w = (Inl e, w') \<Longrightarrow> e \<in> X) \<Longrightarrow> raises_only X f"
  by (auto simp: raises_only_def split: sum.splits) (metis prod.collapse)

lemma raises_onlyD: "raises_only X f \<Longrightarrow> f w = (Inl e, w') \<Longrightarrow> e \<in> X"
  by (auto simp: raises_only_def dest: spec [of _ w])

lemma raises_only_mono: "raises_only X f \<Longrightarrow> X \<subseteq> Y \<Longrightarrow> raises_only Y f"
  by (auto simp: raises_only_def split: sum.splits)

lemma raises_only_basic [raises_rules]:
  "raises_only X (ret a)" "e \<in> X \<Longrightarrow> raises_only X (raise e)" "raises_only X (gets h)"
  "raises_only X (modifies g)" "(\<And>e. r = Inl e \<Longrightarrow> e \<in> X) \<Longrightarrow> raises_only X (lift_result r)"
  by (auto simp: raises_only_def split: sum.splits)

lemma raises_only_andthen [raises_rules]:
  "raises_only X f \<Longrightarrow> (\<And>a. raises_only X (g a)) \<Longrightarrow> raises_only X (andthen f g)"
  by (rule raises_onlyI) (auto simp: andthen_eq_Inl dest: raises_onlyD)

lemma raises_only_if [raises_rules]:
  "(b \<Longrightarrow> raises_only X f) \<Longrightarrow> (\<not> b \<Longrightarrow> raises_only X g) \<Longrightarrow> raises_only X (if b then f else g)"
  by simp

lemma raises_only_option [raises_rules]:
  "(x = None \<Longrightarrow> raises_only X f) \<Longrightarrow> (\<And>a. x = Some a \<Longrightarrow> raises_only X (g a)) \<Longrightarrow>
     raises_only X (case x of None \<Rightarrow> f | Some a \<Rightarrow> g a)"
  by (cases x) simp_all

lemma raises_only_for_each [raises_rules]:
  "(\<And>x. raises_only X (f x)) \<Longrightarrow> raises_only X (for_each f xs)"
  by (induction xs) (auto intro: raises_rules)

section \<open>Lists of rows\<close>

named_theorems row_simps \<open>facts about lists of rows updated by key\<close>

text \<open>
  \<open>update_by key k f xs\<close> applies \<open>f\<close> to every element whose key is \<open>k\<close>, as an
  UPDATE by primary key does.
\<close>

definition update_by :: "('r \<Rightarrow> 'k) \<Rightarrow> 'k \<Rightarrow> ('r \<Rightarrow> 'r) \<Rightarrow> 'r list \<Rightarrow> 'r list" where
  "update_by key k f xs = map (\<lambda>x. if key x = k then f x else x) xs"

lemma length_update_by [simp, row_simps]: "length (update_by key k f xs) = length xs"
  by (simp add: update_by_def)

lemma update_by_Nil [simp, row_simps]: "update_by key k f [] = []"
  by (simp add: update_by_def)

lemma map_update_by [row_simps]:
  "(\<And>x. x \<in> set xs \<Longrightarrow> key x = k \<Longrightarrow> g (f x) = g x) \<Longrightarrow> map g (update_by key k f xs) = map g xs"
  by (simp add: update_by_def)

lemma update_by_notin: "k \<notin> key ` set xs \<Longrightarrow> update_by key k f xs = xs"
  by (auto simp: update_by_def intro!: map_idI)

lemma set_update_by:
  "distinct (map key xs) \<Longrightarrow> r \<in> set xs \<Longrightarrow>
     set (update_by key (key r) f xs) = insert (f r) (set xs - {r})"
  by (auto simp: update_by_def distinct_map inj_on_def image_iff) metis+

lemma sum_list_update_by:
  fixes g :: "'r \<Rightarrow> int"
  assumes "distinct (map key xs)" and "r \<in> set xs"
  shows "sum_list (map g (update_by key (key r) f xs)) = sum_list (map g xs) - g r + g (f r)"
  using assms
proof (induction xs)
  case (Cons x xs)
  show ?case
  proof (cases "x = r")
    case True
    with Cons.prems have "key r \<notin> key ` set xs" by auto
    then show ?thesis using True update_by_notin [of "key r" key xs f]
      by (simp add: update_by_def)
  next
    case False
    with Cons.prems have r: "r \<in> set xs" and d: "distinct (map key xs)" by auto
    from Cons.prems False r have "key x \<noteq> key r" by (auto simp: image_iff)
    then show ?thesis using Cons.IH [OF d r] by (simp add: update_by_def)
  qed
qed simp

lemma find_Some_iff_distinct:
  "distinct (map key xs) \<Longrightarrow> find (\<lambda>x. key x = k) xs = Some r \<longleftrightarrow> r \<in> set xs \<and> key r = k"
proof (induction xs)
  case (Cons x xs)
  then show ?case by (auto simp: image_iff)
qed simp

lemma find_SomeD: "find P xs = Some x \<Longrightarrow> x \<in> set xs \<and> P x"
  by (auto simp: find_Some_iff)

lemma find_key_None: "find (\<lambda>x. key x = k) xs = None \<longleftrightarrow> k \<notin> key ` set xs"
  by (auto simp: find_None_iff)

lemma find_snoc:
  "key r \<notin> key ` set xs \<Longrightarrow>
     find (\<lambda>x. key x = k) (xs @ [r]) = (if k = key r then Some r else find (\<lambda>x. key x = k) xs)"
  by (induction xs) auto

lemma filter_unique:
  assumes "distinct (map key xs)" and "r \<in> set xs"
  shows "filter (\<lambda>x. key x = key r) xs = [r]"
  using assms
proof (induction xs)
  case (Cons x xs)
  show ?case
  proof (cases "x = r")
    case True
    with Cons.prems have "filter (\<lambda>x. key x = key r) xs = []"
      by (auto simp: filter_empty_conv image_iff)
    with True show ?thesis by simp
  next
    case False
    with Cons show ?thesis by (auto simp: image_iff)
  qed
qed simp

text \<open>Selecting rows after one of them was updated by key.\<close>

lemma filter_update_by_hit:
  assumes "distinct (map key xs)" and "filter P xs = [r]"
  shows "filter P (update_by key (key r) f xs) = (if P (f r) then [f r] else [])"
  using assms
proof (induction xs)
  case (Cons x xs)
  show ?case
  proof (cases "P x")
    case True
    with Cons.prems have x: "x = r" and no: "filter P xs = []" by auto
    have "key r \<notin> key ` set xs" using Cons.prems(1) x by auto
    then have "update_by key (key r) f xs = xs" by (rule update_by_notin)
    with x no show ?thesis by (simp add: update_by_def)
  next
    case False
    with Cons.prems have r: "filter P xs = [r]" by auto
    then have "r \<in> set (filter P xs)" by simp
    then have "r \<in> set xs" by simp
    with Cons.prems(1) have "key x \<noteq> key r" by (auto simp: image_iff)
    with False r Cons show ?thesis by (simp add: update_by_def)
  qed
qed simp

lemma filter_update_by_miss:
  assumes "distinct (map key xs)" and "r \<in> set xs" and "\<not> P r" and "\<not> P (f r)"
  shows "filter P (update_by key (key r) f xs) = filter P xs"
  using assms
proof (induction xs)
  case (Cons x xs)
  show ?case
  proof (cases "x = r")
    case True
    with Cons.prems have "key r \<notin> key ` set xs" by auto
    then have "update_by key (key r) f xs = xs" by (rule update_by_notin)
    with True Cons.prems show ?thesis by (simp add: update_by_def)
  next
    case False
    with Cons.prems have r: "r \<in> set xs" by auto
    with Cons.prems(1) have "key x \<noteq> key r" by (auto simp: image_iff)
    with r Cons show ?thesis by (simp add: update_by_def)
  qed
qed simp

lemma filter_at_most_one:
  "distinct (map key xs) \<Longrightarrow> length (filter (\<lambda>x. key x = k) xs) \<le> 1"
  by (induction xs) (auto simp: filter_empty_conv image_iff)

lemma list_all2_left: "list_all2 P xs ys \<Longrightarrow> x \<in> set xs \<Longrightarrow> \<exists>y \<in> set ys. P x y"
  by (induction rule: list_all2_induct) auto

lemma list_all2_right: "list_all2 P xs ys \<Longrightarrow> y \<in> set ys \<Longrightarrow> \<exists>x \<in> set xs. P x y"
  by (induction rule: list_all2_induct) auto

end
