(* ===== verification/Identifiers.thy ===== *)
theory Identifiers
  imports Prelude "HOL-Library.Word" "HOL-Library.Char_ord" "HOL-Library.List_Lexorder"
begin

text \<open>
  The Python values the application identifies things by and prints: \<open>uuid.UUID\<close>
  (a 128-bit value), its \<open>str\<close> (32 lower-case hexadecimal digits in groups of 8, 4, 4,
  4 and 12), and \<open>str\<close> of an int. The two facts the rest rests on: \<open>uuid_str\<close> is
  injective (channel names and task arguments identify one UUID), and comparing UUIDs by
  their strings, as the lock order of a transfer does, is comparing the 128-bit values.
\<close>

type_synonym uuid = "128 word"

section \<open>Decimal digits\<close>

definition digit_char :: "nat \<Rightarrow> char" where
  "digit_char n = (if n < 10 then char_of (48 + n) else char_of (87 + n))"

fun nat_str :: "nat \<Rightarrow> string" where
  "nat_str n = (if n < 10 then [digit_char n] else nat_str (n div 10) @ [digit_char (n mod 10)])"

declare nat_str.simps [simp del]

definition int_str :: "int \<Rightarrow> string" where
  "int_str i = (if i < 0 then CHR ''-'' # nat_str (nat (- i)) else nat_str (nat i))"

section \<open>UUID strings\<close>

text \<open>The \<open>k\<close> low hexadecimal digits of \<open>n\<close>, most significant first.\<close>

primrec hex_digits :: "nat \<Rightarrow> nat \<Rightarrow> string" where
  "hex_digits 0 n = []"
| "hex_digits (Suc k) n = hex_digits k (n div 16) @ [digit_char (n mod 16)]"

text \<open>\<open>dashed\<close> inserts the hyphens of the 8-4-4-4-12 form.\<close>

definition dashed :: "string \<Rightarrow> string" where
  "dashed h = take 8 h @ [CHR ''-''] @ take 4 (drop 8 h) @ [CHR ''-''] @ take 4 (drop 12 h)
     @ [CHR ''-''] @ take 4 (drop 16 h) @ [CHR ''-''] @ drop 20 h"

definition uuid_str :: "uuid \<Rightarrow> string" where
  "uuid_str u = dashed (hex_digits 32 (unat u))"

section \<open>Order and injectivity\<close>

lemma of_char_digit_char: "n < 16 \<Longrightarrow> (of_char (digit_char n) :: nat) = (if n < 10 then 48 + n else 87 + n)"
  by (simp add: digit_char_def)

lemma digit_char_less: "m < 16 \<Longrightarrow> n < 16 \<Longrightarrow> digit_char m < digit_char n \<longleftrightarrow> m < n"
  by (auto simp: less_char_def of_char_digit_char)

lemma digit_char_eq: "m < 16 \<Longrightarrow> n < 16 \<Longrightarrow> digit_char m = digit_char n \<longleftrightarrow> m = n"
  by (metis digit_char_less less_irrefl linorder_neqE_nat)

lemma length_hex_digits [simp]: "length (hex_digits k n) = k"
  by (induction k arbitrary: n) auto

lemma less_append_same_length:
  fixes xs ys :: "'a::linorder list"
  assumes "length xs = length ys"
  shows "xs @ us < ys @ vs \<longleftrightarrow> xs < ys \<or> xs = ys \<and> us < vs"
  using assms by (induction xs ys rule: list_induct2) auto

lemma div_mod_less:
  "(m::nat) div 16 < n div 16 \<or> m div 16 = n div 16 \<and> m mod 16 < n mod 16 \<longleftrightarrow> m < n"
  using div_mult_mod_eq [of m 16] div_mult_mod_eq [of n 16] mod_less_divisor [of 16 m]
    mod_less_divisor [of 16 n]
  by linarith

lemma hex_digits_less:
  "m < 16 ^ k \<Longrightarrow> n < 16 ^ k \<Longrightarrow> hex_digits k m < hex_digits k n \<longleftrightarrow> m < n"
proof (induction k arbitrary: m n)
  case (Suc k)
  then have b: "m div 16 < 16 ^ k" "n div 16 < 16 ^ k"
    by (simp_all add: less_mult_imp_div_less mult.commute)
  have eq: "hex_digits k (m div 16) = hex_digits k (n div 16) \<longleftrightarrow> m div 16 = n div 16"
    using Suc.IH [OF b] Suc.IH [OF b(2) b(1)]
    by (metis linorder_neqE_nat order_less_irrefl)
  have "hex_digits (Suc k) m < hex_digits (Suc k) n \<longleftrightarrow>
      m div 16 < n div 16 \<or> m div 16 = n div 16 \<and> m mod 16 < n mod 16"
    by (simp add: less_append_same_length Suc.IH [OF b] eq digit_char_less)
  also have "\<dots> \<longleftrightarrow> m < n"
    by (rule div_mod_less)
  finally show ?case .
qed simp

lemma less_append_same_prefix:
  fixes xs :: "'a::linorder list"
  shows "xs @ us < xs @ vs \<longleftrightarrow> us < vs"
  by (simp add: less_append_same_length)

text \<open>Splitting at a common position, with or without a separator put in, orders alike.\<close>

lemma less_split:
  fixes xs ys :: "'a::linorder list"
  assumes "length xs = length ys"
  shows "xs < ys \<longleftrightarrow> take k xs < take k ys \<or> take k xs = take k ys \<and> drop k xs < drop k ys"
proof -
  have "length (take k xs) = length (take k ys)" using assms by simp
  from less_append_same_length [OF this, of "drop k xs" "drop k ys"] show ?thesis by simp
qed

lemma dashed_less:
  assumes len: "length g = 32" "length h = 32"
  shows "dashed g < dashed h \<longleftrightarrow> g < h"
proof -
  have "g < h \<longleftrightarrow> take 8 g < take 8 h \<or> take 8 g = take 8 h \<and> drop 8 g < drop 8 h"
    using len by (intro less_split) simp
  moreover have "drop 8 g < drop 8 h \<longleftrightarrow> take 4 (drop 8 g) < take 4 (drop 8 h) \<or>
      take 4 (drop 8 g) = take 4 (drop 8 h) \<and> drop 12 g < drop 12 h"
    using less_split [of "drop 8 g" "drop 8 h" 4] len by simp
  moreover have "drop 12 g < drop 12 h \<longleftrightarrow> take 4 (drop 12 g) < take 4 (drop 12 h) \<or>
      take 4 (drop 12 g) = take 4 (drop 12 h) \<and> drop 16 g < drop 16 h"
    using less_split [of "drop 12 g" "drop 12 h" 4] len by simp
  moreover have "drop 16 g < drop 16 h \<longleftrightarrow> take 4 (drop 16 g) < take 4 (drop 16 h) \<or>
      take 4 (drop 16 g) = take 4 (drop 16 h) \<and> drop 20 g < drop 20 h"
    using less_split [of "drop 16 g" "drop 16 h" 4] len by simp
  ultimately show ?thesis
    using len by (simp add: dashed_def less_append_same_length)
qed

lemma uuid_str_less [simp]: "uuid_str u < uuid_str v \<longleftrightarrow> u < v"
proof -
  have "unat x < 16 ^ 32" for x :: uuid
    using unsigned_less [of x] by simp
  then show ?thesis
    by (simp add: uuid_str_def dashed_less hex_digits_less word_less_nat_alt)
qed

lemma uuid_str_le [simp]: "uuid_str u \<le> uuid_str v \<longleftrightarrow> u \<le> v"
  by (simp flip: not_less)

lemma uuid_str_inject [simp]: "uuid_str u = uuid_str v \<longleftrightarrow> u = v"
  by (metis neq_iff uuid_str_less)

lemma inj_uuid_str: "inj uuid_str"
  by (rule injI) simp

end
