(* ===== verification/Models.thy ===== *)
theory Models
  imports Identifiers
begin

text \<open>
  The ORM models (app/models) as records, and the database they are stored in.

  BaseModel is the parent record of every row; its primary key \<open>id\<close> is called
  \<open>entity_id\<close> (\<open>id\<close> is a HOL constant). Columns carry a prefix for their table, since two
  tables share names such as \<open>product_id\<close>. Timestamps are integers; a price is the number
  of hundredths a Numeric(12, 2) column holds.

  \<open>constraints\<close> is what the schema of migrations/versions enforces on the stored rows:
  primary keys, unique columns, foreign keys, string lengths (a text column also refuses
  the NUL character) and the ranges of Integer and Numeric(12, 2).
\<close>

section \<open>Rows\<close>

record base_model =
  entity_id :: uuid
  created_at :: int
  updated_at :: int

record warehouse = base_model +
  wh_name :: string
  wh_code :: string
  wh_address :: "string option"
  wh_is_active :: bool

record product = base_model +
  prod_sku :: string
  prod_name :: string
  prod_description :: "string option"
  prod_price :: int
  prod_is_active :: bool

record inventory = base_model +
  inv_product_id :: uuid
  inv_warehouse_id :: uuid
  inv_quantity :: int
  inv_low_stock_threshold :: "int option"

datatype movement_type = IN | OUT | TRANSFER

record movement = base_model +
  mov_product_id :: uuid
  mov_type :: movement_type
  mov_quantity :: int
  mov_source_warehouse_id :: "uuid option"
  mov_destination_warehouse_id :: "uuid option"
  mov_reason :: "string option"
  mov_performed_by :: "uuid option"

datatype alert_type = LOW_STOCK | OUT_OF_STOCK

datatype alert_status = ACTIVE | RESOLVED

record alert = base_model +
  al_product_id :: uuid
  al_warehouse_id :: uuid
  al_alert_type :: alert_type
  al_status :: alert_status
  al_threshold :: int
  al_quantity_at_trigger :: int
  al_resolved_at :: "int option"

record user = base_model +
  us_email :: string
  us_hashed_password :: string
  us_full_name :: "string option"
  us_is_active :: bool
  us_is_superuser :: bool

record db =
  warehouses :: "warehouse list"
  products :: "product list"
  inventories :: "inventory list"
  movements :: "movement list"
  alerts :: "alert list"
  users :: "user list"

definition empty_db :: db where
  "empty_db = \<lparr>warehouses = [], products = [], inventories = [], movements = [], alerts = [],
     users = []\<rparr>"

section \<open>The schema's constraints\<close>

definition int4 :: "int \<Rightarrow> bool" where
  "int4 i \<longleftrightarrow> - (2 ^ 31) \<le> i \<and> i < 2 ^ 31"

definition numeric_12_2 :: "int \<Rightarrow> bool" where
  "numeric_12_2 c \<longleftrightarrow> \<bar>c\<bar> < 10 ^ 12"

definition varchar :: "nat \<Rightarrow> string \<Rightarrow> bool" where
  "varchar n s \<longleftrightarrow> length s \<le> n \<and> CHR 0x00 \<notin> set s"

definition opt_ok :: "('a \<Rightarrow> bool) \<Rightarrow> 'a option \<Rightarrow> bool" where
  "opt_ok p x = (case x of None \<Rightarrow> True | Some a \<Rightarrow> p a)"

lemma opt_ok_simps [simp]: "opt_ok p None" "opt_ok p (Some a) = p a"
  by (simp_all add: opt_ok_def)

definition ids :: "'r base_model_scheme list \<Rightarrow> uuid list" where
  "ids rs = map entity_id rs"

definition products_ok :: "db \<Rightarrow> bool" where
  "products_ok d \<longleftrightarrow> distinct (ids (products d)) \<and> distinct (map prod_sku (products d)) \<and>
     (\<forall>r \<in> set (products d). varchar 50 (prod_sku r) \<and> varchar 255 (prod_name r) \<and>
        opt_ok (varchar 2000) (prod_description r) \<and> numeric_12_2 (prod_price r))"

definition users_ok :: "db \<Rightarrow> bool" where
  "users_ok d \<longleftrightarrow> distinct (ids (users d)) \<and> distinct (map us_email (users d)) \<and>
     (\<forall>r \<in> set (users d). varchar 255 (us_email r) \<and> varchar 255 (us_hashed_password r) \<and>
        opt_ok (varchar 255) (us_full_name r))"

definition warehouses_ok :: "db \<Rightarrow> bool" where
  "warehouses_ok d \<longleftrightarrow> distinct (ids (warehouses d)) \<and> distinct (map wh_code (warehouses d)) \<and>
     (\<forall>r \<in> set (warehouses d). varchar 255 (wh_name r) \<and> varchar 20 (wh_code r) \<and>
        opt_ok (varchar 500) (wh_address r))"

definition alerts_ok :: "db \<Rightarrow> bool" where
  "alerts_ok d \<longleftrightarrow> distinct (ids (alerts d)) \<and>
     (\<forall>r \<in> set (alerts d). int4 (al_threshold r) \<and> int4 (al_quantity_at_trigger r) \<and>
        al_product_id r \<in> set (ids (products d)) \<and> al_warehouse_id r \<in> set (ids (warehouses d)))"

definition inventories_ok :: "db \<Rightarrow> bool" where
  "inventories_ok d \<longleftrightarrow> distinct (ids (inventories d)) \<and>
     distinct (map (\<lambda>r. (inv_product_id r, inv_warehouse_id r)) (inventories d)) \<and>
     (\<forall>r \<in> set (inventories d). int4 (inv_quantity r) \<and> opt_ok int4 (inv_low_stock_threshold r) \<and>
        inv_product_id r \<in> set (ids (products d)) \<and>
        inv_warehouse_id r \<in> set (ids (warehouses d)))"

definition movements_ok :: "db \<Rightarrow> bool" where
  "movements_ok d \<longleftrightarrow> distinct (ids (movements d)) \<and>
     (\<forall>r \<in> set (movements d). int4 (mov_quantity r) \<and>
        mov_product_id r \<in> set (ids (products d)) \<and>
        opt_ok (\<lambda>i. i \<in> set (ids (warehouses d))) (mov_source_warehouse_id r) \<and>
        opt_ok (\<lambda>i. i \<in> set (ids (warehouses d))) (mov_destination_warehouse_id r) \<and>
        opt_ok (varchar 500) (mov_reason r))"

definition constraints :: "db \<Rightarrow> bool" where
  "constraints d \<longleftrightarrow> products_ok d \<and> users_ok d \<and> warehouses_ok d \<and> alerts_ok d \<and>
     inventories_ok d \<and> movements_ok d"

lemmas constraint_defs = constraints_def products_ok_def users_ok_def warehouses_ok_def
  alerts_ok_def inventories_ok_def movements_ok_def

lemma constraints_empty [simp]: "constraints empty_db"
  by (simp add: constraint_defs empty_db_def ids_def)

lemma ids_Nil [simp]: "ids [] = []"
  by (simp add: ids_def)

lemma ids_Cons [simp]: "ids (r # rs) = entity_id r # ids rs"
  by (simp add: ids_def)

lemma ids_append [simp]: "ids (xs @ ys) = ids xs @ ids ys"
  by (simp add: ids_def)

lemma set_ids: "set (ids rs) = entity_id ` set rs"
  by (simp add: ids_def)

lemma length_ids [simp]: "length (ids rs) = length rs"
  by (simp add: ids_def)

section \<open>Stock and the audit trail\<close>

text \<open>
  The stock of a product in a warehouse: the quantity of its inventory row, 0 where the
  pair has none (the pair is a unique key, so the sum has at most one term).
\<close>

definition stock_in :: "inventory list \<Rightarrow> uuid \<Rightarrow> uuid \<Rightarrow> int" where
  "stock_in rs p wh =
     (\<Sum>r\<leftarrow>rs. if inv_product_id r = p \<and> inv_warehouse_id r = wh then inv_quantity r else 0)"

text \<open>What one movement adds to the stock of a product in a warehouse.\<close>

definition movement_effect :: "uuid \<Rightarrow> uuid \<Rightarrow> movement \<Rightarrow> int" where
  "movement_effect p wh m =
     (if mov_product_id m = p then
        (if mov_destination_warehouse_id m = Some wh then mov_quantity m else 0)
        - (if mov_source_warehouse_id m = Some wh then mov_quantity m else 0)
      else 0)"

definition ledger_balance :: "movement list \<Rightarrow> uuid \<Rightarrow> uuid \<Rightarrow> int" where
  "ledger_balance ms p wh = (\<Sum>m\<leftarrow>ms. movement_effect p wh m)"

lemma stock_in_append [simp]: "stock_in (xs @ ys) p wh = stock_in xs p wh + stock_in ys p wh"
  by (simp add: stock_in_def)

lemma stock_in_Nil [simp]: "stock_in [] p wh = 0"
  by (simp add: stock_in_def)

lemma stock_in_Cons [simp]: "stock_in (r # rs) p wh =
    (if inv_product_id r = p \<and> inv_warehouse_id r = wh then inv_quantity r else 0)
      + stock_in rs p wh"
  by (simp add: stock_in_def)

lemma stock_in_absent:
  "(\<And>r. r \<in> set rs \<Longrightarrow> \<not> (inv_product_id r = p \<and> inv_warehouse_id r = wh)) \<Longrightarrow>
     stock_in rs p wh = 0"
  by (induction rs) auto

lemma stock_in_row:
  assumes "distinct (map (\<lambda>r. (inv_product_id r, inv_warehouse_id r)) rs)" and "r \<in> set rs"
  shows "stock_in rs (inv_product_id r) (inv_warehouse_id r) = inv_quantity r"
  using assms
proof (induction rs)
  case (Cons x xs)
  show ?case
  proof (cases "x = r")
    case True
    have "stock_in xs (inv_product_id r) (inv_warehouse_id r) = 0"
      by (rule stock_in_absent) (use Cons.prems True in \<open>auto simp: image_iff\<close>)
    with True show ?thesis by simp
  next
    case False
    with Cons.prems have "r \<in> set xs" by simp
    moreover have "\<not> (inv_product_id x = inv_product_id r \<and> inv_warehouse_id x = inv_warehouse_id r)"
      using Cons.prems \<open>r \<in> set xs\<close> by (force simp: image_iff)
    ultimately show ?thesis using Cons by auto
  qed
qed simp

lemma ledger_balance_append [simp]:
  "ledger_balance (xs @ ys) p wh = ledger_balance xs p wh + ledger_balance ys p wh"
  by (simp add: ledger_balance_def)

lemma ledger_balance_Nil [simp]: "ledger_balance [] p wh = 0"
  by (simp add: ledger_balance_def)

lemma ledger_balance_Cons [simp]:
  "ledger_balance (m # ms) p wh = movement_effect p wh m + ledger_balance ms p wh"
  by (simp add: ledger_balance_def)

end
