(* ===== verification/Events.thy ===== *)
theory Events
  imports Identifiers
begin

text \<open>
  Domain events (app/events/base.py, app/events/inventory.py): the envelope of
  DomainEvent is the record, the subclass and its payload fields the datatype
  \<open>event_body\<close>; \<open>event_type\<close> is each subclass's routing key.
\<close>

datatype event_body =
    StockReceivedEvent (ev_product_id: uuid) (ev_warehouse_id: uuid) (ev_quantity: int)
      (ev_resulting_quantity: int)
  | StockRemovedEvent (ev_product_id: uuid) (ev_warehouse_id: uuid) (ev_quantity: int)
      (ev_resulting_quantity: int)
  | StockTransferredEvent (ev_product_id: uuid) (ev_source_warehouse_id: uuid)
      (ev_destination_warehouse_id: uuid) (ev_quantity: int)
  | LowStockDetectedEvent (ev_product_id: uuid) (ev_warehouse_id: uuid) (ev_quantity: int)
      (ev_threshold: int)
  | OutOfStockDetectedEvent (ev_product_id: uuid) (ev_warehouse_id: uuid)

record domain_event =
  event_id :: uuid
  occurred_at :: int
  body :: event_body

primrec body_event_type :: "event_body \<Rightarrow> string" where
  "body_event_type (StockReceivedEvent p w q r) = ''inventory.stock_received''"
| "body_event_type (StockRemovedEvent p w q r) = ''inventory.stock_removed''"
| "body_event_type (StockTransferredEvent p s d q) = ''inventory.stock_transferred''"
| "body_event_type (LowStockDetectedEvent p w q t) = ''inventory.low_stock_detected''"
| "body_event_type (OutOfStockDetectedEvent p w) = ''inventory.out_of_stock_detected''"

definition event_type :: "domain_event \<Rightarrow> string" where
  "event_type e = body_event_type (body e)"

end
