(* ===== verification/Exceptions.thy ===== *)
theory Exceptions
  imports Prelude
begin

text \<open>
  Domain exceptions (app/core/exceptions.py) and their translation to HTTP responses
  (app/core/error_handlers.py). \<open>exc\<close> is everything a service call can raise: a domain
  exception, a failed assert, an error of the database driver (a constraint or a column
  type refuses a statement), or SQLAlchemy's MultipleResultsFound. The endpoints add two of
  their own: \<open>ResponseValidationError\<close> is the ValidationError Pydantic's
  \<open>model_validate\<close> raises on a row its read model refuses, and \<open>AttributeError\<close> is what
  \<open>uuid.UUID\<close> raises on a token subject that is not a string.
\<close>

datatype app_exception =
    AppException string
  | NotFoundError string
  | ConflictError string
  | ValidationError string
  | InsufficientStockError string
  | InactiveResourceError string

primrec message :: "app_exception \<Rightarrow> string" where
  "message (AppException m) = m"
| "message (NotFoundError m) = m"
| "message (ConflictError m) = m"
| "message (ValidationError m) = m"
| "message (InsufficientStockError m) = m"
| "message (InactiveResourceError m) = m"

datatype exc =
    App app_exception
  | AssertionError
  | DatabaseError
  | MultipleResultsFound
  | ResponseValidationError
  | AttributeError

datatype exc_class =
    AppExceptionC | NotFoundErrorC | ConflictErrorC | ValidationErrorC
  | InsufficientStockErrorC | InactiveResourceErrorC

primrec type_of :: "app_exception \<Rightarrow> exc_class" where
  "type_of (AppException m) = AppExceptionC"
| "type_of (NotFoundError m) = NotFoundErrorC"
| "type_of (ConflictError m) = ConflictErrorC"
| "type_of (ValidationError m) = ValidationErrorC"
| "type_of (InsufficientStockError m) = InsufficientStockErrorC"
| "type_of (InactiveResourceError m) = InactiveResourceErrorC"

definition status_code_by_exception :: "exc_class \<rightharpoonup> int" where
  "status_code_by_exception =
     [NotFoundErrorC \<mapsto> 404, ConflictErrorC \<mapsto> 409, InsufficientStockErrorC \<mapsto> 409,
      InactiveResourceErrorC \<mapsto> 409, ValidationErrorC \<mapsto> 422]"

record json_response =
  status_code :: int
  detail :: string

definition app_exception_handler :: "app_exception \<Rightarrow> json_response" where
  "app_exception_handler x =
     \<lparr>status_code = (case status_code_by_exception (type_of x) of Some c \<Rightarrow> c | None \<Rightarrow> 400),
      detail = message x\<rparr>"

definition unhandled_exception_handler :: "exc \<Rightarrow> json_response" where
  "unhandled_exception_handler x = \<lparr>status_code = 500, detail = ''An unexpected error occurred.''\<rparr>"

text \<open>
  The handlers as registered: \<open>app_exception_handler\<close> for AppException and its
  subclasses, the catch-all for every other exception.
\<close>

fun handle_exception :: "exc \<Rightarrow> json_response" where
  "handle_exception (App x) = app_exception_handler x"
| "handle_exception x = unhandled_exception_handler x"

lemma handle_status [simp]:
  "status_code (handle_exception (App (NotFoundError m))) = 404"
  "status_code (handle_exception (App (ConflictError m))) = 409"
  "status_code (handle_exception (App (InsufficientStockError m))) = 409"
  "status_code (handle_exception (App (InactiveResourceError m))) = 409"
  "status_code (handle_exception (App (ValidationError m))) = 422"
  "status_code (handle_exception (App (AppException m))) = 400"
  "status_code (handle_exception AssertionError) = 500"
  "status_code (handle_exception DatabaseError) = 500"
  "status_code (handle_exception MultipleResultsFound) = 500"
  "status_code (handle_exception ResponseValidationError) = 500"
  "status_code (handle_exception AttributeError) = 500"
  by (simp_all add: app_exception_handler_def status_code_by_exception_def
      unhandled_exception_handler_def)

lemma app_exception_status:
  "status_code (handle_exception x) = 500 \<longleftrightarrow> (\<forall>y. x \<noteq> App y)"
  by (cases x rule: handle_exception.cases)
     (auto simp: app_exception_handler_def status_code_by_exception_def
       unhandled_exception_handler_def split: option.splits app_exception.splits if_splits)

text \<open>From here on the handlers are used through their status codes.\<close>

declare handle_exception.simps [simp del]

end
