(* ===== verification/Session.thy ===== *)
theory Session
  imports Models Events Exceptions
begin

text \<open>
  The database session (app/core/session.py) and what the services are given.

  A \<open>world\<close> holds the committed database, the session's view of it inside the current
  transaction (\<open>work\<close>, after the flushes so far), the transaction's timestamp (SQL
  now()), the row locks the transaction holds, a counter that numbers the interactions with
  the outside, and \<open>outside\<close>, the state the event publisher and the task broker act on.

  \<open>deps\<close> are the things the code calls but does not define: the settings value it reads,
  uuid4, the clock, the order in which the database returns rows when no ORDER BY is
  given, the ILIKE operator, the injected event publisher and the Celery broker. Each call
  is numbered by \<open>tick\<close>, so two calls may answer differently.
\<close>

record 'x deps =
  low_stock_alert_threshold_default :: int
  uuid4 :: "nat \<Rightarrow> uuid"
  clock :: "nat \<Rightarrow> int"
  scan_order :: "nat \<Rightarrow> nat \<Rightarrow> nat list"
  ilike :: "string \<Rightarrow> string \<Rightarrow> bool"
  event_publish :: "domain_event \<Rightarrow> 'x \<Rightarrow> 'x"
  task_delay :: "string \<Rightarrow> 'x \<Rightarrow> bool \<times> 'x"

record 'x world =
  committed :: db
  work :: db
  tx_time :: int
  row_locks :: "(uuid \<times> uuid) list"
  tick :: nat
  outside :: 'x

type_synonym ('x, 'a) service = "('x world, exc, 'a) prog"

section \<open>Values drawn from outside\<close>

definition draw_uuid :: "'x deps \<Rightarrow> ('x, uuid) service" where
  "draw_uuid e = (\<lambda>w. (Inr (uuid4 e (tick w)), w\<lparr>tick := Suc (tick w)\<rparr>))"

definition utc_now :: "'x deps \<Rightarrow> ('x, int) service" where
  "utc_now e = (\<lambda>w. (Inr (clock e (tick w)), w\<lparr>tick := Suc (tick w)\<rparr>))"

section \<open>Transactions\<close>

text \<open>
  A flush sends the pending statements; the database refuses them when a constraint would
  not hold. The application never issues another statement after a failed flush (the
  exception leaves the session), so the refused rows stay in \<open>work\<close> only until the session
  closes.
\<close>

definition flush :: "('x, unit) service" where
  "flush = (\<lambda>w. (if constraints (work w) then Inr () else Inl DatabaseError, w))"

text \<open>
  A commit flushes, makes the work durable, releases the row locks and lets the next
  statement begin a new transaction, with a new now().
\<close>

definition commit :: "'x deps \<Rightarrow> ('x, unit) service" where
  "commit e = andthen flush (\<lambda>_. modifies (\<lambda>w. w\<lparr>committed := work w, row_locks := [],
     tx_time := clock e (tick w), tick := Suc (tick w)\<rparr>))"

definition begin_session :: "'x deps \<Rightarrow> 'x world \<Rightarrow> 'x world" where
  "begin_session e w = w\<lparr>work := committed w, row_locks := [], tx_time := clock e (tick w),
     tick := Suc (tick w)\<rparr>"

definition close_session :: "'x world \<Rightarrow> 'x world" where
  "close_session w = w\<lparr>work := committed w, row_locks := []\<rparr>"

text \<open>
  \<open>get_db\<close>: a request's session is closed whether the request returns or raises, which
  rolls an unfinished transaction back. \<open>TaskSessionLocal\<close> differs in its connection pool
  only, so the tasks use the same definition.
\<close>

definition get_db :: "'x deps \<Rightarrow> ('x, 'a) service \<Rightarrow> ('x, 'a) service" where
  "get_db e f = (\<lambda>w. case f (begin_session e w) of (r, w') \<Rightarrow> (r, close_session w'))"

section \<open>How the transaction operations run\<close>

lemma draw_uuid_run [simp, prog_simps]:
  "draw_uuid e w = (Inr (uuid4 e (tick w)), w\<lparr>tick := Suc (tick w)\<rparr>)"
  by (simp add: draw_uuid_def)

lemma utc_now_run [simp, prog_simps]:
  "utc_now e w = (Inr (clock e (tick w)), w\<lparr>tick := Suc (tick w)\<rparr>)"
  by (simp add: utc_now_def)

lemma flush_run [prog_simps]:
  "flush w = (if constraints (work w) then Inr () else Inl DatabaseError, w)"
  by (simp add: flush_def)

lemma flush_InrD: "flush w = (Inr u, w') \<Longrightarrow> w' = w \<and> constraints (work w)"
  by (auto simp: flush_def split: if_splits)

definition committed_world :: "'x deps \<Rightarrow> 'x world \<Rightarrow> 'x world" where
  "committed_world e w = w\<lparr>committed := work w, row_locks := [], tx_time := clock e (tick w),
     tick := Suc (tick w)\<rparr>"

lemma committed_world_simps [simp]:
  "committed (committed_world e w) = work w"
  "work (committed_world e w) = work w"
  "row_locks (committed_world e w) = []"
  "tick (committed_world e w) = Suc (tick w)"
  "outside (committed_world e w) = outside w"
  "tx_time (committed_world e w) = clock e (tick w)"
  by (simp_all add: committed_world_def)

lemma commit_run [prog_simps]:
  "commit e w = (if constraints (work w) then (Inr (), committed_world e w)
     else (Inl DatabaseError, w))"
  by (simp add: commit_def flush_def andthen_def committed_world_def)

lemma begin_session_simps [simp]:
  "committed (begin_session e w) = committed w"
  "work (begin_session e w) = committed w"
  "row_locks (begin_session e w) = []"
  "tick (begin_session e w) = Suc (tick w)"
  "outside (begin_session e w) = outside w"
  "tx_time (begin_session e w) = clock e (tick w)"
  by (simp_all add: begin_session_def)

lemma close_session_simps [simp]:
  "committed (close_session w) = committed w"
  "work (close_session w) = committed w"
  "row_locks (close_session w) = []"
  "tick (close_session w) = tick w"
  "outside (close_session w) = outside w"
  by (simp_all add: close_session_def)

lemma get_db_run: "f (begin_session e w) = (r, w') \<Longrightarrow> get_db e f w = (r, close_session w')"
  by (simp add: get_db_def)

lemma committed_get_db: "committed (snd (get_db e f w)) = committed (snd (f (begin_session e w)))"
  by (simp add: get_db_def split: prod.splits)

section \<open>Invariants of the committed database\<close>

text \<open>
  \<open>durable J\<close>: the committed database satisfies \<open>J\<close> and the schema's constraints. What a
  program does to uncommitted work does not matter to it; only commits do.
\<close>

definition durable :: "(db \<Rightarrow> bool) \<Rightarrow> 'x world \<Rightarrow> bool" where
  "durable J w \<longleftrightarrow> J (committed w) \<and> constraints (committed w)"

text \<open>Programs that issue no commit leave every durable fact alone.\<close>

named_theorems no_commit_rules \<open>programs that do not commit\<close>

definition no_commit :: "('x, 'a) service \<Rightarrow> bool" where
  "no_commit f \<longleftrightarrow> (\<forall>w. committed (snd (f w)) = committed w)"

lemma no_commitI: "(\<And>w r w'. f w = (r, w') \<Longrightarrow> committed w' = committed w) \<Longrightarrow> no_commit f"
  by (metis no_commit_def prod.collapse)

lemma no_commitD: "no_commit f \<Longrightarrow> f w = (r, w') \<Longrightarrow> committed w' = committed w"
  by (metis no_commit_def snd_conv)

lemma no_commit_andthen [no_commit_rules]:
  "no_commit f \<Longrightarrow> (\<And>a. no_commit (g a)) \<Longrightarrow> no_commit (andthen f g)"
  by (rule no_commitI)
     (auto simp: andthen_def dest: no_commitD split: prod.splits sum.splits, metis no_commitD)

lemma no_commit_basic [no_commit_rules]:
  "no_commit (ret a)" "no_commit (raise x)" "no_commit (gets h)" "no_commit (lift_result r)"
  "no_commit (draw_uuid e)" "no_commit (utc_now e)" "no_commit flush"
  by (simp_all add: no_commit_def flush_def)

lemma no_commit_modifies [no_commit_rules]:
  "(\<And>w. committed (h w) = committed w) \<Longrightarrow> no_commit (modifies h)"
  by (simp add: no_commit_def)

lemma no_commit_if [no_commit_rules]:
  "no_commit f \<Longrightarrow> no_commit g \<Longrightarrow> no_commit (if b then f else g)"
  by simp

lemma no_commit_option [no_commit_rules]:
  "no_commit f \<Longrightarrow> (\<And>a. no_commit (g a)) \<Longrightarrow>
     no_commit (case x of None \<Rightarrow> f | Some a \<Rightarrow> g a)"
  by (cases x) simp_all

lemma no_commit_keeps_durable: "no_commit f \<Longrightarrow> keeps (durable J) f"
  by (simp add: no_commit_def keeps_def durable_def)

end
