(* ===== verification/Repositories.thy ===== *)
theory Repositories
  imports Session
begin

text \<open>
  The data-access layer (app/repositories). BaseRepository is generic over a model class;
  here a \<open>table\<close> names the model and its place in the database, and the generic operations
  take the table as their first argument. Each concrete repository adds its queries.

  The locale \<open>table_store\<close> is the contract the services rely on: reading back what was
  written, other tables untouched, and primary keys unique while the constraints hold. It
  is interpreted on the six tables of the schema.
\<close>

section \<open>Tables\<close>

record 'r table =
  model_name :: string
  rows :: "db \<Rightarrow> 'r list"
  put_rows :: "'r list \<Rightarrow> db \<Rightarrow> db"

definition warehouses_table :: "warehouse table" where
  "warehouses_table = \<lparr>model_name = ''Warehouse'', rows = warehouses,
     put_rows = (\<lambda>rs d. d\<lparr>warehouses := rs\<rparr>)\<rparr>"

definition products_table :: "product table" where
  "products_table = \<lparr>model_name = ''Product'', rows = products,
     put_rows = (\<lambda>rs d. d\<lparr>products := rs\<rparr>)\<rparr>"

definition inventories_table :: "inventory table" where
  "inventories_table = \<lparr>model_name = ''Inventory'', rows = inventories,
     put_rows = (\<lambda>rs d. d\<lparr>inventories := rs\<rparr>)\<rparr>"

definition movements_table :: "movement table" where
  "movements_table = \<lparr>model_name = ''Movement'', rows = movements,
     put_rows = (\<lambda>rs d. d\<lparr>movements := rs\<rparr>)\<rparr>"

definition alerts_table :: "alert table" where
  "alerts_table = \<lparr>model_name = ''Alert'', rows = alerts,
     put_rows = (\<lambda>rs d. d\<lparr>alerts := rs\<rparr>)\<rparr>"

definition users_table :: "user table" where
  "users_table = \<lparr>model_name = ''User'', rows = users,
     put_rows = (\<lambda>rs d. d\<lparr>users := rs\<rparr>)\<rparr>"

lemmas table_defs = warehouses_table_def products_table_def inventories_table_def
  movements_table_def alerts_table_def users_table_def

section \<open>Queries\<close>

text \<open>
  The rows in the order the database returns them for this query, and one page of them.
  OFFSET and LIMIT are 64-bit and must not be negative; the routes do not restrict them.
\<close>

definition scan :: "'x deps \<Rightarrow> nat \<Rightarrow> 'r list \<Rightarrow> 'r list" where
  "scan e k rs = map (\<lambda>i. rs ! i) (scan_order e k (length rs))"

definition paginate :: "int \<Rightarrow> int \<Rightarrow> 'r list \<Rightarrow> exc + 'r list" where
  "paginate skip limit rs =
     (if 0 \<le> skip \<and> skip < 2 ^ 63 \<and> 0 \<le> limit \<and> limit < 2 ^ 63
      then Inr (take (nat limit) (drop (nat skip) rs)) else Inl DatabaseError)"

definition select_page ::
  "'x deps \<Rightarrow> int \<Rightarrow> int \<Rightarrow> ('r list \<Rightarrow> 'r list) \<Rightarrow> ('r, 'z) table_scheme \<Rightarrow> ('x, 'r list) service" where
  "select_page e skip limit refine t =
     (\<lambda>w. (paginate skip limit (refine (scan e (tick w) (rows t (work w)))),
           w\<lparr>tick := Suc (tick w)\<rparr>))"

text \<open>Result.scalar_one_or_none.\<close>

definition scalar_one_or_none :: "'r list \<Rightarrow> exc + 'r option" where
  "scalar_one_or_none rs =
     (case rs of [] \<Rightarrow> Inr None | [r] \<Rightarrow> Inr (Some r) | _ \<Rightarrow> Inl MultipleResultsFound)"

definition select_one :: "('r \<Rightarrow> bool) \<Rightarrow> ('r, 'z) table_scheme \<Rightarrow> ('x, 'r option) service" where
  "select_one p t = (\<lambda>w. (scalar_one_or_none (filter p (rows t (work w))), w))"

section \<open>BaseRepository\<close>

definition get_by_id ::
  "('r base_model_scheme, 'z) table_scheme \<Rightarrow> uuid \<Rightarrow> ('x, 'r base_model_scheme option) service" where
  "get_by_id t i = gets (\<lambda>w. find (\<lambda>r. entity_id r = i) (rows t (work w)))"

definition quoted :: "string \<Rightarrow> string" where
  "quoted s = CHR 0x27 # s @ [CHR 0x27]"

definition not_found :: "string \<Rightarrow> uuid \<Rightarrow> exc" where
  "not_found model i =
     App (NotFoundError (model @ '' with id '' @ quoted (uuid_str i) @ '' was not found.''))"

definition get_by_id_or_raise ::
  "('r base_model_scheme, 'z) table_scheme \<Rightarrow> uuid \<Rightarrow> ('x, 'r base_model_scheme) service" where
  "get_by_id_or_raise t i = andthen (get_by_id t i) (\<lambda>entity.
     case entity of None \<Rightarrow> raise (not_found (model_name t) i) | Some r \<Rightarrow> ret r)"

definition list_all_rows ::
  "'x deps \<Rightarrow> ('r, 'z) table_scheme \<Rightarrow> int \<Rightarrow> int \<Rightarrow> ('x, 'r list) service" where
  "list_all_rows e t skip limit = select_page e skip limit (\<lambda>rs. rs) t"

text \<open>
  The session's own operations on an entity. \<open>add\<close> stages an INSERT, which stores the id
  drawn for it and now() in both timestamps; \<open>set_attributes\<close> is a change of attributes of
  a loaded entity, sent as an UPDATE (with a new \<open>updated_at\<close>) only if something changed;
  \<open>refresh\<close> reads an entity back.
\<close>

definition put_all :: "('r, 'z) table_scheme \<Rightarrow> ('r list \<Rightarrow> 'r list) \<Rightarrow> 'x world \<Rightarrow> 'x world" where
  "put_all t f w = w\<lparr>work := put_rows t (f (rows t (work w))) (work w)\<rparr>"

definition stamped :: "uuid \<Rightarrow> int \<Rightarrow> 'r base_model_scheme \<Rightarrow> 'r base_model_scheme" where
  "stamped i now r = r\<lparr>entity_id := i, created_at := now, updated_at := now\<rparr>"

definition touch ::
  "int \<Rightarrow> ('r base_model_scheme \<Rightarrow> 'r base_model_scheme) \<Rightarrow> 'r base_model_scheme \<Rightarrow> 'r base_model_scheme" where
  "touch now f r = (let r' = f r in if r' = r then r else r'\<lparr>updated_at := now\<rparr>)"

definition add ::
  "'x deps \<Rightarrow> ('r base_model_scheme, 'z) table_scheme \<Rightarrow> 'r base_model_scheme \<Rightarrow> ('x, uuid) service" where
  "add e t entity = andthen (draw_uuid e) (\<lambda>i.
     andthen (modifies (\<lambda>w. put_all t (\<lambda>rs. rs @ [stamped i (tx_time w) entity]) w)) (\<lambda>_. ret i))"

definition set_attributes ::
  "('r base_model_scheme, 'z) table_scheme \<Rightarrow> uuid \<Rightarrow> ('r base_model_scheme \<Rightarrow> 'r base_model_scheme) \<Rightarrow>
     ('x, unit) service" where
  "set_attributes t i f = modifies (\<lambda>w. put_all t (update_by entity_id i (touch (tx_time w) f)) w)"

definition refresh ::
  "('r base_model_scheme, 'z) table_scheme \<Rightarrow> uuid \<Rightarrow> ('x, 'r base_model_scheme) service" where
  "refresh t i = (\<lambda>w. case find (\<lambda>r. entity_id r = i) (rows t (work w)) of
     None \<Rightarrow> (Inl DatabaseError, w) | Some r \<Rightarrow> (Inr r, w))"

definition create ::
  "'x deps \<Rightarrow> ('r base_model_scheme, 'z) table_scheme \<Rightarrow> 'r base_model_scheme \<Rightarrow>
     ('x, 'r base_model_scheme) service" where
  "create e t entity = andthen (add e t entity) (\<lambda>i. andthen flush (\<lambda>_. refresh t i))"

definition delete_row ::
  "('r base_model_scheme, 'z) table_scheme \<Rightarrow> 'r base_model_scheme \<Rightarrow> ('x, unit) service" where
  "delete_row t entity = andthen
     (modifies (put_all t (filter (\<lambda>r. entity_id r \<noteq> entity_id entity)))) (\<lambda>_. flush)"

section \<open>The concrete repositories\<close>

definition get_by_code :: "string \<Rightarrow> ('x, warehouse option) service" where
  "get_by_code code = select_one (\<lambda>r. wh_code r = code) warehouses_table"

definition list_active_warehouses :: "'x deps \<Rightarrow> int \<Rightarrow> int \<Rightarrow> ('x, warehouse list) service" where
  "list_active_warehouses e skip limit = select_page e skip limit (filter wh_is_active) warehouses_table"

definition get_by_sku :: "string \<Rightarrow> ('x, product option) service" where
  "get_by_sku sku = select_one (\<lambda>r. prod_sku r = sku) products_table"

definition list_active_products :: "'x deps \<Rightarrow> int \<Rightarrow> int \<Rightarrow> ('x, product list) service" where
  "list_active_products e skip limit = select_page e skip limit (filter prod_is_active) products_table"

definition search_by_name :: "'x deps \<Rightarrow> string \<Rightarrow> int \<Rightarrow> int \<Rightarrow> ('x, product list) service" where
  "search_by_name e query skip limit = select_page e skip limit
     (filter (\<lambda>r. ilike e (prod_name r) (CHR ''%'' # query @ ''%''))) products_table"

definition get_by_product_and_warehouse :: "uuid \<Rightarrow> uuid \<Rightarrow> ('x, inventory option) service" where
  "get_by_product_and_warehouse p wh =
     select_one (\<lambda>r. inv_product_id r = p \<and> inv_warehouse_id r = wh) inventories_table"

text \<open>SELECT ... FOR UPDATE: the same row, locked until the transaction ends.\<close>

definition get_by_product_and_warehouse_for_update ::
  "uuid \<Rightarrow> uuid \<Rightarrow> ('x, inventory option) service" where
  "get_by_product_and_warehouse_for_update p wh =
     andthen (get_by_product_and_warehouse p wh) (\<lambda>found.
       case found of None \<Rightarrow> ret None
       | Some r \<Rightarrow> andthen (modifies (\<lambda>w. w\<lparr>row_locks := row_locks w @ [(p, wh)]\<rparr>)) (\<lambda>_. ret (Some r)))"

definition list_inventory_by_warehouse ::
  "'x deps \<Rightarrow> uuid \<Rightarrow> int \<Rightarrow> int \<Rightarrow> ('x, inventory list) service" where
  "list_inventory_by_warehouse e wh skip limit =
     select_page e skip limit (filter (\<lambda>r. inv_warehouse_id r = wh)) inventories_table"

definition below_own_threshold :: "inventory \<Rightarrow> bool" where
  "below_own_threshold r \<longleftrightarrow>
     (case inv_low_stock_threshold r of None \<Rightarrow> False | Some t \<Rightarrow> inv_quantity r \<le> t)"

definition list_low_stock :: "'x deps \<Rightarrow> int \<Rightarrow> int \<Rightarrow> ('x, inventory list) service" where
  "list_low_stock e skip limit = select_page e skip limit (filter below_own_threshold) inventories_table"

text \<open>ORDER BY created_at DESC; rows with equal timestamps come in any order.\<close>

definition most_recent_first :: "movement list \<Rightarrow> movement list" where
  "most_recent_first = sort_key (\<lambda>m. - created_at m)"

definition list_movements_by_product ::
  "'x deps \<Rightarrow> uuid \<Rightarrow> int \<Rightarrow> int \<Rightarrow> ('x, movement list) service" where
  "list_movements_by_product e p skip limit = select_page e skip limit
     (\<lambda>rs. most_recent_first (filter (\<lambda>m. mov_product_id m = p) rs)) movements_table"

definition involves_warehouse :: "uuid \<Rightarrow> movement \<Rightarrow> bool" where
  "involves_warehouse wh m \<longleftrightarrow>
     mov_source_warehouse_id m = Some wh \<or> mov_destination_warehouse_id m = Some wh"

definition list_movements_by_warehouse ::
  "'x deps \<Rightarrow> uuid \<Rightarrow> int \<Rightarrow> int \<Rightarrow> ('x, movement list) service" where
  "list_movements_by_warehouse e wh skip limit = select_page e skip limit
     (\<lambda>rs. most_recent_first (filter (involves_warehouse wh) rs)) movements_table"

definition active_for :: "uuid \<Rightarrow> uuid \<Rightarrow> alert \<Rightarrow> bool" where
  "active_for p wh a \<longleftrightarrow>
     al_product_id a = p \<and> al_warehouse_id a = wh \<and> al_status a = ACTIVE"

definition get_active_by_product_and_warehouse :: "uuid \<Rightarrow> uuid \<Rightarrow> ('x, alert option) service" where
  "get_active_by_product_and_warehouse p wh = select_one (active_for p wh) alerts_table"

definition list_active_alert_rows :: "'x deps \<Rightarrow> int \<Rightarrow> int \<Rightarrow> ('x, alert list) service" where
  "list_active_alert_rows e skip limit =
     select_page e skip limit (filter (\<lambda>a. al_status a = ACTIVE)) alerts_table"

definition get_by_email :: "string \<Rightarrow> ('x, user option) service" where
  "get_by_email email = select_one (\<lambda>r. us_email r = email) users_table"

definition list_active_superusers :: "'x deps \<Rightarrow> ('x, user list) service" where
  "list_active_superusers e = (\<lambda>w.
     (Inr (filter (\<lambda>r. us_is_superuser r \<and> us_is_active r) (scan e (tick w) (users (work w)))),
      w\<lparr>tick := Suc (tick w)\<rparr>))"

section \<open>How the queries run\<close>

definition fair_scan :: "'x deps \<Rightarrow> bool" where
  "fair_scan e \<longleftrightarrow> (\<forall>k n. mset (scan_order e k n) = mset [0..<n])"

lemma mset_scan:
  assumes "fair_scan e"
  shows "mset (scan e k rs) = mset rs"
proof -
  have "mset (scan_order e k (length rs)) = mset [0..<length rs]"
    using assms unfolding fair_scan_def by blast
  then have "image_mset ((!) rs) (mset (scan_order e k (length rs))) =
      image_mset ((!) rs) (mset [0..<length rs])" by (rule arg_cong)
  then have "mset (map ((!) rs) (scan_order e k (length rs))) = mset (map ((!) rs) [0..<length rs])"
    by (simp only: mset_map)
  then show ?thesis by (simp add: scan_def map_nth del: mset_map mset_upt)
qed

lemma set_scan [simp]: "fair_scan e \<Longrightarrow> set (scan e k rs) = set rs"
  by (metis mset_scan set_mset_mset)

lemma length_scan [simp]: "fair_scan e \<Longrightarrow> length (scan e k rs) = length rs"
  by (metis mset_scan size_mset)

lemma paginate_InrD: "paginate skip limit rs = Inr page \<Longrightarrow> set page \<subseteq> set rs \<and> int (length page) \<le> limit"
  by (auto simp: paginate_def split: if_splits dest: in_set_takeD in_set_dropD)

lemma scalar_one_or_none_simps [simp]:
  "scalar_one_or_none [] = Inr None"
  "scalar_one_or_none [r] = Inr (Some r)"
  "scalar_one_or_none (r # s # rs) = Inl MultipleResultsFound"
  by (simp_all add: scalar_one_or_none_def)

lemma scalar_one_or_none_Some: "scalar_one_or_none rs = Inr (Some r) \<longleftrightarrow> rs = [r]"
  by (auto simp: scalar_one_or_none_def split: list.splits)

lemma scalar_one_or_none_None: "scalar_one_or_none rs = Inr None \<longleftrightarrow> rs = []"
  by (auto simp: scalar_one_or_none_def split: list.splits)

lemma scalar_one_or_none_unique:
  "length rs \<le> 1 \<Longrightarrow> scalar_one_or_none rs = Inr (case rs of [] \<Rightarrow> None | r # _ \<Rightarrow> Some r)"
  by (cases rs rule: remdups_adj.cases) (auto simp: scalar_one_or_none_def)

lemma select_one_run [prog_simps]:
  "select_one p t w = (scalar_one_or_none (filter p (rows t (work w))), w)"
  by (simp add: select_one_def)

text \<open>A lookup by a unique key finds the row with that key.\<close>

lemma select_unique_run:
  assumes "distinct (map key (rows t (work w)))"
  shows "select_one (\<lambda>r. key r = k) t w = (Inr (find (\<lambda>r. key r = k) (rows t (work w))), w)"
proof (cases "find (\<lambda>r. key r = k) (rows t (work w))")
  case None
  then have "filter (\<lambda>r. key r = k) (rows t (work w)) = []"
    by (auto simp: find_None_iff filter_empty_conv)
  with None show ?thesis by (simp add: select_one_run)
next
  case (Some r)
  then have "r \<in> set (rows t (work w))" and "key r = k" by (auto dest: find_SomeD)
  with filter_unique [OF assms, of r] Some show ?thesis by (simp add: select_one_run)
qed

lemma get_by_id_run [prog_simps]:
  "get_by_id t i w = (Inr (find (\<lambda>r. entity_id r = i) (rows t (work w))), w)"
  by (simp add: get_by_id_def)

lemma get_by_id_or_raise_run [prog_simps]:
  "get_by_id_or_raise t i w =
     (case find (\<lambda>r. entity_id r = i) (rows t (work w)) of
        None \<Rightarrow> Inl (not_found (model_name t) i) | Some r \<Rightarrow> Inr r, w)"
  by (simp add: get_by_id_or_raise_def andthen_def get_by_id_run split: option.splits)

lemma get_by_id_or_raise_Inr:
  "get_by_id_or_raise t i w = (Inr r, w') \<Longrightarrow>
     w' = w \<and> find (\<lambda>r. entity_id r = i) (rows t (work w)) = Some r \<and>
     r \<in> set (rows t (work w)) \<and> entity_id r = i"
  by (auto simp: get_by_id_or_raise_run dest: find_SomeD split: option.splits)

lemma for_update_run [prog_simps]:
  "get_by_product_and_warehouse_for_update p wh w =
     (case get_by_product_and_warehouse p wh w of
        (Inl x, w1) \<Rightarrow> (Inl x, w1) | (Inr None, w1) \<Rightarrow> (Inr None, w1)
      | (Inr (Some r), w1) \<Rightarrow> (Inr (Some r), w1\<lparr>row_locks := row_locks w1 @ [(p, wh)]\<rparr>))"
  by (simp add: get_by_product_and_warehouse_for_update_def andthen_def
      split: prod.splits sum.splits option.splits)

text \<open>The pair of product and warehouse is a unique key of the inventories.\<close>

abbreviation inv_pair :: "inventory \<Rightarrow> uuid \<times> uuid" where
  "inv_pair r \<equiv> (inv_product_id r, inv_warehouse_id r)"

lemma get_by_pair_run:
  assumes "constraints (work w)"
  shows "get_by_product_and_warehouse p wh w =
     (Inr (find (\<lambda>r. inv_pair r = (p, wh)) (inventories (work w))), w)"
proof -
  have "distinct (map inv_pair (inventories (work w)))"
    using assms by (simp add: constraint_defs)
  then show ?thesis
    using select_unique_run [of inv_pair inventories_table w "(p, wh)"]
    by (simp add: get_by_product_and_warehouse_def inventories_table_def)
qed

lemma no_commit_queries [no_commit_rules]:
  "no_commit (select_page e skip limit refine t)" "no_commit (select_one q t')"
  "no_commit (get_by_id t'' i)" "no_commit (get_by_id_or_raise t'' i)" "no_commit (refresh t'' i)"
  "no_commit (get_by_product_and_warehouse p wh)"
  "no_commit (get_by_product_and_warehouse_for_update p wh)"
  by (auto simp: no_commit_def prog_simps select_page_def refresh_def
      get_by_product_and_warehouse_def split: option.splits prod.splits sum.splits)

lemma no_commit_changes [no_commit_rules]:
  "no_commit (add e t x)" "no_commit (set_attributes t i f)" "no_commit (create e t x)"
  unfolding add_def set_attributes_def create_def put_all_def
  by (intro no_commit_rules; simp)+

section \<open>The contract of a table\<close>

lemma entity_id_stamped [simp]: "entity_id (stamped i now r) = i"
  by (simp add: stamped_def)

lemma touch_id [simp]: "(entity_id (f r) = entity_id r) \<Longrightarrow> entity_id (touch now f r) = entity_id r"
  by (simp add: touch_def Let_def)

text \<open>Set attributes, commit, refresh: the way every service saves a loaded entity.\<close>

definition save ::
  "'x deps \<Rightarrow> ('r base_model_scheme, 'z) table_scheme \<Rightarrow> uuid \<Rightarrow>
     ('r base_model_scheme \<Rightarrow> 'r base_model_scheme) \<Rightarrow> ('x, 'r base_model_scheme) service" where
  "save e t i f = andthen (set_attributes t i f) (\<lambda>_. andthen (commit e) (\<lambda>_. refresh t i))"

definition with_row ::
  "('r base_model_scheme) table \<Rightarrow> 'r base_model_scheme \<Rightarrow> db \<Rightarrow> db" where
  "with_row t r d = put_rows t (rows t d @ [r]) d"

definition with_changed ::
  "('r base_model_scheme) table \<Rightarrow> uuid \<Rightarrow> ('r base_model_scheme \<Rightarrow> 'r base_model_scheme) \<Rightarrow> db \<Rightarrow> db" where
  "with_changed t i g d = put_rows t (update_by entity_id i g (rows t d)) d"

locale table_store =
  fixes t :: "('r base_model_scheme) table"
  assumes rows_put: "rows t (put_rows t rs d) = rs"
    and put_put: "put_rows t rs (put_rows t rs' d) = put_rows t rs d"
    and put_same: "put_rows t (rows t d) d = d"
    and keys_unique: "constraints d \<Longrightarrow> distinct (map entity_id (rows t d))"
begin

lemma rows_with_row: "rows t (with_row t r d) = rows t d @ [r]"
  by (simp add: with_row_def rows_put)

lemma rows_with_changed: "rows t (with_changed t i g d) = update_by entity_id i g (rows t d)"
  by (simp add: with_changed_def rows_put)

text \<open>\<open>create\<close> inserts the stamped row, and returns it, or the constraints refuse it.\<close>

lemma create_run:
  "create e t x w =
     (let r = stamped (uuid4 e (tick w)) (tx_time w) x;
          w' = w\<lparr>work := with_row t r (work w), tick := Suc (tick w)\<rparr>
      in if constraints (work w') then (Inr r, w') else (Inl DatabaseError, w'))"
proof -
  let ?r = "stamped (uuid4 e (tick w)) (tx_time w) x"
  let ?w = "w\<lparr>work := with_row t ?r (work w), tick := Suc (tick w)\<rparr>"
  have add: "add e t x w = (Inr (uuid4 e (tick w)), ?w)"
    by (simp add: add_def put_all_def with_row_def)
  show ?thesis
  proof (cases "constraints (work ?w)")
    case True
    have "find (\<lambda>r. entity_id r = uuid4 e (tick w)) (rows t (work ?w)) = Some ?r"
      using keys_unique [OF True] by (simp add: find_Some_iff_distinct rows_with_row)
    with True show ?thesis
      by (simp add: create_def add flush_run refresh_def Let_def)
  next
    case False
    then show ?thesis by (simp add: create_def add flush_run Let_def)
  qed
qed

lemma create_InrD:
  assumes "create e t x w = (Inr r, w')"
  shows "r = stamped (uuid4 e (tick w)) (tx_time w) x"
    and "w' = w\<lparr>work := with_row t r (work w), tick := Suc (tick w)\<rparr>"
    and "constraints (work w')"
  using assms by (auto simp: create_run Let_def split: if_splits)

lemma find_row:
  assumes "r \<in> set (rows t d)" and "constraints d"
  shows "find (\<lambda>s. entity_id s = entity_id r) (rows t d) = Some r"
  using find_Some_iff_distinct [OF keys_unique [OF assms(2)]] assms(1) by simp

lemma refresh_run:
  "r \<in> set (rows t (work w)) \<Longrightarrow> constraints (work w) \<Longrightarrow> refresh t (entity_id r) w = (Inr r, w)"
  by (simp add: refresh_def find_row)

text \<open>\<open>save\<close> changes one row and commits, or the constraints refuse the change.\<close>

lemma save_run:
  assumes r: "r \<in> set (rows t (work w))" and ok: "constraints (work w)"
    and id: "entity_id (f r) = entity_id r"
  shows "save e t (entity_id r) f w =
    (let g = touch (tx_time w) f; d = with_changed t (entity_id r) g (work w)
     in if constraints d then (Inr (g r), committed_world e (w\<lparr>work := d\<rparr>))
        else (Inl DatabaseError, w\<lparr>work := d\<rparr>))"
proof -
  let ?g = "touch (tx_time w) f"
  let ?d = "with_changed t (entity_id r) ?g (work w)"
  have set: "set_attributes t (entity_id r) f w = (Inr (), w\<lparr>work := ?d\<rparr>)"
    by (simp add: set_attributes_def put_all_def with_changed_def)
  have mem: "?g r \<in> set (rows t ?d)"
    using r keys_unique [OF ok] by (auto simp: rows_with_changed set_update_by)
  have "refresh t (entity_id r) (committed_world e (w\<lparr>work := ?d\<rparr>)) =
      (Inr (?g r), committed_world e (w\<lparr>work := ?d\<rparr>))" if "constraints ?d"
    using refresh_run [of "?g r" "committed_world e (w\<lparr>work := ?d\<rparr>)"] mem that id by simp
  then show ?thesis
    by (simp add: save_def set commit_run Let_def)
qed

text \<open>What is inserted is found under its id; other ids are looked up as before.\<close>

lemma lookup_after_create:
  assumes "create e t x w = (Inr r, w')"
  shows "get_by_id t i w' = (Inr (if i = entity_id r then Some r
     else find (\<lambda>r. entity_id r = i) (rows t (work w))), w')"
proof -
  note c = create_InrD [OF assms]
  have rows: "rows t (work w') = rows t (work w) @ [r]"
    by (simp add: c(2) rows_with_row)
  have "entity_id r \<notin> entity_id ` set (rows t (work w))"
    using keys_unique [OF c(3)] rows by simp
  then show ?thesis
    by (simp add: get_by_id_run rows find_snoc)
qed

end

interpretation warehouses_store: table_store warehouses_table
  by unfold_locales (simp_all add: warehouses_table_def constraint_defs ids_def)

interpretation products_store: table_store products_table
  by unfold_locales (simp_all add: products_table_def constraint_defs ids_def)

interpretation inventories_store: table_store inventories_table
  by unfold_locales (simp_all add: inventories_table_def constraint_defs ids_def)

interpretation movements_store: table_store movements_table
  by unfold_locales (simp_all add: movements_table_def constraint_defs ids_def)

interpretation alerts_store: table_store alerts_table
  by unfold_locales (simp_all add: alerts_table_def constraint_defs ids_def)

interpretation users_store: table_store users_table
  by unfold_locales (simp_all add: users_table_def constraint_defs ids_def)

lemma rows_tables [simp]:
  "rows warehouses_table = warehouses" "rows products_table = products"
  "rows inventories_table = inventories" "rows movements_table = movements"
  "rows alerts_table = alerts" "rows users_table = users"
  by (simp_all add: table_defs)

lemma with_row_tables [simp]:
  "with_row warehouses_table wa d = d\<lparr>warehouses := warehouses d @ [wa]\<rparr>"
  "with_row products_table pr d = d\<lparr>products := products d @ [pr]\<rparr>"
  "with_row inventories_table iv d = d\<lparr>inventories := inventories d @ [iv]\<rparr>"
  "with_row movements_table mv d = d\<lparr>movements := movements d @ [mv]\<rparr>"
  "with_row alerts_table al d = d\<lparr>alerts := alerts d @ [al]\<rparr>"
  by (simp_all add: with_row_def table_defs)

lemma with_changed_tables [simp]:
  "with_changed warehouses_table i gw d = d\<lparr>warehouses := update_by entity_id i gw (warehouses d)\<rparr>"
  "with_changed products_table i gp d = d\<lparr>products := update_by entity_id i gp (products d)\<rparr>"
  "with_changed inventories_table i gi d = d\<lparr>inventories := update_by entity_id i gi (inventories d)\<rparr>"
  "with_changed alerts_table i ga d = d\<lparr>alerts := update_by entity_id i ga (alerts d)\<rparr>"
  by (simp_all add: with_changed_def table_defs)

section \<open>The exceptions of the data-access layer\<close>

lemma raises_only_session [raises_rules]:
  "raises_only X (draw_uuid e)" "raises_only X (utc_now e)"
  "DatabaseError \<in> X \<Longrightarrow> raises_only X flush" "DatabaseError \<in> X \<Longrightarrow> raises_only X (commit e)"
  by (simp_all add: raises_only_def flush_run commit_run)

lemma raises_only_queries [raises_rules]:
  "DatabaseError \<in> X \<Longrightarrow> raises_only X (refresh t i)"
  "DatabaseError \<in> X \<Longrightarrow> raises_only X (select_page e skip limit g t')"
  "MultipleResultsFound \<in> X \<Longrightarrow> raises_only X (select_one p t')"
  "not_found (model_name t) i \<in> X \<Longrightarrow> raises_only X (get_by_id_or_raise t i)"
  by (simp_all add: raises_only_def refresh_def select_page_def paginate_def select_one_run
      scalar_one_or_none_def get_by_id_or_raise_run split: option.splits list.splits)

lemma raises_only_changes [raises_rules]:
  "raises_only X (add e t r)" "raises_only X (set_attributes t i f)"
  "DatabaseError \<in> X \<Longrightarrow> raises_only X (create e t r)"
  "DatabaseError \<in> X \<Longrightarrow> raises_only X (save e t i f)"
  "MultipleResultsFound \<in> X \<Longrightarrow> raises_only X (get_by_product_and_warehouse_for_update p wh)"
  unfolding add_def set_attributes_def create_def save_def
    get_by_product_and_warehouse_for_update_def get_by_product_and_warehouse_def
  by (assumption | rule raises_rules)+

end
