(* ===== verification/Schemas.thy ===== *)
theory Schemas
  imports Models
begin

text \<open>
  The request payloads of app/schemas with their validation. A payload here is what
  Pydantic has parsed to the declared types (UUIDs, enum members, integers, decimals,
  strings); the validation functions check the Field constraints and, for MovementCreate,
  run its model validator. An update payload keeps the difference Pydantic's
  \<open>exclude_unset\<close> rests on: a field can be unset, explicitly null, or a value.

  The read models are what the routes return. ProductRead and WarehouseRead inherit the
  Field constraints of their base classes, so \<open>model_validate\<close> can refuse a row: their
  constructors return an option, \<open>None\<close> for Pydantic's ValidationError.
\<close>

section \<open>Field constraints\<close>

definition str_field :: "nat \<Rightarrow> nat \<Rightarrow> string \<Rightarrow> bool" where
  "str_field lo hi s \<longleftrightarrow> lo \<le> length s \<and> length s \<le> hi"

datatype 'a patch = Unset | Null | Value 'a

definition patch_ok :: "('a \<Rightarrow> bool) \<Rightarrow> 'a patch \<Rightarrow> bool" where
  "patch_ok p x = (case x of Value a \<Rightarrow> p a | _ \<Rightarrow> True)"

text \<open>
  A Decimal is a coefficient and a number of decimal places. \<open>price_field\<close> is
  \<open>Field(gt=0, decimal_places=2)\<close> (trailing zeros do not count as places); \<open>cents\<close> is
  the number of hundredths such a price is.
\<close>

datatype decimal = Decimal (coefficient: int) (places: nat)

definition price_field :: "decimal \<Rightarrow> bool" where
  "price_field x \<longleftrightarrow> 0 < coefficient x \<and> 10 ^ (places x - 2) dvd coefficient x"

definition cents :: "decimal \<Rightarrow> int" where
  "cents x = (if places x \<le> 2 then coefficient x * 10 ^ (2 - places x)
     else coefficient x div 10 ^ (places x - 2))"

section \<open>Warehouses and products\<close>

record warehouse_create =
  wc_name :: string
  wc_code :: string
  wc_address :: "string option"

definition warehouse_create_ok :: "warehouse_create \<Rightarrow> bool" where
  "warehouse_create_ok x \<longleftrightarrow> str_field 1 255 (wc_name x) \<and> str_field 1 20 (wc_code x) \<and>
     opt_ok (str_field 0 500) (wc_address x)"

record warehouse_update =
  wu_name :: "string patch"
  wu_code :: "string patch"
  wu_address :: "string patch"
  wu_is_active :: "bool patch"

definition warehouse_update_ok :: "warehouse_update \<Rightarrow> bool" where
  "warehouse_update_ok x \<longleftrightarrow> patch_ok (str_field 1 255) (wu_name x) \<and>
     patch_ok (str_field 1 20) (wu_code x) \<and> patch_ok (str_field 0 500) (wu_address x)"

record product_create =
  pc_sku :: string
  pc_name :: string
  pc_description :: "string option"
  pc_price :: decimal

definition product_create_ok :: "product_create \<Rightarrow> bool" where
  "product_create_ok x \<longleftrightarrow> str_field 1 50 (pc_sku x) \<and> str_field 1 255 (pc_name x) \<and>
     opt_ok (str_field 0 2000) (pc_description x) \<and> price_field (pc_price x)"

record product_update =
  pu_sku :: "string patch"
  pu_name :: "string patch"
  pu_description :: "string patch"
  pu_price :: "decimal patch"
  pu_is_active :: "bool patch"

definition product_update_ok :: "product_update \<Rightarrow> bool" where
  "product_update_ok x \<longleftrightarrow> patch_ok (str_field 1 50) (pu_sku x) \<and>
     patch_ok (str_field 1 255) (pu_name x) \<and> patch_ok (str_field 0 2000) (pu_description x) \<and>
     patch_ok price_field (pu_price x)"

section \<open>Movements\<close>

record movement_create =
  mc_product_id :: uuid
  mc_movement_type :: movement_type
  mc_quantity :: int
  mc_source_warehouse_id :: "uuid option"
  mc_destination_warehouse_id :: "uuid option"
  mc_reason :: "string option"

definition movement_create_fields_ok :: "movement_create \<Rightarrow> bool" where
  "movement_create_fields_ok x \<longleftrightarrow> 0 < mc_quantity x \<and> opt_ok (str_field 0 500) (mc_reason x)"

text \<open>The model validator: a ValueError with its message, or the payload itself.\<close>

definition validate_warehouses_for_type :: "movement_create \<Rightarrow> string + movement_create" where
  "validate_warehouses_for_type x =
     (if mc_movement_type x = IN then
        if mc_destination_warehouse_id x = None
        then Inl ''destination_warehouse_id is required for IN movements.''
        else if mc_source_warehouse_id x \<noteq> None
        then Inl ''source_warehouse_id must not be set for IN movements.''
        else Inr x
      else if mc_movement_type x = OUT then
        if mc_source_warehouse_id x = None
        then Inl ''source_warehouse_id is required for OUT movements.''
        else if mc_destination_warehouse_id x \<noteq> None
        then Inl ''destination_warehouse_id must not be set for OUT movements.''
        else Inr x
      else if mc_movement_type x = TRANSFER then
        if mc_source_warehouse_id x = None \<or> mc_destination_warehouse_id x = None
        then Inl ''Both source_warehouse_id and destination_warehouse_id are required for TRANSFER movements.''
        else if mc_source_warehouse_id x = mc_destination_warehouse_id x
        then Inl ''source_warehouse_id and destination_warehouse_id must differ for TRANSFER movements.''
        else Inr x
      else Inr x)"

definition movement_create_ok :: "movement_create \<Rightarrow> bool" where
  "movement_create_ok x \<longleftrightarrow> movement_create_fields_ok x \<and> validate_warehouses_for_type x = Inr x"

text \<open>A valid payload is one of three shapes.\<close>

lemma movement_create_ok_cases:
  assumes "movement_create_ok x"
  obtains (IN) d where "mc_movement_type x = IN" "mc_source_warehouse_id x = None"
      "mc_destination_warehouse_id x = Some d" "0 < mc_quantity x"
  | (OUT) s where "mc_movement_type x = OUT" "mc_source_warehouse_id x = Some s"
      "mc_destination_warehouse_id x = None" "0 < mc_quantity x"
  | (TRANSFER) s d where "mc_movement_type x = TRANSFER" "mc_source_warehouse_id x = Some s"
      "mc_destination_warehouse_id x = Some d" "s \<noteq> d" "0 < mc_quantity x"
  using assms
  by (cases "mc_movement_type x")
     (auto simp: movement_create_ok_def movement_create_fields_ok_def
       validate_warehouses_for_type_def split: if_splits)

section \<open>Read models\<close>

record warehouse_read =
  wr_id :: uuid
  wr_name :: string
  wr_code :: string
  wr_address :: "string option"
  wr_is_active :: bool
  wr_created_at :: int
  wr_updated_at :: int

definition warehouse_fields_ok :: "warehouse \<Rightarrow> bool" where
  "warehouse_fields_ok r \<longleftrightarrow> str_field 1 255 (wh_name r) \<and> str_field 1 20 (wh_code r) \<and>
     opt_ok (str_field 0 500) (wh_address r)"

definition warehouse_read :: "warehouse \<Rightarrow> warehouse_read option" where
  "warehouse_read r = (if \<not> warehouse_fields_ok r then None
     else Some \<lparr>wr_id = entity_id r, wr_name = wh_name r, wr_code = wh_code r,
       wr_address = wh_address r, wr_is_active = wh_is_active r, wr_created_at = created_at r,
       wr_updated_at = updated_at r\<rparr>)"

record product_read =
  pr_id :: uuid
  pr_sku :: string
  pr_name :: string
  pr_description :: "string option"
  pr_price :: int
  pr_is_active :: bool
  pr_created_at :: int
  pr_updated_at :: int

text \<open>
  A price read back from Numeric(12, 2) is a number of hundredths, so its two decimal
  places are never too many; that it is positive is checked.
\<close>

definition product_fields_ok :: "product \<Rightarrow> bool" where
  "product_fields_ok r \<longleftrightarrow> str_field 1 50 (prod_sku r) \<and> str_field 1 255 (prod_name r) \<and>
     opt_ok (str_field 0 2000) (prod_description r) \<and> price_field (Decimal (prod_price r) 2)"

definition product_read :: "product \<Rightarrow> product_read option" where
  "product_read r = (if \<not> product_fields_ok r then None
     else Some \<lparr>pr_id = entity_id r, pr_sku = prod_sku r, pr_name = prod_name r,
       pr_description = prod_description r, pr_price = prod_price r, pr_is_active = prod_is_active r,
       pr_created_at = created_at r, pr_updated_at = updated_at r\<rparr>)"

text \<open>The rows of a database that the read models take.\<close>

definition rows_readable :: "db \<Rightarrow> bool" where
  "rows_readable d \<longleftrightarrow> (\<forall>r \<in> set (warehouses d). warehouse_fields_ok r) \<and>
     (\<forall>r \<in> set (products d). product_fields_ok r)"

lemma read_models_None [simp]:
  "warehouse_read r = None \<longleftrightarrow> \<not> warehouse_fields_ok r"
  "product_read p = None \<longleftrightarrow> \<not> product_fields_ok p"
  "(\<exists>v. warehouse_read r = Some v) \<longleftrightarrow> warehouse_fields_ok r"
  "(\<exists>v. product_read p = Some v) \<longleftrightarrow> product_fields_ok p"
  by (simp_all add: warehouse_read_def product_read_def)

lemma cents_positive: "price_field x \<Longrightarrow> price_field (Decimal (cents x) 2)"
proof -
  assume x: "price_field x"
  have "0 < coefficient x div 10 ^ (places x - 2)"
  proof -
    have "(10 :: int) ^ (places x - 2) \<le> coefficient x"
      using x by (auto simp: price_field_def intro: zdvd_imp_le)
    then show ?thesis by (simp add: pos_imp_zdiv_pos_iff)
  qed
  with x show ?thesis by (simp add: price_field_def cents_def)
qed

record inventory_read =
  ir_id :: uuid
  ir_product_id :: uuid
  ir_warehouse_id :: uuid
  ir_quantity :: int
  ir_low_stock_threshold :: "int option"
  ir_created_at :: int
  ir_updated_at :: int

definition inventory_read :: "inventory \<Rightarrow> inventory_read" where
  "inventory_read r = \<lparr>ir_id = entity_id r, ir_product_id = inv_product_id r,
     ir_warehouse_id = inv_warehouse_id r, ir_quantity = inv_quantity r,
     ir_low_stock_threshold = inv_low_stock_threshold r, ir_created_at = created_at r,
     ir_updated_at = updated_at r\<rparr>"

record movement_read =
  mr_id :: uuid
  mr_product_id :: uuid
  mr_movement_type :: movement_type
  mr_quantity :: int
  mr_source_warehouse_id :: "uuid option"
  mr_destination_warehouse_id :: "uuid option"
  mr_reason :: "string option"
  mr_performed_by :: "uuid option"
  mr_created_at :: int

definition movement_read :: "movement \<Rightarrow> movement_read" where
  "movement_read r = \<lparr>mr_id = entity_id r, mr_product_id = mov_product_id r,
     mr_movement_type = mov_type r, mr_quantity = mov_quantity r,
     mr_source_warehouse_id = mov_source_warehouse_id r,
     mr_destination_warehouse_id = mov_destination_warehouse_id r, mr_reason = mov_reason r,
     mr_performed_by = mov_performed_by r, mr_created_at = created_at r\<rparr>"

record alert_read =
  ar_id :: uuid
  ar_product_id :: uuid
  ar_warehouse_id :: uuid
  ar_alert_type :: alert_type
  ar_status :: alert_status
  ar_threshold :: int
  ar_quantity_at_trigger :: int
  ar_resolved_at :: "int option"
  ar_created_at :: int

definition alert_read :: "alert \<Rightarrow> alert_read" where
  "alert_read r = \<lparr>ar_id = entity_id r, ar_product_id = al_product_id r,
     ar_warehouse_id = al_warehouse_id r, ar_alert_type = al_alert_type r, ar_status = al_status r,
     ar_threshold = al_threshold r, ar_quantity_at_trigger = al_quantity_at_trigger r,
     ar_resolved_at = al_resolved_at r, ar_created_at = created_at r\<rparr>"

end
