(* ===== verification/Catalogue.thy ===== *)
theory Catalogue
  imports Repositories Schemas
begin

text \<open>
  Warehouses and products (app/services/warehouse.py, app/services/product.py): the two
  services have the same shape, a CRUD over a table with a unique natural key (\<open>code\<close>,
  \<open>sku\<close>) and a soft delete. Their definitions follow the code of each; the locale
  \<open>keyed_service\<close> states the contract they share and proves its consequences once.
\<close>

section \<open>WarehouseService\<close>

definition new_warehouse :: "warehouse_create \<Rightarrow> warehouse" where
  "new_warehouse x = \<lparr>entity_id = 0, created_at = 0, updated_at = 0, wh_name = wc_name x,
     wh_code = wc_code x, wh_address = wc_address x, wh_is_active = True\<rparr>"

definition warehouse_conflict :: "string \<Rightarrow> exc" where
  "warehouse_conflict code =
     App (ConflictError (''Warehouse with code '' @ quoted code @ '' already exists.''))"

definition create_warehouse :: "'x deps \<Rightarrow> warehouse_create \<Rightarrow> ('x, warehouse) service" where
  "create_warehouse e x = andthen (get_by_code (wc_code x)) (\<lambda>existing.
     case existing of Some _ \<Rightarrow> raise (warehouse_conflict (wc_code x))
     | None \<Rightarrow> andthen (create e warehouses_table (new_warehouse x)) (\<lambda>r.
         andthen (commit e) (\<lambda>_. ret r)))"

definition get_warehouse :: "uuid \<Rightarrow> ('x, warehouse) service" where
  "get_warehouse i = get_by_id_or_raise warehouses_table i"

definition list_warehouses :: "'x deps \<Rightarrow> int \<Rightarrow> int \<Rightarrow> bool \<Rightarrow> ('x, warehouse list) service" where
  "list_warehouses e skip limit active_only =
     (if active_only then list_active_warehouses e skip limit
      else list_all_rows e warehouses_table skip limit)"

text \<open>
  Assigning an update. A nullable column takes null; null in a NOT NULL column is refused
  when the UPDATE is flushed, which is \<open>None\<close> here.
\<close>

definition set_required :: "'a patch \<Rightarrow> 'a \<Rightarrow> 'a option" where
  "set_required p old = (case p of Unset \<Rightarrow> Some old | Null \<Rightarrow> None | Value a \<Rightarrow> Some a)"

definition set_nullable :: "'a patch \<Rightarrow> 'a option \<Rightarrow> 'a option" where
  "set_nullable p old = (case p of Unset \<Rightarrow> old | Null \<Rightarrow> None | Value a \<Rightarrow> Some a)"

definition apply_warehouse_update :: "warehouse_update \<Rightarrow> warehouse \<Rightarrow> warehouse option" where
  "apply_warehouse_update u r =
     (case (set_required (wu_name u) (wh_name r), set_required (wu_code u) (wh_code r),
            set_required (wu_is_active u) (wh_is_active r)) of
        (Some n, Some c, Some a) \<Rightarrow>
          Some (r\<lparr>wh_name := n, wh_code := c, wh_address := set_nullable (wu_address u) (wh_address r),
                  wh_is_active := a\<rparr>)
      | _ \<Rightarrow> None)"

definition update_warehouse :: "'x deps \<Rightarrow> uuid \<Rightarrow> warehouse_update \<Rightarrow> ('x, warehouse) service" where
  "update_warehouse e i u = andthen (get_by_id_or_raise warehouses_table i) (\<lambda>warehouse.
     andthen
       (case wu_code u of
          Value new_code \<Rightarrow>
            if new_code \<noteq> wh_code warehouse then
              andthen (get_by_code new_code) (\<lambda>existing.
                case existing of Some _ \<Rightarrow> raise (warehouse_conflict new_code) | None \<Rightarrow> ret ())
            else ret ()
        | _ \<Rightarrow> ret ())
       (\<lambda>_. case apply_warehouse_update u warehouse of
          None \<Rightarrow> raise DatabaseError
        | Some _ \<Rightarrow> save e warehouses_table i (\<lambda>r. case apply_warehouse_update u r of Some r' \<Rightarrow> r' | None \<Rightarrow> r)))"

definition deactivate_warehouse :: "'x deps \<Rightarrow> uuid \<Rightarrow> ('x, warehouse) service" where
  "deactivate_warehouse e i = andthen (get_by_id_or_raise warehouses_table i) (\<lambda>_.
     save e warehouses_table i (\<lambda>r. r\<lparr>wh_is_active := False\<rparr>))"

section \<open>ProductService\<close>

definition new_product :: "product_create \<Rightarrow> product" where
  "new_product x = \<lparr>entity_id = 0, created_at = 0, updated_at = 0, prod_sku = pc_sku x,
     prod_name = pc_name x, prod_description = pc_description x, prod_price = cents (pc_price x),
     prod_is_active = True\<rparr>"

definition product_conflict :: "string \<Rightarrow> exc" where
  "product_conflict sku =
     App (ConflictError (''Product with SKU '' @ quoted sku @ '' already exists.''))"

definition create_product :: "'x deps \<Rightarrow> product_create \<Rightarrow> ('x, product) service" where
  "create_product e x = andthen (get_by_sku (pc_sku x)) (\<lambda>existing.
     case existing of Some _ \<Rightarrow> raise (product_conflict (pc_sku x))
     | None \<Rightarrow> andthen (create e products_table (new_product x)) (\<lambda>r.
         andthen (commit e) (\<lambda>_. ret r)))"

definition get_product :: "uuid \<Rightarrow> ('x, product) service" where
  "get_product i = get_by_id_or_raise products_table i"

definition list_products :: "'x deps \<Rightarrow> int \<Rightarrow> int \<Rightarrow> bool \<Rightarrow> ('x, product list) service" where
  "list_products e skip limit active_only =
     (if active_only then list_active_products e skip limit
      else list_all_rows e products_table skip limit)"

definition search_products :: "'x deps \<Rightarrow> string \<Rightarrow> int \<Rightarrow> int \<Rightarrow> ('x, product list) service" where
  "search_products e query skip limit = search_by_name e query skip limit"

definition patch_cents :: "decimal patch \<Rightarrow> int patch" where
  "patch_cents p = (case p of Unset \<Rightarrow> Unset | Null \<Rightarrow> Null | Value d \<Rightarrow> Value (cents d))"

definition apply_product_update :: "product_update \<Rightarrow> product \<Rightarrow> product option" where
  "apply_product_update u r =
     (case (set_required (pu_sku u) (prod_sku r), set_required (pu_name u) (prod_name r),
            set_required (patch_cents (pu_price u)) (prod_price r),
            set_required (pu_is_active u) (prod_is_active r)) of
        (Some s, Some n, Some c, Some a) \<Rightarrow>
          Some (r\<lparr>prod_sku := s, prod_name := n,
                  prod_description := set_nullable (pu_description u) (prod_description r),
                  prod_price := c, prod_is_active := a\<rparr>)
      | _ \<Rightarrow> None)"

definition update_product :: "'x deps \<Rightarrow> uuid \<Rightarrow> product_update \<Rightarrow> ('x, product) service" where
  "update_product e i u = andthen (get_by_id_or_raise products_table i) (\<lambda>product.
     andthen
       (case pu_sku u of
          Value new_sku \<Rightarrow>
            if new_sku \<noteq> prod_sku product then
              andthen (get_by_sku new_sku) (\<lambda>existing.
                case existing of Some _ \<Rightarrow> raise (product_conflict new_sku) | None \<Rightarrow> ret ())
            else ret ()
        | _ \<Rightarrow> ret ())
       (\<lambda>_. case apply_product_update u product of
          None \<Rightarrow> raise DatabaseError
        | Some _ \<Rightarrow> save e products_table i (\<lambda>r. case apply_product_update u r of Some r' \<Rightarrow> r' | None \<Rightarrow> r)))"

definition deactivate_product :: "'x deps \<Rightarrow> uuid \<Rightarrow> ('x, product) service" where
  "deactivate_product e i = andthen (get_by_id_or_raise products_table i) (\<lambda>_.
     save e products_table i (\<lambda>r. r\<lparr>prod_is_active := False\<rparr>))"

section \<open>The contract both services meet\<close>

text \<open>
  \<open>build\<close> makes the unpersisted row from a creation payload, \<open>apply_update\<close> assigns an update
  payload, \<open>new_key\<close> is the natural key the payload sets, if any. The laws are the two
  services' code over these names; \<open>lookup d\<close> is the catalogue as a client sees it, a map
  from natural keys to rows.
\<close>

locale keyed_service = table_store t for t :: "('r base_model_scheme) table" +
  fixes key :: "'r base_model_scheme \<Rightarrow> string"
    and conflict :: "string \<Rightarrow> exc"
    and build :: "'c \<Rightarrow> 'r base_model_scheme"
    and new_key :: "'u \<Rightarrow> string option"
    and apply_update :: "'u \<Rightarrow> 'r base_model_scheme \<Rightarrow> 'r base_model_scheme option"
    and create_one :: "'x deps \<Rightarrow> 'c \<Rightarrow> ('x, 'r base_model_scheme) service"
    and update_one :: "'x deps \<Rightarrow> uuid \<Rightarrow> 'u \<Rightarrow> ('x, 'r base_model_scheme) service"
  assumes natural_key: "constraints d \<Longrightarrow> distinct (map key (rows t d))"
    and key_stamped: "key (stamped i now r) = key r"
    and key_updated_at: "key (r\<lparr>updated_at := now\<rparr>) = key r"
    and apply_id: "apply_update u r = Some r' \<Longrightarrow> entity_id r' = entity_id r"
    and apply_key: "apply_update u r = Some r' \<Longrightarrow>
          key r' = (case new_key u of None \<Rightarrow> key r | Some k \<Rightarrow> k)"
    and create_law: "create_one e c = andthen (select_one (\<lambda>r. key r = key (build c)) t) (\<lambda>existing.
          case existing of Some _ \<Rightarrow> raise (conflict (key (build c)))
          | None \<Rightarrow> andthen (create e t (build c)) (\<lambda>r. andthen (commit e) (\<lambda>_. ret r)))"
    and update_law: "update_one e i u = andthen (get_by_id_or_raise t i) (\<lambda>r. andthen
          (case new_key u of
             Some k \<Rightarrow> if k \<noteq> key r then andthen (select_one (\<lambda>r. key r = k) t)
                 (\<lambda>existing. case existing of Some _ \<Rightarrow> raise (conflict k) | None \<Rightarrow> ret ())
               else ret ()
           | None \<Rightarrow> ret ())
          (\<lambda>_. case apply_update u r of None \<Rightarrow> raise DatabaseError
            | Some _ \<Rightarrow> save e t i (\<lambda>r. case apply_update u r of Some r' \<Rightarrow> r' | None \<Rightarrow> r)))"
begin

definition lookup :: "db \<Rightarrow> string \<Rightarrow> 'r base_model_scheme option" where
  "lookup d k = find (\<lambda>r. key r = k) (rows t d)"

lemma lookup_Some: "constraints d \<Longrightarrow> lookup d k = Some r \<longleftrightarrow> r \<in> set (rows t d) \<and> key r = k"
  by (simp add: lookup_def find_Some_iff_distinct natural_key)

lemma lookup_None: "lookup d k = None \<longleftrightarrow> k \<notin> key ` set (rows t d)"
  by (simp add: lookup_def find_key_None)

lemma select_run: "constraints (work w) \<Longrightarrow>
    select_one (\<lambda>r. key r = k) t w = (Inr (lookup (work w) k), w)"
  by (simp add: select_unique_run natural_key lookup_def)

text \<open>A taken key is a conflict and changes nothing; a free one inserts and commits.\<close>

lemma create_conflict:
  "constraints (work w) \<Longrightarrow> lookup (work w) (key (build c)) = Some r \<Longrightarrow>
     create_one e c w = (Inl (conflict (key (build c))), w)"
  by (simp add: create_law andthen_def select_run)

lemma create_free:
  assumes "constraints (work w)" and "lookup (work w) (key (build c)) = None"
  shows "create_one e c w =
    (let r = stamped (uuid4 e (tick w)) (tx_time w) (build c);
         w' = w\<lparr>work := with_row t r (work w), tick := Suc (tick w)\<rparr>
     in if constraints (work w') then (Inr r, committed_world e w') else (Inl DatabaseError, w'))"
  using assms
  by (simp add: create_law andthen_def select_run create_run commit_run Let_def)

lemma create_InrE:
  assumes run: "create_one e c w = (Inr r, w')" and ok: "constraints (work w)"
  obtains "lookup (work w) (key (build c)) = None"
    and "r = stamped (uuid4 e (tick w)) (tx_time w) (build c)"
    and "work w' = with_row t r (work w)" and "committed w' = work w'"
    and "constraints (work w')" and "outside w' = outside w"
proof (cases "lookup (work w) (key (build c))")
  case None
  let ?r = "stamped (uuid4 e (tick w)) (tx_time w) (build c)"
  let ?w = "w\<lparr>work := with_row t ?r (work w), tick := Suc (tick w)\<rparr>"
  from run have *: "constraints (work ?w)" "r = ?r" "w' = committed_world e ?w"
    using create_free [OF ok None] by (auto simp: Let_def split: if_splits)
  show ?thesis
  proof (rule that [OF None *(2)])
    show "work w' = with_row t r (work w)" unfolding *(2,3) by simp
    show "committed w' = work w'" unfolding *(3) by simp
    show "constraints (work w')" unfolding *(3) using *(1) by simp
    show "outside w' = outside w" unfolding *(3) by simp
  qed
next
  case (Some r')
  from run create_conflict [OF ok Some, of e] show ?thesis by simp
qed

text \<open>The catalogue after a creation: the old one with the new row at its key.\<close>

lemma create_refines:
  assumes run: "create_one e c w = (Inr r, w')" and ok: "constraints (work w)"
  shows "lookup (committed w') = (lookup (work w))(key (build c) \<mapsto> r)"
proof -
  obtain none: "lookup (work w) (key (build c)) = None"
    and r: "r = stamped (uuid4 e (tick w)) (tx_time w) (build c)"
    and w': "work w' = with_row t r (work w)" "committed w' = work w'"
    by (rule create_InrE [OF run ok]) (rule that)
  have k: "key r = key (build c)" by (simp add: r key_stamped)
  show ?thesis
  proof
    fix j
    have "key r \<notin> key ` set (rows t (work w))" using none k by (simp add: lookup_None)
    then show "lookup (committed w') j = ((lookup (work w))(key (build c) \<mapsto> r)) j"
      using k by (simp add: w' lookup_def rows_with_row find_snoc)
  qed
qed

lemma update_missing:
  "find (\<lambda>r. entity_id r = i) (rows t (work w)) = None \<Longrightarrow>
     update_one e i u w = (Inl (not_found (model_name t) i), w)"
  by (simp add: update_law andthen_def get_by_id_or_raise_run)

lemma update_conflict:
  assumes "constraints (work w)" and "find (\<lambda>r. entity_id r = i) (rows t (work w)) = Some r"
    and "new_key u = Some k" and "k \<noteq> key r" and "lookup (work w) k = Some r'"
  shows "update_one e i u w = (Inl (conflict k), w)"
  using assms by (simp add: update_law andthen_def get_by_id_or_raise_run select_run)

text \<open>Explicit null for a required column reaches the database, which refuses it.\<close>

lemma update_null:
  assumes "constraints (work w)" and "find (\<lambda>r. entity_id r = i) (rows t (work w)) = Some r"
    and "new_key u = None" and "apply_update u r = None"
  shows "update_one e i u w = (Inl DatabaseError, w)"
  using assms by (simp add: update_law andthen_def get_by_id_or_raise_run)

definition updated :: "int \<Rightarrow> 'u \<Rightarrow> 'r base_model_scheme \<Rightarrow> 'r base_model_scheme" where
  "updated now u = touch now (\<lambda>r. case apply_update u r of Some r' \<Rightarrow> r' | None \<Rightarrow> r)"

lemma updated_id: "entity_id (updated now u r) = entity_id r"
  by (auto simp: updated_def touch_def Let_def dest: apply_id split: option.splits)

lemma updated_key:
  "apply_update u r = Some r' \<Longrightarrow> key (updated now u r) = (case new_key u of None \<Rightarrow> key r | Some k \<Rightarrow> k)"
  by (auto simp: updated_def touch_def Let_def key_updated_at dest: apply_key split: option.splits)

lemma update_free:
  assumes ok: "constraints (work w)"
    and find: "find (\<lambda>r. entity_id r = i) (rows t (work w)) = Some r"
    and app: "apply_update u r = Some r'"
    and free: "\<And>k. new_key u = Some k \<Longrightarrow> k \<noteq> key r \<Longrightarrow> lookup (work w) k = None"
  shows "update_one e i u w =
    (let d = with_changed t i (updated (tx_time w) u) (work w)
     in if constraints d then (Inr (updated (tx_time w) u r), committed_world e (w\<lparr>work := d\<rparr>))
        else (Inl DatabaseError, w\<lparr>work := d\<rparr>))"
proof -
  let ?f = "\<lambda>r. case apply_update u r of Some r' \<Rightarrow> r' | None \<Rightarrow> r"
  from find have r: "r \<in> set (rows t (work w))" "entity_id r = i" by (auto dest: find_SomeD)
  have id: "entity_id (?f r) = entity_id r" using apply_id app by simp
  have "(case new_key u of
      Some k \<Rightarrow> if k \<noteq> key r then andthen (select_one (\<lambda>r. key r = k) t)
          (\<lambda>existing. case existing of Some _ \<Rightarrow> raise (conflict k) | None \<Rightarrow> ret ())
        else ret ()
    | None \<Rightarrow> ret ()) w = (Inr (), w)"
    using free ok by (simp add: andthen_def select_run split: option.splits)
  then have "update_one e i u w = save e t i ?f w"
    using find app by (simp add: update_law andthen_def get_by_id_or_raise_run)
  also have "\<dots> = save e t (entity_id r) ?f w" by (simp add: r(2))
  also note save_run [where f = ?f, OF r(1) ok id]
  finally show ?thesis by (simp add: r(2) updated_def Let_def)
qed

end

lemma wh_code_base [simp]:
  "wh_code (stamped i now r) = wh_code r" "wh_code (r\<lparr>updated_at := now\<rparr>) = wh_code r"
  by (simp_all add: stamped_def)

lemma prod_sku_base [simp]:
  "prod_sku (stamped i now r) = prod_sku r" "prod_sku (r\<lparr>updated_at := now\<rparr>) = prod_sku r"
  by (simp_all add: stamped_def)

lemma wh_code_new: "wh_code (new_warehouse c) = wc_code c"
  by (simp add: new_warehouse_def)

lemma prod_sku_new: "prod_sku (new_product c) = pc_sku c"
  by (simp add: new_product_def)

definition patch_value :: "'a patch \<Rightarrow> 'a option" where
  "patch_value p = (case p of Value a \<Rightarrow> Some a | _ \<Rightarrow> None)"

lemma apply_warehouse_update_base:
  assumes "apply_warehouse_update u r = Some r'"
  shows "entity_id r' = entity_id r"
    and "wh_code r' = (case patch_value (wu_code u) of None \<Rightarrow> wh_code r | Some c \<Rightarrow> c)"
  using assms
  by (auto simp: apply_warehouse_update_def set_required_def patch_value_def
      split: option.splits patch.splits)

lemma apply_product_update_base:
  assumes "apply_product_update u r = Some r'"
  shows "entity_id r' = entity_id r"
    and "prod_sku r' = (case patch_value (pu_sku u) of None \<Rightarrow> prod_sku r | Some c \<Rightarrow> c)"
  using assms
  by (auto simp: apply_product_update_def set_required_def patch_value_def
      split: option.splits patch.splits)

interpretation warehouse_service: keyed_service warehouses_table wh_code warehouse_conflict
  new_warehouse "\<lambda>u. patch_value (wu_code u)" apply_warehouse_update create_warehouse update_warehouse
proof unfold_locales
  show "constraints d \<Longrightarrow> distinct (map wh_code (rows warehouses_table d))" for d
    by (simp add: constraint_defs)
  show "update_warehouse e i u = andthen (get_by_id_or_raise warehouses_table i) (\<lambda>r. andthen
      (case patch_value (wu_code u) of
         Some k \<Rightarrow> if k \<noteq> wh_code r then andthen (select_one (\<lambda>r. wh_code r = k) warehouses_table)
             (\<lambda>existing. case existing of Some _ \<Rightarrow> raise (warehouse_conflict k) | None \<Rightarrow> ret ())
           else ret ()
       | None \<Rightarrow> ret ())
      (\<lambda>_. case apply_warehouse_update u r of None \<Rightarrow> raise DatabaseError
        | Some _ \<Rightarrow> save e warehouses_table i
            (\<lambda>r. case apply_warehouse_update u r of Some r' \<Rightarrow> r' | None \<Rightarrow> r)))" for e :: "'x deps" and i u
    unfolding update_warehouse_def get_by_code_def by (cases "wu_code u") (simp_all add: patch_value_def)
  show "create_warehouse e c = andthen (select_one (\<lambda>r. wh_code r = wh_code (new_warehouse c)) warehouses_table)
      (\<lambda>existing. case existing of Some _ \<Rightarrow> raise (warehouse_conflict (wh_code (new_warehouse c)))
        | None \<Rightarrow> andthen (create e warehouses_table (new_warehouse c))
            (\<lambda>r. andthen (commit e) (\<lambda>_. ret r)))" for e :: "'x deps" and c
    unfolding create_warehouse_def get_by_code_def wh_code_new ..
qed (simp_all add: apply_warehouse_update_base)

interpretation product_service: keyed_service products_table prod_sku product_conflict
  new_product "\<lambda>u. patch_value (pu_sku u)" apply_product_update create_product update_product
proof unfold_locales
  show "constraints d \<Longrightarrow> distinct (map prod_sku (rows products_table d))" for d
    by (simp add: constraint_defs)
  show "update_product e i u = andthen (get_by_id_or_raise products_table i) (\<lambda>r. andthen
      (case patch_value (pu_sku u) of
         Some k \<Rightarrow> if k \<noteq> prod_sku r then andthen (select_one (\<lambda>r. prod_sku r = k) products_table)
             (\<lambda>existing. case existing of Some _ \<Rightarrow> raise (product_conflict k) | None \<Rightarrow> ret ())
           else ret ()
       | None \<Rightarrow> ret ())
      (\<lambda>_. case apply_product_update u r of None \<Rightarrow> raise DatabaseError
        | Some _ \<Rightarrow> save e products_table i
            (\<lambda>r. case apply_product_update u r of Some r' \<Rightarrow> r' | None \<Rightarrow> r)))" for e :: "'x deps" and i u
    unfolding update_product_def get_by_sku_def by (cases "pu_sku u") (simp_all add: patch_value_def)
  show "create_product e c = andthen (select_one (\<lambda>r. prod_sku r = prod_sku (new_product c)) products_table)
      (\<lambda>existing. case existing of Some _ \<Rightarrow> raise (product_conflict (prod_sku (new_product c)))
        | None \<Rightarrow> andthen (create e products_table (new_product c))
            (\<lambda>r. andthen (commit e) (\<lambda>_. ret r)))" for e :: "'x deps" and c
    unfolding create_product_def get_by_sku_def prod_sku_new ..
qed (simp_all add: apply_product_update_base)

section \<open>What validated payloads leave can be read back\<close>

text \<open>
  \<open>accepts_create\<close> and \<open>accepts_update\<close> are the payload validation, \<open>readable\<close> the field
  constraints the read model puts on a row. A row built from an accepted payload is
  readable, and an accepted update keeps it so.
\<close>

locale validated_service = keyed_service t key conflict build new_key apply_update create_one update_one
  for t :: "('r base_model_scheme) table"
    and key :: "'r base_model_scheme \<Rightarrow> string"
    and conflict :: "string \<Rightarrow> exc"
    and build :: "'c \<Rightarrow> 'r base_model_scheme"
    and new_key :: "'u \<Rightarrow> string option"
    and apply_update :: "'u \<Rightarrow> 'r base_model_scheme \<Rightarrow> 'r base_model_scheme option"
    and create_one :: "'x deps \<Rightarrow> 'c \<Rightarrow> ('x, 'r base_model_scheme) service"
    and update_one :: "'x deps \<Rightarrow> uuid \<Rightarrow> 'u \<Rightarrow> ('x, 'r base_model_scheme) service" +
  fixes readable :: "'r base_model_scheme \<Rightarrow> bool"
    and accepts_create :: "'c \<Rightarrow> bool"
    and accepts_update :: "'u \<Rightarrow> bool"
  assumes built_readable: "accepts_create c \<Longrightarrow> readable (stamped i now (build c))"
    and applied_readable: "accepts_update u \<Longrightarrow> readable r \<Longrightarrow> apply_update u r = Some r' \<Longrightarrow> readable r'"
    and readable_updated_at: "readable (r\<lparr>updated_at := now\<rparr>) = readable r"
begin

lemma touched_readable: "(readable r \<Longrightarrow> readable (f r)) \<Longrightarrow> readable r \<Longrightarrow> readable (touch now f r)"
  by (simp add: touch_def Let_def readable_updated_at)

lemma assigned_readable:
  "accepts_update u \<Longrightarrow> readable r \<Longrightarrow>
     readable (case apply_update u r of Some r' \<Rightarrow> r' | None \<Rightarrow> r)"
  by (auto dest: applied_readable split: option.splits)

lemma create_returns_readable:
  "create_one e c w = (Inr r, w') \<Longrightarrow> constraints (work w) \<Longrightarrow> accepts_create c \<Longrightarrow> readable r"
  by (erule create_InrE) (simp_all add: built_readable)

text \<open>What a save returns is the row it found, assigned.\<close>

lemma save_returns_readable:
  assumes run: "save e t i f w = (Inr r', w')" and all: "\<forall>r \<in> set (rows t (work w)). readable r"
    and keep: "\<And>r. readable r \<Longrightarrow> readable (f r)"
  shows "readable r'"
proof -
  have "r' \<in> set (update_by entity_id i (touch (tx_time w) f) (rows t (work w)))"
    using run by (auto simp: save_def set_attributes_def put_all_def andthen_def commit_run refresh_def rows_put
        split: if_splits option.splits dest: find_SomeD)
  with all keep show ?thesis by (auto simp: update_by_def touched_readable split: if_splits)
qed

lemma update_returns_readable:
  assumes run: "update_one e i u w = (Inr r', w')" and ok: "accepts_update u" "constraints (work w)"
    and all: "\<forall>r \<in> set (rows t (work w)). readable r"
  shows "readable r'"
proof -
  obtain r w1 where 1: "get_by_id_or_raise t i w = (Inr r, w1)"
    using run unfolding update_law by (auto elim: andthen_InrE)
  then have w1: "w1 = w" by (auto simp: get_by_id_or_raise_run split: option.splits)
  obtain a w2 where check: "(case new_key u of
      Some k \<Rightarrow> if k \<noteq> key r then andthen (select_one (\<lambda>r. key r = k) t)
          (\<lambda>existing. case existing of Some _ \<Rightarrow> raise (conflict k) | None \<Rightarrow> ret ())
        else ret ()
    | None \<Rightarrow> ret ()) w = (Inr a, w2)"
    and 2: "(case apply_update u r of None \<Rightarrow> raise DatabaseError
      | Some _ \<Rightarrow> save e t i (\<lambda>r. case apply_update u r of Some r' \<Rightarrow> r' | None \<Rightarrow> r)) w2 = (Inr r', w')"
    using run 1 unfolding update_law w1 by (auto elim: andthen_InrE)
  have "w2 = w" using check ok(2) by (auto simp: andthen_def select_run split: option.splits if_splits)
  with 2 all show ?thesis
    by (auto split: option.splits intro: save_returns_readable assigned_readable [OF ok(1)])
qed

end

lemma set_required_ok:
  "set_required p old = Some a \<Longrightarrow> patch_ok P p \<Longrightarrow> P old \<Longrightarrow> P a"
  by (auto simp: set_required_def patch_ok_def split: patch.splits)

lemma set_nullable_ok: "patch_ok P p \<Longrightarrow> opt_ok P old \<Longrightarrow> opt_ok P (set_nullable p old)"
  by (auto simp: set_nullable_def patch_ok_def split: patch.splits)

lemma fields_ok_base [simp]:
  "warehouse_fields_ok (stamped i now r) = warehouse_fields_ok r"
  "warehouse_fields_ok (r\<lparr>updated_at := now\<rparr>) = warehouse_fields_ok r"
  "product_fields_ok (stamped i now p) = product_fields_ok p"
  "product_fields_ok (p\<lparr>updated_at := now\<rparr>) = product_fields_ok p"
  by (simp_all add: warehouse_fields_ok_def product_fields_ok_def stamped_def)

lemma warehouse_update_readable:
  assumes "warehouse_update_ok u" and "warehouse_fields_ok r" and "apply_warehouse_update u r = Some r'"
  shows "warehouse_fields_ok r'"
  using assms
  by (auto simp: apply_warehouse_update_def warehouse_update_ok_def warehouse_fields_ok_def
      intro: set_nullable_ok dest: set_required_ok split: option.splits)

lemma patch_cents_ok: "patch_ok price_field p \<Longrightarrow> patch_ok (\<lambda>c. price_field (Decimal c 2)) (patch_cents p)"
  by (cases p) (simp_all add: patch_ok_def patch_cents_def cents_positive)

lemma product_update_readable:
  assumes "product_update_ok u" and "product_fields_ok r" and "apply_product_update u r = Some r'"
  shows "product_fields_ok r'"
  using assms
  by (auto simp: apply_product_update_def product_update_ok_def product_fields_ok_def
      intro: set_nullable_ok dest: set_required_ok set_required_ok [OF _ patch_cents_ok] split: option.splits)

interpretation warehouse_rows: validated_service warehouses_table wh_code warehouse_conflict
  new_warehouse "\<lambda>u. patch_value (wu_code u)" apply_warehouse_update create_warehouse update_warehouse
  warehouse_fields_ok warehouse_create_ok warehouse_update_ok
proof unfold_locales
  show "warehouse_create_ok c \<Longrightarrow> warehouse_fields_ok (stamped i now (new_warehouse c))" for c i now
    by (simp add: warehouse_create_ok_def) (simp add: warehouse_fields_ok_def new_warehouse_def)
qed (simp_all add: warehouse_update_readable)

interpretation product_rows: validated_service products_table prod_sku product_conflict
  new_product "\<lambda>u. patch_value (pu_sku u)" apply_product_update create_product update_product
  product_fields_ok product_create_ok product_update_ok
proof unfold_locales
  show "product_create_ok c \<Longrightarrow> product_fields_ok (stamped i now (new_product c))" for c i now
    by (simp add: product_create_ok_def) (simp add: product_fields_ok_def new_product_def cents_positive)
qed (simp_all add: product_update_readable)

section \<open>Valid payloads are stored\<close>

text \<open>Text a PostgreSQL column accepts; the schemas do not exclude the NUL character.\<close>

definition no_nul :: "string \<Rightarrow> bool" where
  "no_nul s \<longleftrightarrow> CHR 0x00 \<notin> set s"

lemma varchar_str_field: "str_field lo hi s \<Longrightarrow> no_nul s \<Longrightarrow> varchar hi s"
  by (simp add: str_field_def varchar_def no_nul_def)

lemma constraints_insert_warehouse:
  assumes ok: "constraints d" and x: "warehouse_create_ok x" and i: "i \<notin> set (ids (warehouses d))"
    and c: "wc_code x \<notin> wh_code ` set (warehouses d)"
    and nul: "no_nul (wc_name x)" "no_nul (wc_code x)" "opt_ok no_nul (wc_address x)"
  shows "constraints (d\<lparr>warehouses := warehouses d @ [stamped i now (new_warehouse x)]\<rparr>)"
proof -
  let ?r = "stamped i now (new_warehouse x)"
  let ?d = "d\<lparr>warehouses := warehouses d @ [?r]\<rparr>"
  have r: "wh_code ?r = wc_code x" "wh_name ?r = wc_name x" "wh_address ?r = wc_address x"
    by (simp_all add: stamped_def new_warehouse_def)
  have "varchar 20 (wc_code x)" "varchar 255 (wc_name x)" "opt_ok (varchar 500) (wc_address x)"
    using x nul varchar_str_field by (auto simp: warehouse_create_ok_def opt_ok_def split: option.splits)
  then have "warehouses_ok ?d"
    using ok i c by (simp add: constraint_defs r wh_code_new)
  moreover have "opt_ok (\<lambda>i. i \<in> set (ids (warehouses ?d))) v"
    if "opt_ok (\<lambda>i. i \<in> set (ids (warehouses d))) v" for v
    using that by (cases v) simp_all
  ultimately show ?thesis
    using ok by (simp add: constraint_defs)
qed

lemma constraints_insert_product:
  assumes ok: "constraints d" and x: "product_create_ok x" and i: "i \<notin> set (ids (products d))"
    and c: "pc_sku x \<notin> prod_sku ` set (products d)" and price: "cents (pc_price x) < 10 ^ 12"
    and nul: "no_nul (pc_sku x)" "no_nul (pc_name x)" "opt_ok no_nul (pc_description x)"
  shows "constraints (d\<lparr>products := products d @ [stamped i now (new_product x)]\<rparr>)"
proof -
  let ?r = "stamped i now (new_product x)"
  let ?d = "d\<lparr>products := products d @ [?r]\<rparr>"
  have r: "prod_sku ?r = pc_sku x" "prod_name ?r = pc_name x" "prod_description ?r = pc_description x"
    "prod_price ?r = cents (pc_price x)"
    by (simp_all add: stamped_def new_product_def)
  have "varchar 50 (pc_sku x)" "varchar 255 (pc_name x)" "opt_ok (varchar 2000) (pc_description x)"
    using x nul varchar_str_field by (auto simp: product_create_ok_def opt_ok_def split: option.splits)
  moreover have "0 \<le> cents (pc_price x)"
    using x by (auto simp: product_create_ok_def price_field_def cents_def intro: pos_imp_zdiv_nonneg_iff [THEN iffD2])
  ultimately have "products_ok ?d"
    using ok i c price by (simp add: constraint_defs r prod_sku_new numeric_12_2_def)
  then show ?thesis
    using ok by (simp add: constraint_defs)
qed

end
