(* ===== verification/AlertService.thy ===== *)
theory AlertService
  imports Repositories
begin

text \<open>
  AlertService (app/services/alert.py): reconciling the alert of a product/warehouse pair
  with its stock level, and resolving an alert by hand. The lemmas give the service's run on
  every branch, and a specification of it: which alert, if any, is active for the pair
  afterwards, and that nothing else changes.
\<close>

section \<open>Definitions\<close>

definition new_event :: "'x deps \<Rightarrow> event_body \<Rightarrow> ('x, domain_event) service" where
  "new_event e b = andthen (draw_uuid e) (\<lambda>i. andthen (utc_now e) (\<lambda>now.
     ret \<lparr>event_id = i, occurred_at = now, body = b\<rparr>))"

definition publish :: "'x deps \<Rightarrow> domain_event \<Rightarrow> ('x, unit) service" where
  "publish e ev = modifies (\<lambda>w. w\<lparr>outside := event_publish e ev (outside w)\<rparr>)"

definition alert_body :: "alert \<Rightarrow> event_body" where
  "alert_body a =
     (if al_alert_type a = OUT_OF_STOCK
      then OutOfStockDetectedEvent (al_product_id a) (al_warehouse_id a)
      else LowStockDetectedEvent (al_product_id a) (al_warehouse_id a) (al_quantity_at_trigger a)
             (al_threshold a))"

text \<open>The broker may refuse the task; the failure is logged and swallowed.\<close>

definition enqueue_notification :: "'x deps \<Rightarrow> alert \<Rightarrow> ('x, unit) service" where
  "enqueue_notification e a = (\<lambda>w.
     case task_delay e (uuid_str (entity_id a)) (outside w) of (ok, x) \<Rightarrow> (Inr (), w\<lparr>outside := x\<rparr>))"

definition react_to_alert :: "'x deps \<Rightarrow> alert \<Rightarrow> ('x, unit) service" where
  "react_to_alert e a = andthen (new_event e (alert_body a)) (\<lambda>ev.
     andthen (publish e ev) (\<lambda>_. enqueue_notification e a))"

definition resolve :: "'x deps \<Rightarrow> alert \<Rightarrow> ('x, alert) service" where
  "resolve e a = andthen (utc_now e) (\<lambda>now.
     save e alerts_table (entity_id a) (\<lambda>r. r\<lparr>al_status := RESOLVED, al_resolved_at := Some now\<rparr>))"

definition applicable_threshold :: "'x deps \<Rightarrow> inventory \<Rightarrow> int" where
  "applicable_threshold e iv = (case inv_low_stock_threshold iv of
     Some t \<Rightarrow> t | None \<Rightarrow> low_stock_alert_threshold_default e)"

definition new_alert :: "inventory \<Rightarrow> alert_type \<Rightarrow> int \<Rightarrow> alert" where
  "new_alert iv k t = \<lparr>entity_id = 0, created_at = 0, updated_at = 0,
     al_product_id = inv_product_id iv, al_warehouse_id = inv_warehouse_id iv, al_alert_type = k,
     al_status = ACTIVE, al_threshold = t, al_quantity_at_trigger = inv_quantity iv,
     al_resolved_at = None\<rparr>"

definition evaluate_stock_level :: "'x deps \<Rightarrow> inventory \<Rightarrow> ('x, alert option) service" where
  "evaluate_stock_level e iv =
     (let threshold = applicable_threshold e iv in
      andthen (get_active_by_product_and_warehouse (inv_product_id iv) (inv_warehouse_id iv)) (\<lambda>existing.
        if inv_quantity iv > threshold then
          (case existing of
             Some a \<Rightarrow> andthen (resolve e a) (\<lambda>_. ret None)
           | None \<Rightarrow> ret None)
        else
          (let alert_type = (if inv_quantity iv = 0 then OUT_OF_STOCK else LOW_STOCK) in
           case existing of
             Some a \<Rightarrow>
               if al_alert_type a \<noteq> alert_type then
                 andthen (save e alerts_table (entity_id a)
                   (\<lambda>r. r\<lparr>al_alert_type := alert_type, al_quantity_at_trigger := inv_quantity iv\<rparr>)) (\<lambda>a'.
                 andthen (react_to_alert e a') (\<lambda>_. ret (Some a')))
               else ret (Some a)
           | None \<Rightarrow>
               andthen (create e alerts_table (new_alert iv alert_type threshold)) (\<lambda>a.
               andthen (commit e) (\<lambda>_.
               andthen (react_to_alert e a) (\<lambda>_. ret (Some a)))))))"

definition already_resolved :: "uuid \<Rightarrow> exc" where
  "already_resolved i =
     App (ConflictError (''Alert '' @ quoted (uuid_str i) @ '' is already resolved.''))"

definition resolve_alert :: "'x deps \<Rightarrow> uuid \<Rightarrow> ('x, alert) service" where
  "resolve_alert e i = andthen (get_by_id_or_raise alerts_table i) (\<lambda>a.
     if al_status a = RESOLVED then raise (already_resolved i) else resolve e a)"

definition list_active_alerts :: "'x deps \<Rightarrow> int \<Rightarrow> int \<Rightarrow> ('x, alert list) service" where
  "list_active_alerts e skip limit = list_active_alert_rows e skip limit"

section \<open>Runs\<close>

definition notified :: "'x deps \<Rightarrow> alert \<Rightarrow> 'x world \<Rightarrow> 'x world" where
  "notified e a w = w\<lparr>tick := Suc (Suc (tick w)),
     outside := snd (task_delay e (uuid_str (entity_id a))
       (event_publish e \<lparr>event_id = uuid4 e (tick w), occurred_at = clock e (Suc (tick w)),
          body = alert_body a\<rparr> (outside w)))\<rparr>"

lemma notified_simps [simp]:
  "committed (notified e a w) = committed w" "work (notified e a w) = work w"
  "row_locks (notified e a w) = row_locks w" "tick (notified e a w) = Suc (Suc (tick w))"
  "tx_time (notified e a w) = tx_time w"
  by (simp_all add: notified_def)

lemma new_event_run: "new_event e b w =
    (Inr \<lparr>event_id = uuid4 e (tick w), occurred_at = clock e (Suc (tick w)), body = b\<rparr>,
     w\<lparr>tick := Suc (Suc (tick w))\<rparr>)"
  by (simp add: new_event_def)

lemma react_to_alert_run [prog_simps]: "react_to_alert e a w = (Inr (), notified e a w)"
  by (simp add: react_to_alert_def andthen_def new_event_run publish_def enqueue_notification_def
      notified_def split: prod.splits)

text \<open>The alerts active for a pair, and what the specification wants them to be.\<close>

definition active_alerts :: "db \<Rightarrow> uuid \<Rightarrow> uuid \<Rightarrow> alert list" where
  "active_alerts d p wh = filter (active_for p wh) (alerts d)"

definition wanted_alert :: "int \<Rightarrow> int \<Rightarrow> alert_type option" where
  "wanted_alert quantity threshold =
     (if quantity > threshold then None else if quantity = 0 then Some OUT_OF_STOCK else Some LOW_STOCK)"

lemma get_active_run [prog_simps]:
  "get_active_by_product_and_warehouse p wh w =
     (scalar_one_or_none (active_alerts (work w) p wh), w)"
  by (simp add: get_active_by_product_and_warehouse_def select_one_run active_alerts_def)

lemma constraints_alerts:
  assumes "constraints d" and "alerts_ok (d\<lparr>alerts := as\<rparr>)"
  shows "constraints (d\<lparr>alerts := as\<rparr>)"
  using assms by (simp add: constraint_defs)

lemma ids_update_by [simp]:
  "(\<And>r. entity_id (f r) = entity_id r) \<Longrightarrow> ids (update_by entity_id i f rs) = ids rs"
  by (simp add: ids_def map_update_by)

lemma set_update_by_cases:
  "x \<in> set (update_by key k f xs) \<Longrightarrow> x \<in> set xs \<or> (\<exists>y \<in> set xs. key y = k \<and> x = f y)"
  by (auto simp: update_by_def)

text \<open>Changing an alert's state, but not what it refers to, keeps the constraints.\<close>

lemma constraints_alert_change:
  assumes ok: "constraints d"
    and id: "\<And>r. entity_id (g r) = entity_id r"
    and same: "\<And>r. al_product_id (g r) = al_product_id r \<and> al_warehouse_id (g r) = al_warehouse_id r \<and>
          al_threshold (g r) = al_threshold r"
    and q: "\<And>r. r \<in> set (alerts d) \<Longrightarrow> int4 (al_quantity_at_trigger (g r))"
  shows "constraints (with_changed alerts_table i g d)"
  unfolding with_changed_tables
proof (rule constraints_alerts [OF ok])
  have "alerts_ok d" using ok by (simp add: constraints_def)
  then show "alerts_ok (d\<lparr>alerts := update_by entity_id i g (alerts d)\<rparr>)"
    using id same q by (auto simp: alerts_ok_def dest!: set_update_by_cases)
qed

lemma touch_sel [simp]:
  "al_product_id (touch now f r) = al_product_id (f r)"
  "al_warehouse_id (touch now f r) = al_warehouse_id (f r)"
  "al_threshold (touch now f r) = al_threshold (f r)"
  "al_status (touch now f r) = al_status (f r)"
  "al_alert_type (touch now f r) = al_alert_type (f r)"
  "al_quantity_at_trigger (touch now f r) = al_quantity_at_trigger (f r)"
  "al_resolved_at (touch now f r) = al_resolved_at (f r)"
  by (simp_all add: touch_def Let_def)

definition resolving :: "int \<Rightarrow> int \<Rightarrow> alert \<Rightarrow> alert" where
  "resolving now at = touch now (\<lambda>r. r\<lparr>al_status := RESOLVED, al_resolved_at := Some at\<rparr>)"

definition retyping :: "int \<Rightarrow> alert_type \<Rightarrow> int \<Rightarrow> alert \<Rightarrow> alert" where
  "retyping now k q = touch now (\<lambda>r. r\<lparr>al_alert_type := k, al_quantity_at_trigger := q\<rparr>)"

lemma resolving_sel [simp]:
  "entity_id (resolving now at a) = entity_id a" "al_status (resolving now at a) = RESOLVED"
  "al_product_id (resolving now at a) = al_product_id a"
  "al_warehouse_id (resolving now at a) = al_warehouse_id a"
  "al_threshold (resolving now at a) = al_threshold a"
  "al_alert_type (resolving now at a) = al_alert_type a"
  "al_quantity_at_trigger (resolving now at a) = al_quantity_at_trigger a"
  "al_resolved_at (resolving now at a) = Some at"
  by (simp_all add: resolving_def)

lemma retyping_sel [simp]:
  "entity_id (retyping now k q a) = entity_id a" "al_status (retyping now k q a) = al_status a"
  "al_product_id (retyping now k q a) = al_product_id a"
  "al_warehouse_id (retyping now k q a) = al_warehouse_id a"
  "al_threshold (retyping now k q a) = al_threshold a"
  "al_alert_type (retyping now k q a) = k"
  "al_quantity_at_trigger (retyping now k q a) = q"
  by (simp_all add: retyping_def)

lemma alert_int4: "constraints d \<Longrightarrow> a \<in> set (alerts d) \<Longrightarrow> int4 (al_quantity_at_trigger a)"
  by (simp add: constraint_defs)

text \<open>The world after an alert of the session was changed by \<open>g\<close> and committed.\<close>

definition alert_saved :: "'x deps \<Rightarrow> alert \<Rightarrow> (alert \<Rightarrow> alert) \<Rightarrow> 'x world \<Rightarrow> 'x world" where
  "alert_saved e a g w =
     committed_world e (w\<lparr>work := with_changed alerts_table (entity_id a) g (work w)\<rparr>)"

lemma alert_saved_simps [simp]:
  "work (alert_saved e a g w) = with_changed alerts_table (entity_id a) g (work w)"
  "committed (alert_saved e a g w) = with_changed alerts_table (entity_id a) g (work w)"
  "outside (alert_saved e a g w) = outside w" "row_locks (alert_saved e a g w) = []"
  by (simp_all add: alert_saved_def del: with_changed_tables)

lemma constraints_resolving:
  "constraints d \<Longrightarrow> constraints (with_changed alerts_table i (resolving now at) d)"
  by (rule constraints_alert_change) (simp_all add: alert_int4)

lemma constraints_retyping:
  "constraints d \<Longrightarrow> int4 q \<Longrightarrow> constraints (with_changed alerts_table i (retyping now k q) d)"
  by (rule constraints_alert_change) simp_all

lemma resolve_run:
  assumes ok: "constraints (work w)" and a: "a \<in> set (alerts (work w))"
  shows "resolve e a w = (Inr (resolving (tx_time w) (clock e (tick w)) a),
    alert_saved e a (resolving (tx_time w) (clock e (tick w))) (w\<lparr>tick := Suc (tick w)\<rparr>))"
proof -
  let ?w = "w\<lparr>tick := Suc (tick w)\<rparr>"
  have "save e alerts_table (entity_id a)
      (\<lambda>r. r\<lparr>al_status := RESOLVED, al_resolved_at := Some (clock e (tick w))\<rparr>) ?w =
    (Inr (resolving (tx_time w) (clock e (tick w)) a),
     alert_saved e a (resolving (tx_time w) (clock e (tick w))) ?w)"
    using alerts_store.save_run [of a ?w "\<lambda>r. r\<lparr>al_status := RESOLVED,
        al_resolved_at := Some (clock e (tick w))\<rparr>" e]
      ok a constraints_resolving [OF ok]
    by (simp add: alert_saved_def Let_def del: with_changed_tables flip: resolving_def)
  then show ?thesis by (simp add: resolve_def)
qed

lemma retype_run:
  assumes ok: "constraints (work w)" and a: "a \<in> set (alerts (work w))" and q: "int4 q"
  shows "save e alerts_table (entity_id a)
      (\<lambda>r. r\<lparr>al_alert_type := k, al_quantity_at_trigger := q\<rparr>) w =
    (Inr (retyping (tx_time w) k q a), alert_saved e a (retyping (tx_time w) k q) w)"
  using alerts_store.save_run [of a w "\<lambda>r. r\<lparr>al_alert_type := k, al_quantity_at_trigger := q\<rparr>" e]
    ok a constraints_retyping [OF ok q]
  by (simp add: alert_saved_def Let_def del: with_changed_tables flip: retyping_def)

text \<open>The five ways an evaluation goes; \<open>W\<close> below is what the specification wants.\<close>

abbreviation pair_active :: "'x world \<Rightarrow> inventory \<Rightarrow> alert list" where
  "pair_active w iv \<equiv> active_alerts (work w) (inv_product_id iv) (inv_warehouse_id iv)"

definition wanted :: "'x deps \<Rightarrow> inventory \<Rightarrow> alert_type option" where
  "wanted e iv = wanted_alert (inv_quantity iv) (applicable_threshold e iv)"

lemma active_mem: "active_alerts d p wh = a # as \<Longrightarrow>
    a \<in> set (alerts d) \<and> al_product_id a = p \<and> al_warehouse_id a = wh \<and> al_status a = ACTIVE"
proof -
  assume "active_alerts d p wh = a # as"
  then have "a \<in> set (active_alerts d p wh)" by simp
  then show ?thesis by (simp add: active_alerts_def active_for_def)
qed

lemma evaluate_ambiguous:
  assumes "\<not> length (pair_active w iv) \<le> 1"
  shows "evaluate_stock_level e iv w = (Inl MultipleResultsFound, w)"
proof -
  obtain a b as where "pair_active w iv = a # b # as"
    using assms by (cases "pair_active w iv" rule: remdups_adj.cases) auto
  then show ?thesis by (simp add: evaluate_stock_level_def get_active_run Let_def)
qed

lemma evaluate_quiet:
  "pair_active w iv = [] \<Longrightarrow> wanted e iv = None \<Longrightarrow>
     evaluate_stock_level e iv w = (Inr None, w)"
  by (simp add: evaluate_stock_level_def get_active_run Let_def wanted_def wanted_alert_def
      split: if_splits)

lemma evaluate_recovered:
  assumes "pair_active w iv = [a]" and "wanted e iv = None" and "constraints (work w)"
  shows "evaluate_stock_level e iv w = (Inr None,
    alert_saved e a (resolving (tx_time w) (clock e (tick w))) (w\<lparr>tick := Suc (tick w)\<rparr>))"
  using assms active_mem [OF assms(1)]
  by (simp add: evaluate_stock_level_def get_active_run Let_def wanted_def wanted_alert_def resolve_run
      split: if_splits)

lemma evaluate_unchanged:
  assumes "pair_active w iv = [a]" and "wanted e iv = Some (al_alert_type a)"
  shows "evaluate_stock_level e iv w = (Inr (Some a), w)"
  using assms
  by (simp add: evaluate_stock_level_def get_active_run Let_def wanted_def wanted_alert_def
      split: if_splits)

lemma evaluate_retyped:
  assumes act: "pair_active w iv = [a]" and w: "wanted e iv = Some k" and k: "k \<noteq> al_alert_type a"
    and ok: "constraints (work w)" and q: "int4 (inv_quantity iv)"
  shows "evaluate_stock_level e iv w =
    (let g = retyping (tx_time w) k (inv_quantity iv)
     in (Inr (Some (g a)), notified e (g a) (alert_saved e a g w)))"
proof -
  have "\<not> inv_quantity iv > applicable_threshold e iv"
    and k': "k = (if inv_quantity iv = 0 then OUT_OF_STOCK else LOW_STOCK)"
    using w by (auto simp: wanted_def wanted_alert_def split: if_splits)
  then show ?thesis
    using act k retype_run [OF ok _ q, of a e k] active_mem [OF act]
    by (simp add: evaluate_stock_level_def get_active_run react_to_alert_run Let_def flip: k')
qed

definition raised_alert :: "'x deps \<Rightarrow> inventory \<Rightarrow> alert_type \<Rightarrow> 'x world \<Rightarrow> alert" where
  "raised_alert e iv k w =
     stamped (uuid4 e (tick w)) (tx_time w) (new_alert iv k (applicable_threshold e iv))"

definition alert_added :: "'x deps \<Rightarrow> alert \<Rightarrow> 'x world \<Rightarrow> 'x world" where
  "alert_added e a w =
     w\<lparr>work := (work w)\<lparr>alerts := alerts (work w) @ [a]\<rparr>, tick := Suc (tick w)\<rparr>"

lemma alert_added_simps [simp]:
  "work (alert_added e a w) = (work w)\<lparr>alerts := alerts (work w) @ [a]\<rparr>"
  "committed (alert_added e a w) = committed w" "outside (alert_added e a w) = outside w"
  by (simp_all add: alert_added_def)

lemma raised_alert_sel [simp]:
  "al_product_id (raised_alert e iv k w) = inv_product_id iv"
  "al_warehouse_id (raised_alert e iv k w) = inv_warehouse_id iv"
  "al_alert_type (raised_alert e iv k w) = k" "al_status (raised_alert e iv k w) = ACTIVE"
  "al_threshold (raised_alert e iv k w) = applicable_threshold e iv"
  "al_quantity_at_trigger (raised_alert e iv k w) = inv_quantity iv"
  "entity_id (raised_alert e iv k w) = uuid4 e (tick w)"
  by (simp_all add: raised_alert_def stamped_def new_alert_def)

lemma evaluate_raised:
  assumes act: "pair_active w iv = []" and w: "wanted e iv = Some k"
  shows "evaluate_stock_level e iv w =
    (let a = raised_alert e iv k w; w1 = alert_added e a w
     in if constraints (work w1) then (Inr (Some a), notified e a (committed_world e w1))
        else (Inl DatabaseError, w1))"
proof -
  have "\<not> inv_quantity iv > applicable_threshold e iv"
    and k': "k = (if inv_quantity iv = 0 then OUT_OF_STOCK else LOW_STOCK)"
    using w by (auto simp: wanted_def wanted_alert_def split: if_splits)
  then show ?thesis
    using act
    by (simp add: evaluate_stock_level_def get_active_run alerts_store.create_run andthen_def
        commit_run react_to_alert_run Let_def alert_added_def raised_alert_def flip: k')
qed

lemmas evaluate_runs = evaluate_quiet evaluate_recovered evaluate_unchanged evaluate_retyped
  evaluate_raised

section \<open>Specification\<close>

lemma active_after_save:
  assumes ok: "constraints d" and act: "active_alerts d p wh = [a]"
    and g: "al_product_id (g a) = al_product_id a" "al_warehouse_id (g a) = al_warehouse_id a"
  shows "active_alerts (with_changed alerts_table (entity_id a) g d) p' wh' =
    (if p' = p \<and> wh' = wh then (if al_status (g a) = ACTIVE then [g a] else [])
     else active_alerts d p' wh')"
proof -
  have dist: "distinct (map entity_id (alerts d))" using ok by (simp add: constraint_defs ids_def)
  note a = active_mem [OF act]
  show ?thesis
  proof (cases "p' = p \<and> wh' = wh")
    case True
    have "filter (active_for p wh) (update_by entity_id (entity_id a) g (alerts d)) =
        (if active_for p wh (g a) then [g a] else [])"
      using filter_update_by_hit [OF dist] act unfolding active_alerts_def by blast
    with True a g show ?thesis by (simp add: active_alerts_def active_for_def)
  next
    case False
    have "filter (active_for p' wh') (update_by entity_id (entity_id a) g (alerts d)) =
        filter (active_for p' wh') (alerts d)"
      by (rule filter_update_by_miss [OF dist]) (use a g False in \<open>auto simp: active_for_def\<close>)
    with False show ?thesis by (simp only: active_alerts_def with_changed_tables) simp
  qed
qed

text \<open>
  \<open>alert_step p wh want d d'\<close>: between \<open>d\<close> and \<open>d'\<close> only the alerts differ; the pair has
  exactly the wanted active alert; every other pair has the active alerts it had; resolved
  alerts are untouched and none is deleted.
\<close>

definition alert_step :: "uuid \<Rightarrow> uuid \<Rightarrow> alert_type option \<Rightarrow> db \<Rightarrow> db \<Rightarrow> bool" where
  "alert_step p wh want d d' \<longleftrightarrow>
     d' = d\<lparr>alerts := alerts d'\<rparr> \<and> constraints d' \<and>
     map al_alert_type (active_alerts d' p wh) = (case want of None \<Rightarrow> [] | Some k \<Rightarrow> [k]) \<and>
     (\<forall>p' wh'. (p', wh') \<noteq> (p, wh) \<longrightarrow> active_alerts d' p' wh' = active_alerts d p' wh') \<and>
     (\<forall>a \<in> set (alerts d). al_status a = RESOLVED \<longrightarrow> a \<in> set (alerts d')) \<and>
     set (ids (alerts d)) \<subseteq> set (ids (alerts d'))"

lemma alert_step_refl:
  assumes "constraints d" and "map al_alert_type (active_alerts d p wh) = (case want of None \<Rightarrow> [] | Some k \<Rightarrow> [k])"
  shows "alert_step p wh want d d"
  using assms by (simp add: alert_step_def)

lemma alert_step_save:
  assumes ok: "constraints d" and act: "active_alerts d p wh = [a]"
    and g: "\<And>r. entity_id (g r) = entity_id r" "al_product_id (g a) = al_product_id a"
      "al_warehouse_id (g a) = al_warehouse_id a"
    and ok': "constraints (with_changed alerts_table (entity_id a) g d)"
    and want: "(case want of None \<Rightarrow> al_status (g a) = RESOLVED
        | Some k \<Rightarrow> al_status (g a) = ACTIVE \<and> al_alert_type (g a) = k)"
  shows "alert_step p wh want d (with_changed alerts_table (entity_id a) g d)"
proof -
  let ?d = "with_changed alerts_table (entity_id a) g d"
  have dist: "distinct (map entity_id (alerts d))" using ok by (simp add: constraint_defs ids_def)
  note a = active_mem [OF act]
  note act' = active_after_save [where g = g, OF ok act g(2,3)]
  show ?thesis
    unfolding alert_step_def
  proof (intro conjI allI impI ballI)
    show "?d = d\<lparr>alerts := alerts ?d\<rparr>" by simp
    show "constraints ?d" by (rule ok')
    show "map al_alert_type (active_alerts ?d p wh) = (case want of None \<Rightarrow> [] | Some k \<Rightarrow> [k])"
      using want by (simp add: act' split: option.splits del: with_changed_tables)
    show "active_alerts ?d p' wh' = active_alerts d p' wh'" if "(p', wh') \<noteq> (p, wh)" for p' wh'
      using that by (auto simp: act' simp del: with_changed_tables)
    show "b \<in> set (alerts ?d)" if "b \<in> set (alerts d)" "al_status b = RESOLVED" for b
    proof -
      have "b \<noteq> a" using a that(2) by auto
      with that(1) show ?thesis using a set_update_by [OF dist, of a g] by simp
    qed
    show "set (ids (alerts d)) \<subseteq> set (ids (alerts ?d))" using g(1) by simp
  qed
qed

lemma alert_step_raise:
  assumes act: "active_alerts d p wh = []" and ok': "constraints (d\<lparr>alerts := alerts d @ [a]\<rparr>)"
    and a: "al_product_id a = p" "al_warehouse_id a = wh" "al_status a = ACTIVE" "al_alert_type a = k"
  shows "alert_step p wh (Some k) d (d\<lparr>alerts := alerts d @ [a]\<rparr>)"
  using assms by (auto simp: alert_step_def active_alerts_def active_for_def)

text \<open>An evaluation that returns has made the step the specification asks for, and committed it.\<close>

lemma evaluate_step:
  assumes run: "evaluate_stock_level e iv w = (Inr res, w')" and ok: "constraints (work w)"
    and q: "int4 (inv_quantity iv)"
  shows "alert_step (inv_product_id iv) (inv_warehouse_id iv) (wanted e iv) (work w) (work w')"
    and "committed w' = work w' \<or> w' = w"
    and "res = (case pair_active w' iv of [] \<Rightarrow> None | a # _ \<Rightarrow> Some a)"
    and "length (pair_active w iv) \<le> 1"
proof -
  let ?P = "alert_step (inv_product_id iv) (inv_warehouse_id iv) (wanted e iv) (work w) (work w') \<and>
    (committed w' = work w' \<or> w' = w) \<and> res = (case pair_active w' iv of [] \<Rightarrow> None | a # _ \<Rightarrow> Some a)"
  have one: "length (pair_active w iv) \<le> 1"
    using run evaluate_ambiguous [of w iv e] by fastforce
  have ?P
  proof (cases "pair_active w iv")
    case none: Nil
    show ?thesis
    proof (cases "wanted e iv")
      case None
      with none run ok show ?thesis by (auto simp: evaluate_quiet intro!: alert_step_refl)
    next
      case (Some k)
      let ?a = "raised_alert e iv k w"
      let ?w1 = "alert_added e ?a w"
      from run have c: "constraints (work ?w1)" and r: "res = Some ?a"
        and w': "w' = notified e ?a (committed_world e ?w1)"
        unfolding evaluate_raised [OF none Some] Let_def by (auto split: if_splits)
      have "alert_step (inv_product_id iv) (inv_warehouse_id iv) (Some k) (work w)
          ((work w)\<lparr>alerts := alerts (work w) @ [?a]\<rparr>)"
        by (rule alert_step_raise [OF none]) (use c in simp_all)
      moreover have "pair_active w' iv = [?a]"
        using none by (simp add: w' active_alerts_def active_for_def)
      ultimately show ?thesis using Some r by (simp add: w')
    qed
  next
    case (Cons a as)
    with one have a: "pair_active w iv = [a]" by simp
    note mem = active_mem [OF a]
    show ?thesis
    proof (cases "wanted e iv")
      case None
      let ?g = "resolving (tx_time w) (clock e (tick w))"
      from run have w': "res = None" "w' = alert_saved e a ?g (w\<lparr>tick := Suc (tick w)\<rparr>)"
        unfolding evaluate_recovered [OF a None ok] by simp_all
      have "alert_step (inv_product_id iv) (inv_warehouse_id iv) None (work w)
          (with_changed alerts_table (entity_id a) ?g (work w))"
        by (rule alert_step_save [OF ok a]) (simp_all add: constraints_resolving [OF ok] del: with_changed_tables)
      moreover have "pair_active w' iv = []"
        using active_after_save [OF ok a, of ?g] by (simp add: w' del: with_changed_tables)
      ultimately show ?thesis using None w'(1) by (simp add: w'(2) del: with_changed_tables)
    next
      case (Some k)
      show ?thesis
      proof (cases "k = al_alert_type a")
        case True
        with Some have want: "wanted e iv = Some (al_alert_type a)" by simp
        from run have "res = Some a" "w' = w" unfolding evaluate_unchanged [OF a want] by simp_all
        moreover have "alert_step (inv_product_id iv) (inv_warehouse_id iv) (Some k) (work w) (work w)"
          by (rule alert_step_refl [OF ok]) (simp add: a True)
        ultimately show ?thesis using a Some by simp
      next
        case False
        let ?g = "retyping (tx_time w) k (inv_quantity iv)"
        from run have w': "res = Some (?g a)" "w' = notified e (?g a) (alert_saved e a ?g w)"
          unfolding evaluate_retyped [OF a Some False ok q] Let_def by simp_all
        have "alert_step (inv_product_id iv) (inv_warehouse_id iv) (Some k) (work w)
            (with_changed alerts_table (entity_id a) ?g (work w))"
          by (rule alert_step_save [OF ok a])
             (simp_all add: constraints_retyping [OF ok q] mem del: with_changed_tables)
        moreover have "pair_active w' iv = [?g a]"
          using active_after_save [OF ok a, of ?g] mem by (simp add: w'(2) del: with_changed_tables)
        ultimately show ?thesis using Some w'(1) by (simp add: w'(2) del: with_changed_tables)
      qed
    qed
  qed
  then show "alert_step (inv_product_id iv) (inv_warehouse_id iv) (wanted e iv) (work w) (work w')"
    and "committed w' = work w' \<or> w' = w"
    and "res = (case pair_active w' iv of [] \<Rightarrow> None | a # _ \<Rightarrow> Some a)"
    and "length (pair_active w iv) \<le> 1" using one by blast+
qed

text \<open>An evaluation that raises has committed nothing.\<close>

lemma evaluate_raises:
  assumes run: "evaluate_stock_level e iv w = (Inl x, w')" and ok: "constraints (work w)"
    and q: "int4 (inv_quantity iv)"
  shows "committed w' = committed w" and "outside w' = outside w"
    and "x = MultipleResultsFound \<and> \<not> length (pair_active w iv) \<le> 1 \<or>
      x = DatabaseError \<and> pair_active w iv = [] \<and> (\<exists>k. wanted e iv = Some k \<and>
        \<not> constraints ((work w)\<lparr>alerts := alerts (work w) @ [raised_alert e iv k w]\<rparr>))"
proof -
  have "committed w' = committed w \<and> outside w' = outside w \<and>
    (x = MultipleResultsFound \<and> \<not> length (pair_active w iv) \<le> 1 \<or>
     x = DatabaseError \<and> pair_active w iv = [] \<and> (\<exists>k. wanted e iv = Some k \<and>
        \<not> constraints ((work w)\<lparr>alerts := alerts (work w) @ [raised_alert e iv k w]\<rparr>)))"
  proof (cases "length (pair_active w iv) \<le> 1")
    case False
    with run show ?thesis by (simp add: evaluate_ambiguous)
  next
    case True
    show ?thesis
    proof (cases "pair_active w iv")
      case none: Nil
      then obtain k where k: "wanted e iv = Some k"
        using run by (cases "wanted e iv") (auto simp: evaluate_quiet)
      from run have "x = DatabaseError" "w' = alert_added e (raised_alert e iv k w) w"
        "\<not> constraints (work (alert_added e (raised_alert e iv k w) w))"
        unfolding evaluate_raised [OF none k] Let_def by (auto split: if_splits)
      with none k show ?thesis by simp
    next
      case (Cons a as)
      with True have a: "pair_active w iv = [a]" by simp
      have "\<exists>r w2. evaluate_stock_level e iv w = (Inr r, w2)"
        using evaluate_recovered [OF a _ ok, of e] evaluate_unchanged [OF a, of e]
          evaluate_retyped [OF a _ _ ok q, of e]
        by (cases "wanted e iv"; cases "wanted e iv = Some (al_alert_type a)") (auto simp: Let_def)
      with run show ?thesis by simp
    qed
  qed
  then show "committed w' = committed w" and "outside w' = outside w"
    and "x = MultipleResultsFound \<and> \<not> length (pair_active w iv) \<le> 1 \<or>
      x = DatabaseError \<and> pair_active w iv = [] \<and> (\<exists>k. wanted e iv = Some k \<and>
        \<not> constraints ((work w)\<lparr>alerts := alerts (work w) @ [raised_alert e iv k w]\<rparr>))" by blast+
qed

text \<open>When raising an alert cannot be refused.\<close>

lemma constraints_alert_added:
  assumes "constraints d" and "entity_id a \<notin> set (ids (alerts d))"
    and "int4 (al_threshold a)" and "int4 (al_quantity_at_trigger a)"
    and "al_product_id a \<in> set (ids (products d))" and "al_warehouse_id a \<in> set (ids (warehouses d))"
  shows "constraints (d\<lparr>alerts := alerts d @ [a]\<rparr>)"
  by (rule constraints_alerts) (use assms in \<open>auto simp: constraint_defs\<close>)

text \<open>
  Facts about the database that hold along any number of alert steps, each of which is about
  a pair with at most one active alert.
\<close>

definition some_alert_step :: "db \<Rightarrow> db \<Rightarrow> bool" where
  "some_alert_step d d' \<longleftrightarrow> (\<exists>p wh want. alert_step p wh want d d' \<and> length (active_alerts d p wh) \<le> 1)"

abbreviation alert_steps :: "db \<Rightarrow> db \<Rightarrow> bool" where
  "alert_steps \<equiv> some_alert_step\<^sup>*\<^sup>*"

lemma alert_step_steps: "alert_step p wh want d d' \<Longrightarrow> length (active_alerts d p wh) \<le> 1 \<Longrightarrow> alert_steps d d'"
  unfolding some_alert_step_def [abs_def] by blast

lemma alert_steps_frame:
  assumes "alert_steps d d'"
  shows "d' = d\<lparr>alerts := alerts d'\<rparr>"
  using assms
proof (induction rule: rtranclp_induct)
  case (step d1 d2)
  then obtain p wh want where "alert_step p wh want d1 d2" by (auto simp: some_alert_step_def)
  then have "d2 = d1\<lparr>alerts := alerts d2\<rparr>" unfolding alert_step_def by blast
  moreover note step.IH
  ultimately have "d2 = (d\<lparr>alerts := alerts d1\<rparr>)\<lparr>alerts := alerts d2\<rparr>" by metis
  then show ?case by simp
qed simp

lemma alert_steps_constraints: "alert_steps d d' \<Longrightarrow> constraints d \<Longrightarrow> constraints d'"
  by (induction rule: rtranclp_induct) (auto simp: some_alert_step_def alert_step_def)

lemma alert_steps_tables [simp]:
  assumes "alert_steps d d'"
  shows "inventories d' = inventories d" and "movements d' = movements d"
    and "products d' = products d" and "warehouses d' = warehouses d" and "users d' = users d"
  by (subst alert_steps_frame [OF assms], simp)+

definition one_active :: "db \<Rightarrow> bool" where
  "one_active d \<longleftrightarrow> (\<forall>p wh. length (active_alerts d p wh) \<le> 1)"

lemma alert_step_one_active: "alert_step p wh want d d' \<Longrightarrow> one_active d \<Longrightarrow> one_active d'"
proof -
  assume st: "alert_step p wh want d d'" and one: "one_active d"
  have "length (active_alerts d' p' wh') \<le> 1" for p' wh'
  proof (cases "(p', wh') = (p, wh)")
    case True
    have "length (map al_alert_type (active_alerts d' p wh)) \<le> 1"
      using st by (simp add: alert_step_def del: length_map split: option.splits)
    with True show ?thesis by simp
  next
    case False
    with st have "active_alerts d' p' wh' = active_alerts d p' wh'"
      unfolding alert_step_def by blast
    with one show ?thesis by (simp add: one_active_def)
  qed
  then show ?thesis by (simp add: one_active_def)
qed

lemma alert_steps_one_active: "alert_steps d d' \<Longrightarrow> one_active d \<Longrightarrow> one_active d'"
  by (induction rule: rtranclp_induct) (auto simp: some_alert_step_def dest: alert_step_one_active)

text \<open>A pair with several active alerts keeps them: no alert step is about it.\<close>

lemma alert_steps_ambiguous:
  assumes "alert_steps d d'" and "2 \<le> length (active_alerts d p wh)"
  shows "active_alerts d' p wh = active_alerts d p wh"
  using assms(1)
proof (induction rule: rtranclp_induct)
  case (step d1 d2)
  then obtain q vh want where "alert_step q vh want d1 d2" "length (active_alerts d1 q vh) \<le> 1"
    by (auto simp: some_alert_step_def)
  moreover from this(2) step.IH assms(2) have "(p, wh) \<noteq> (q, vh)" by auto
  ultimately have "active_alerts d2 p wh = active_alerts d1 p wh" unfolding alert_step_def by blast
  with step.IH show ?case by simp
qed simp

end
