(* ===== verification/InventoryCommand.thy ===== *)
theory InventoryCommand
  imports AlertService Schemas
begin

text \<open>
  InventoryCommandService (app/services/inventory_command.py): applying a stock movement
  under row locks, appending its audit record, reconciling alerts and publishing the event.

  An Inventory object the service holds is a reference into the session's identity map, so
  it is modelled by its id and read with \<open>held\<close> where its attributes are used.
\<close>

section \<open>Definitions\<close>

definition held ::
  "('r base_model_scheme, 'z) table_scheme \<Rightarrow> uuid \<Rightarrow> ('x, 'r base_model_scheme) service" where
  "held t i = refresh t i"

definition new_inventory :: "uuid \<Rightarrow> uuid \<Rightarrow> inventory" where
  "new_inventory p wh = \<lparr>entity_id = 0, created_at = 0, updated_at = 0, inv_product_id = p,
     inv_warehouse_id = wh, inv_quantity = 0, inv_low_stock_threshold = None\<rparr>"

definition no_inventory_record :: "uuid \<Rightarrow> uuid \<Rightarrow> exc" where
  "no_inventory_record p wh =
     App (NotFoundError (''No inventory record for product '' @ quoted (uuid_str p) @
       '' in warehouse '' @ quoted (uuid_str wh) @ ''.''))"

definition insufficient_stock :: "int \<Rightarrow> uuid \<Rightarrow> uuid \<Rightarrow> int \<Rightarrow> exc" where
  "insufficient_stock q p wh available =
     App (InsufficientStockError (''Cannot remove '' @ int_str q @ '' units of product '' @
       quoted (uuid_str p) @ '' from warehouse '' @ quoted (uuid_str wh) @ '': only '' @
       int_str available @ '' in stock.''))"

definition increase_stock :: "'x deps \<Rightarrow> uuid \<Rightarrow> uuid \<Rightarrow> int \<Rightarrow> ('x, uuid) service" where
  "increase_stock e p wh q =
     andthen (get_by_id_or_raise warehouses_table wh) (\<lambda>_.
     andthen (get_by_product_and_warehouse_for_update p wh) (\<lambda>found.
     andthen (case found of None \<Rightarrow> create e inventories_table (new_inventory p wh)
              | Some iv \<Rightarrow> ret iv) (\<lambda>iv.
     andthen (set_attributes inventories_table (entity_id iv)
                (\<lambda>r. r\<lparr>inv_quantity := inv_quantity r + q\<rparr>)) (\<lambda>_.
     andthen flush (\<lambda>_. ret (entity_id iv))))))"

definition decrease_stock :: "'x deps \<Rightarrow> uuid \<Rightarrow> uuid \<Rightarrow> int \<Rightarrow> ('x, uuid) service" where
  "decrease_stock e p wh q =
     andthen (get_by_id_or_raise warehouses_table wh) (\<lambda>_.
     andthen (get_by_product_and_warehouse_for_update p wh) (\<lambda>found.
     case found of None \<Rightarrow> raise (no_inventory_record p wh)
     | Some iv \<Rightarrow>
         if inv_quantity iv < q then raise (insufficient_stock q p wh (inv_quantity iv))
         else andthen (set_attributes inventories_table (entity_id iv)
                (\<lambda>r. r\<lparr>inv_quantity := inv_quantity r - q\<rparr>)) (\<lambda>_.
              andthen flush (\<lambda>_. ret (entity_id iv)))))"

text \<open>\<open>sorted((source, destination), key=str)\<close> decides which leg goes first.\<close>

definition lock_order :: "uuid \<Rightarrow> uuid \<Rightarrow> uuid list" where
  "lock_order source destination = sort_key uuid_str [source, destination]"

definition transfer_stock ::
  "'x deps \<Rightarrow> uuid \<Rightarrow> uuid \<Rightarrow> uuid \<Rightarrow> int \<Rightarrow> ('x, uuid \<times> uuid) service" where
  "transfer_stock e p source destination q =
     (if hd (lock_order source destination) = source then
        andthen (decrease_stock e p source q) (\<lambda>source_inventory.
        andthen (increase_stock e p destination q) (\<lambda>destination_inventory.
        ret (source_inventory, destination_inventory)))
      else
        andthen (increase_stock e p destination q) (\<lambda>destination_inventory.
        andthen (decrease_stock e p source q) (\<lambda>source_inventory.
        ret (source_inventory, destination_inventory))))"

definition new_movement :: "movement_create \<Rightarrow> uuid option \<Rightarrow> movement" where
  "new_movement x performed_by = \<lparr>entity_id = 0, created_at = 0, updated_at = 0,
     mov_product_id = mc_product_id x, mov_type = mc_movement_type x, mov_quantity = mc_quantity x,
     mov_source_warehouse_id = mc_source_warehouse_id x,
     mov_destination_warehouse_id = mc_destination_warehouse_id x, mov_reason = mc_reason x,
     mov_performed_by = performed_by\<rparr>"

definition apply_movement :: "'x deps \<Rightarrow> movement_create \<Rightarrow> ('x, uuid list) service" where
  "apply_movement e x =
     (case mc_movement_type x of
        IN \<Rightarrow> (case mc_destination_warehouse_id x of None \<Rightarrow> raise AssertionError
          | Some d \<Rightarrow> andthen (increase_stock e (mc_product_id x) d (mc_quantity x)) (\<lambda>i. ret [i]))
      | OUT \<Rightarrow> (case mc_source_warehouse_id x of None \<Rightarrow> raise AssertionError
          | Some s \<Rightarrow> andthen (decrease_stock e (mc_product_id x) s (mc_quantity x)) (\<lambda>i. ret [i]))
      | TRANSFER \<Rightarrow> (case mc_source_warehouse_id x of None \<Rightarrow> raise AssertionError
          | Some s \<Rightarrow> (case mc_destination_warehouse_id x of None \<Rightarrow> raise AssertionError
              | Some d \<Rightarrow> andthen (transfer_stock e (mc_product_id x) s d (mc_quantity x))
                  (\<lambda>(i, j). ret [i, j]))))"

definition movement_event_body :: "movement_create \<Rightarrow> inventory \<Rightarrow> exc + event_body" where
  "movement_event_body x first =
     (case mc_movement_type x of
        IN \<Rightarrow> (case mc_destination_warehouse_id x of None \<Rightarrow> Inl AssertionError
          | Some d \<Rightarrow> Inr (StockReceivedEvent (mc_product_id x) d (mc_quantity x) (inv_quantity first)))
      | OUT \<Rightarrow> (case mc_source_warehouse_id x of None \<Rightarrow> Inl AssertionError
          | Some s \<Rightarrow> Inr (StockRemovedEvent (mc_product_id x) s (mc_quantity x) (inv_quantity first)))
      | TRANSFER \<Rightarrow> (case (mc_source_warehouse_id x, mc_destination_warehouse_id x) of
            (Some s, Some d) \<Rightarrow> Inr (StockTransferredEvent (mc_product_id x) s d (mc_quantity x))
          | _ \<Rightarrow> Inl AssertionError))"

definition build_movement_event ::
  "'x deps \<Rightarrow> movement_create \<Rightarrow> uuid list \<Rightarrow> ('x, domain_event) service" where
  "build_movement_event e x affected = andthen (held inventories_table (hd affected)) (\<lambda>first.
     andthen (lift_result (movement_event_body x first)) (\<lambda>b. new_event e b))"

definition record_movement ::
  "'x deps \<Rightarrow> movement_create \<Rightarrow> uuid option \<Rightarrow> ('x, movement) service" where
  "record_movement e x performed_by =
     andthen (get_by_id_or_raise products_table (mc_product_id x)) (\<lambda>_.
     andthen (apply_movement e x) (\<lambda>affected.
     andthen (create e movements_table (new_movement x performed_by)) (\<lambda>movement.
     andthen (commit e) (\<lambda>_.
     andthen (for_each (\<lambda>i. andthen (held inventories_table i) (evaluate_stock_level e)) affected) (\<lambda>_.
     andthen (build_movement_event e x affected) (\<lambda>ev.
     andthen (publish e ev) (\<lambda>_. ret movement)))))))"

section \<open>The two stock changes\<close>

lemma touch_inv_sel [simp]:
  "inv_product_id (touch now f r) = inv_product_id (f r)"
  "inv_warehouse_id (touch now f r) = inv_warehouse_id (f r)"
  "inv_quantity (touch now f r) = inv_quantity (f r)"
  "inv_low_stock_threshold (touch now f r) = inv_low_stock_threshold (f r)"
  by (simp_all add: touch_def Let_def)

lemma inventory_table_simps:
  "inventories (d\<lparr>inventories := rs\<rparr>) = rs" "d\<lparr>inventories := rs, inventories := rs'\<rparr> = d\<lparr>inventories := rs'\<rparr>"
  by simp_all

text \<open>
  \<open>stock_step p wh q i d d'\<close>: between \<open>d\<close> and \<open>d'\<close> only the inventories differ, the stock
  of \<open>p\<close> in \<open>wh\<close> by \<open>q\<close> and no other stock, row \<open>i\<close> is the pair's, and every row is still
  there, unchanged unless it is the pair's.
\<close>

definition stock_step :: "uuid \<Rightarrow> uuid \<Rightarrow> int \<Rightarrow> uuid \<Rightarrow> db \<Rightarrow> db \<Rightarrow> bool" where
  "stock_step p wh q i d d' \<longleftrightarrow>
     d' = d\<lparr>inventories := inventories d'\<rparr> \<and> constraints d' \<and>
     (\<forall>p' wh'. stock_in (inventories d') p' wh' =
        stock_in (inventories d) p' wh' + (if p' = p \<and> wh' = wh then q else 0)) \<and>
     (\<exists>r \<in> set (inventories d'). entity_id r = i \<and> inv_pair r = (p, wh)) \<and>
     (\<forall>r \<in> set (inventories d). inv_pair r \<noteq> (p, wh) \<longrightarrow> r \<in> set (inventories d')) \<and>
     (\<forall>r' \<in> set (inventories d'). r' \<notin> set (inventories d) \<longrightarrow> inv_pair r' = (p, wh) \<and>
        (inv_low_stock_threshold r' = None \<or>
         (\<exists>r \<in> set (inventories d). inv_pair r = (p, wh) \<and>
            inv_low_stock_threshold r' = inv_low_stock_threshold r)))"

text \<open>Changing the quantity of the pair's row, which is in the table.\<close>

lemma stock_step_update:
  assumes ok: "constraints d" and r: "r \<in> set (inventories d)" "inv_pair r = (p, wh)"
    and g: "\<And>r. entity_id (g r) = entity_id r \<and> inv_pair (g r) = inv_pair r \<and>
          inv_low_stock_threshold (g r) = inv_low_stock_threshold r"
    and q: "inv_quantity (g r) = inv_quantity r + q"
    and ok': "constraints (d\<lparr>inventories := update_by entity_id (entity_id r) g (inventories d)\<rparr>)"
  shows "stock_step p wh q (entity_id r) d
    (d\<lparr>inventories := update_by entity_id (entity_id r) g (inventories d)\<rparr>)"
proof -
  let ?invs = "update_by entity_id (entity_id r) g (inventories d)"
  have dist: "distinct (map entity_id (inventories d))"
    and pairs: "distinct (map inv_pair (inventories d))"
    using ok by (simp_all add: constraint_defs ids_def)
  have set: "set ?invs = insert (g r) (set (inventories d) - {r})"
    using dist r(1) by (rule set_update_by)
  have pair: "inv_product_id (g r) = p" "inv_warehouse_id (g r) = wh"
    "inv_product_id r = p" "inv_warehouse_id r = wh"
    using g [of r] r(2) by simp_all
  have thr: "inv_pair r' = (p, wh) \<and> (inv_low_stock_threshold r' = None \<or>
         (\<exists>r \<in> set (inventories d). inv_pair r = (p, wh) \<and>
            inv_low_stock_threshold r' = inv_low_stock_threshold r))"
    if "r' \<in> set ?invs" "r' \<notin> set (inventories d)" for r'
  proof -
    have "r' = g r" using that by (simp add: set)
    then show ?thesis using g [of r] r by (intro conjI disjI2 bexI [of _ r]) simp_all
  qed
  show ?thesis
    unfolding stock_step_def
  proof (intro conjI allI)
    fix p' wh'
    show "stock_in (inventories (d\<lparr>inventories := ?invs\<rparr>)) p' wh' =
        stock_in (inventories d) p' wh' + (if p' = p \<and> wh' = wh then q else 0)"
      using sum_list_update_by [OF dist r(1),
        of "\<lambda>r. if inv_product_id r = p' \<and> inv_warehouse_id r = wh' then inv_quantity r else 0" g]
      by (simp add: stock_in_def pair q)
    show "\<exists>r' \<in> set (inventories (d\<lparr>inventories := ?invs\<rparr>)).
        entity_id r' = entity_id r \<and> inv_pair r' = (p, wh)"
      using g [of r] r(2) by (intro bexI [of _ "g r"]) (simp_all add: set)
    show "\<forall>r' \<in> set (inventories d). inv_pair r' \<noteq> (p, wh) \<longrightarrow>
        r' \<in> set (inventories (d\<lparr>inventories := ?invs\<rparr>))"
      using r by (auto simp: set)
  qed (use ok' thr in \<open>simp_all only: inventory_table_simps ball_simps, auto\<close>)
qed

lemma stock_stepD:
  assumes "stock_step p wh q i d d'"
  shows "d' = d\<lparr>inventories := inventories d'\<rparr>" and "constraints d'"
    and "stock_in (inventories d') p' wh' =
        stock_in (inventories d) p' wh' + (if p' = p \<and> wh' = wh then q else 0)"
    and "\<exists>r \<in> set (inventories d'). entity_id r = i \<and> inv_pair r = (p, wh)"
    and "r \<in> set (inventories d) \<Longrightarrow> inv_pair r \<noteq> (p, wh) \<Longrightarrow> r \<in> set (inventories d')"
    and "r' \<in> set (inventories d') \<Longrightarrow> r' \<notin> set (inventories d) \<Longrightarrow> inv_pair r' = (p, wh)"
    and "r' \<in> set (inventories d') \<Longrightarrow> r' \<notin> set (inventories d) \<Longrightarrow>
        inv_low_stock_threshold r' = None \<or>
         (\<exists>r \<in> set (inventories d). inv_pair r = (p, wh) \<and>
            inv_low_stock_threshold r' = inv_low_stock_threshold r)"
  using assms unfolding stock_step_def by blast+

lemma stock_step_trans:
  assumes 1: "stock_step p wh q i d d1" and 2: "stock_step p wh q' i d1 d2"
  shows "stock_step p wh (q + q') i d d2"
proof -
  have "d2 = d\<lparr>inventories := inventories d2\<rparr>"
    using stock_stepD(1) [OF 1] stock_stepD(1) [OF 2] by (metis inventory_table_simps(2))
  moreover have "stock_in (inventories d2) p' wh' =
      stock_in (inventories d) p' wh' + (if p' = p \<and> wh' = wh then q + q' else 0)" for p' wh'
    using stock_stepD(3) [OF 1, of p' wh'] stock_stepD(3) [OF 2, of p' wh'] by simp
  moreover have "r \<in> set (inventories d2)" if "r \<in> set (inventories d)" "inv_pair r \<noteq> (p, wh)" for r
    using stock_stepD(5) [OF 1 that] stock_stepD(5) [OF 2 _ that(2)] by blast
  moreover have "inv_pair r' = (p, wh) \<and> (inv_low_stock_threshold r' = None \<or>
         (\<exists>r \<in> set (inventories d). inv_pair r = (p, wh) \<and>
            inv_low_stock_threshold r' = inv_low_stock_threshold r))"
    if "r' \<in> set (inventories d2)" "r' \<notin> set (inventories d)" for r'
    using stock_stepD(6,7) [OF 1] stock_stepD(6,7) [OF 2 that(1)] that(2) by metis
  ultimately show ?thesis
    using stock_stepD(2,4) [OF 2] unfolding stock_step_def by blast
qed

lemma stock_step_insert:
  assumes "inv_pair r = (p, wh)" and "inv_quantity r = 0" and "inv_low_stock_threshold r = None"
    and "constraints (d\<lparr>inventories := inventories d @ [r]\<rparr>)"
  shows "stock_step p wh 0 (entity_id r) d (d\<lparr>inventories := inventories d @ [r]\<rparr>)"
  using assms by (auto simp: stock_step_def)

lemma new_inventory_stamped [simp]:
  "inv_product_id (stamped i now (new_inventory p wh)) = p"
  "inv_warehouse_id (stamped i now (new_inventory p wh)) = wh"
  "inv_quantity (stamped i now (new_inventory p wh)) = 0"
  "inv_low_stock_threshold (stamped i now (new_inventory p wh)) = None"
  by (simp_all add: stamped_def new_inventory_def)

text \<open>Setting the quantity of the pair's row and flushing.\<close>

definition set_quantity :: "uuid \<Rightarrow> (int \<Rightarrow> int) \<Rightarrow> ('x, uuid) service" where
  "set_quantity i f = andthen (set_attributes inventories_table i
     (\<lambda>r. r\<lparr>inv_quantity := f (inv_quantity r)\<rparr>)) (\<lambda>_. andthen flush (\<lambda>_. ret i))"

lemma set_quantity_run: "set_quantity i f w =
    (let g = touch (tx_time w) (\<lambda>r. r\<lparr>inv_quantity := f (inv_quantity r)\<rparr>);
         w' = w\<lparr>work := (work w)\<lparr>inventories := update_by entity_id i g (inventories (work w))\<rparr>\<rparr>
     in if constraints (work w') then (Inr i, w') else (Inl DatabaseError, w'))"
  by (simp add: set_quantity_def set_attributes_def put_all_def flush_run andthen_def Let_def
      inventories_table_def)

lemma set_quantity_Inr:
  assumes run: "set_quantity i f w = (Inr j, w')" and ok: "constraints (work w)"
    and r: "r \<in> set (inventories (work w))" "entity_id r = i" "inv_pair r = (p, wh)"
    and q: "f (inv_quantity r) = inv_quantity r + q"
  shows "j = i" and "stock_step p wh q i (work w) (work w')"
    and "w' = w\<lparr>work := work w'\<rparr>"
proof -
  let ?g = "touch (tx_time w) (\<lambda>r. r\<lparr>inv_quantity := f (inv_quantity r)\<rparr>)"
  let ?d = "(work w)\<lparr>inventories := update_by entity_id i ?g (inventories (work w))\<rparr>"
  from run have c: "constraints ?d" and j: "j = i" and w': "w' = w\<lparr>work := ?d\<rparr>"
    by (auto simp: set_quantity_run Let_def split: if_splits)
  show "j = i" by (rule j)
  have "stock_step p wh q (entity_id r) (work w)
      ((work w)\<lparr>inventories := update_by entity_id (entity_id r) ?g (inventories (work w))\<rparr>)"
    by (rule stock_step_update [OF ok r(1,3)]) (use c r(2) q in simp_all)
  then show "stock_step p wh q i (work w) (work w')"
    unfolding w' using r(2) by simp
  show "w' = w\<lparr>work := work w'\<rparr>" unfolding w' by simp
qed

text \<open>Which row lock a leg takes: the pair's, if it has a row.\<close>

definition leg_locks :: "uuid \<Rightarrow> uuid \<Rightarrow> db \<Rightarrow> (uuid \<times> uuid) list" where
  "leg_locks p wh d = (if (p, wh) \<in> inv_pair ` set (inventories d) then [(p, wh)] else [])"

lemma for_update_found:
  assumes ok: "constraints (work w)"
  shows "get_by_product_and_warehouse_for_update p wh w =
    (Inr (find (\<lambda>r. inv_pair r = (p, wh)) (inventories (work w))),
     w\<lparr>row_locks := row_locks w @ leg_locks p wh (work w)\<rparr>)"
proof (cases "find (\<lambda>r. inv_pair r = (p, wh)) (inventories (work w))")
  case None
  then have "leg_locks p wh (work w) = []"
    unfolding leg_locks_def find_key_None by simp
  with None show ?thesis by (simp add: for_update_run get_by_pair_run [OF ok])
next
  case (Some r)
  then have "leg_locks p wh (work w) = [(p, wh)]"
    unfolding leg_locks_def by (auto dest: find_SomeD simp: image_iff)
  with Some show ?thesis by (simp add: for_update_run get_by_pair_run [OF ok])
qed

lemma increase_stock_run:
  assumes ok: "constraints (work w)"
  shows "increase_stock e p wh q w =
    (let w1 = w\<lparr>row_locks := row_locks w @ leg_locks p wh (work w)\<rparr> in
     case find (\<lambda>r. entity_id r = wh) (warehouses (work w)) of
       None \<Rightarrow> (Inl (not_found ''Warehouse'' wh), w)
     | Some _ \<Rightarrow>
        (case find (\<lambda>r. inv_pair r = (p, wh)) (inventories (work w)) of
           None \<Rightarrow> andthen (create e inventories_table (new_inventory p wh))
                (\<lambda>iv. set_quantity (entity_id iv) (\<lambda>n. n + q)) w1
         | Some iv \<Rightarrow> set_quantity (entity_id iv) (\<lambda>n. n + q) w1))"
  by (simp add: increase_stock_def andthen_def get_by_id_or_raise_run for_update_found [OF ok]
      Let_def set_quantity_def split: option.splits)
    (simp add: warehouses_table_def)

lemma decrease_stock_run:
  assumes ok: "constraints (work w)"
  shows "decrease_stock e p wh q w =
    (let w1 = w\<lparr>row_locks := row_locks w @ leg_locks p wh (work w)\<rparr> in
     case find (\<lambda>r. entity_id r = wh) (warehouses (work w)) of
       None \<Rightarrow> (Inl (not_found ''Warehouse'' wh), w)
     | Some _ \<Rightarrow>
        (case find (\<lambda>r. inv_pair r = (p, wh)) (inventories (work w)) of
           None \<Rightarrow> (Inl (no_inventory_record p wh), w1)
         | Some iv \<Rightarrow>
             if inv_quantity iv < q then (Inl (insufficient_stock q p wh (inv_quantity iv)), w1)
             else set_quantity (entity_id iv) (\<lambda>n. n - q) w1))"
  by (simp add: decrease_stock_def andthen_def get_by_id_or_raise_run for_update_found [OF ok]
      Let_def set_quantity_def split: option.splits)
    (simp add: warehouses_table_def)

text \<open>What a successful leg did.\<close>

lemma increase_stock_Inr:
  assumes run: "increase_stock e p wh q w = (Inr i, w')" and ok: "constraints (work w)"
  shows "stock_step p wh q i (work w) (work w')"
    and "committed w' = committed w" and "outside w' = outside w" and "tx_time w' = tx_time w"
    and "row_locks w' = row_locks w @ leg_locks p wh (work w)"
    and "wh \<in> set (ids (warehouses (work w)))"
proof -
  let ?w1 = "w\<lparr>row_locks := row_locks w @ leg_locks p wh (work w)\<rparr>"
  obtain x where x: "find (\<lambda>r. entity_id r = wh) (warehouses (work w)) = Some x"
    using run by (auto simp: increase_stock_run [OF ok] Let_def split: option.splits)
  then show "wh \<in> set (ids (warehouses (work w)))"
    by (auto simp: set_ids dest: find_SomeD)
  have "stock_step p wh q i (work w) (work w') \<and> committed w' = committed w \<and>
      outside w' = outside w \<and> tx_time w' = tx_time w \<and>
      row_locks w' = row_locks w @ leg_locks p wh (work w)"
  proof (cases "find (\<lambda>r. inv_pair r = (p, wh)) (inventories (work w))")
    case None
    with run x have "andthen (create e inventories_table (new_inventory p wh))
        (\<lambda>iv. set_quantity (entity_id iv) (\<lambda>n. n + q)) ?w1 = (Inr i, w')"
      by (simp add: increase_stock_run [OF ok])
    then obtain r w2 where c: "create e inventories_table (new_inventory p wh) ?w1 = (Inr r, w2)"
      and s: "set_quantity (entity_id r) (\<lambda>n. n + q) w2 = (Inr i, w')" by (rule andthen_InrE)
    note cr = inventories_store.create_InrD [OF c]
    have r: "inv_pair r = (p, wh)" "inv_quantity r = 0" "inv_low_stock_threshold r = None"
      by (simp_all add: cr(1))
    have w2: "work w2 = (work w)\<lparr>inventories := inventories (work w) @ [r]\<rparr>"
      "committed w2 = committed w" "outside w2 = outside w" "tx_time w2 = tx_time w"
      "row_locks w2 = row_locks w @ leg_locks p wh (work w)"
      by (simp_all add: cr(2))
    have mem: "r \<in> set (inventories (work w2))" by (simp add: w2)
    note sq = set_quantity_Inr [OF s cr(3) mem refl r(1), of q]
    have "stock_step p wh 0 (entity_id r) (work w) (work w2)"
      unfolding w2(1) by (rule stock_step_insert [OF r]) (use cr(3) w2(1) in simp)
    moreover have "stock_step p wh q (entity_id r) (work w2) (work w')" and "i = entity_id r"
      using sq by simp_all
    ultimately have "stock_step p wh (0 + q) i (work w) (work w')"
      by (metis stock_step_trans)
    moreover have "committed w' = committed w2 \<and> outside w' = outside w2 \<and> tx_time w' = tx_time w2 \<and>
        row_locks w' = row_locks w2"
      by (subst (1 2 3 4) sq(3)) simp_all
    ultimately show ?thesis by (simp add: w2)
  next
    case (Some r)
    then have r: "r \<in> set (inventories (work w))" "inv_pair r = (p, wh)" by (auto dest: find_SomeD)
    from run x Some have s: "set_quantity (entity_id r) (\<lambda>n. n + q) ?w1 = (Inr i, w')"
      by (simp add: increase_stock_run [OF ok])
    have "constraints (work ?w1)" "r \<in> set (inventories (work ?w1))" using ok r by simp_all
    note sq = set_quantity_Inr [OF s this refl r(2), of q]
    have "committed w' = committed ?w1 \<and> outside w' = outside ?w1 \<and> tx_time w' = tx_time ?w1 \<and>
        row_locks w' = row_locks ?w1"
      by (subst (1 2 3 4) sq(3)) simp_all
    with sq(1,2) show ?thesis by simp
  qed
  then show "stock_step p wh q i (work w) (work w')"
    and "committed w' = committed w" and "outside w' = outside w" and "tx_time w' = tx_time w"
    and "row_locks w' = row_locks w @ leg_locks p wh (work w)" by simp_all
qed

lemma decrease_stock_Inr:
  assumes run: "decrease_stock e p wh q w = (Inr i, w')" and ok: "constraints (work w)"
  shows "stock_step p wh (- q) i (work w) (work w')"
    and "committed w' = committed w" and "outside w' = outside w" and "tx_time w' = tx_time w"
    and "row_locks w' = row_locks w @ leg_locks p wh (work w)"
    and "q \<le> stock_in (inventories (work w)) p wh"
    and "wh \<in> set (ids (warehouses (work w)))"
    and "(p, wh) \<in> inv_pair ` set (inventories (work w))"
proof -
  let ?w1 = "w\<lparr>row_locks := row_locks w @ leg_locks p wh (work w)\<rparr>"
  obtain x where x: "find (\<lambda>r. entity_id r = wh) (warehouses (work w)) = Some x"
    using run by (auto simp: decrease_stock_run [OF ok] Let_def split: option.splits)
  then show "wh \<in> set (ids (warehouses (work w)))"
    by (auto simp: set_ids dest: find_SomeD)
  obtain r where f: "find (\<lambda>r. inv_pair r = (p, wh)) (inventories (work w)) = Some r"
    and enough: "\<not> inv_quantity r < q"
    and s: "set_quantity (entity_id r) (\<lambda>n. n - q) ?w1 = (Inr i, w')"
    using run x by (auto simp: decrease_stock_run [OF ok] Let_def split: option.splits if_splits)
  from f have r: "r \<in> set (inventories (work w))" "inv_pair r = (p, wh)" by (auto dest: find_SomeD)
  have pairs: "distinct (map inv_pair (inventories (work w)))"
    using ok by (simp add: constraint_defs)
  show "q \<le> stock_in (inventories (work w)) p wh"
  proof -
    have "inv_product_id r = p" "inv_warehouse_id r = wh" using r(2) by simp_all
    with stock_in_row [OF pairs r(1)] enough show ?thesis by simp
  qed
  show "(p, wh) \<in> inv_pair ` set (inventories (work w))" using imageI [OF r(1), of inv_pair] unfolding r(2) .
  have "constraints (work ?w1)" "r \<in> set (inventories (work ?w1))" using ok r by simp_all
  note sq = set_quantity_Inr [OF s this refl r(2), of "- q"]
  have "committed w' = committed ?w1 \<and> outside w' = outside ?w1 \<and> tx_time w' = tx_time ?w1 \<and>
      row_locks w' = row_locks ?w1"
    by (subst (1 2 3 4) sq(3)) simp_all
  with sq(1,2) show "stock_step p wh (- q) i (work w) (work w')"
    and "committed w' = committed w" and "outside w' = outside w" and "tx_time w' = tx_time w"
    and "row_locks w' = row_locks w @ leg_locks p wh (work w)" by simp_all
qed

end
