(* ===== verification/RecordMovement.thy ===== *)
theory RecordMovement
  imports InventoryCommand
begin

text \<open>
  What recording a movement does (InventoryCommandService.record_movement): the effect of
  the one or two stock legs on the inventories, the audit record, the commit, and the alert
  evaluation and event that follow it.
\<close>

section \<open>A leg of a movement\<close>

text \<open>
  The contract of \<open>_increase_stock\<close> and \<open>_decrease_stock\<close>: what a leg that returns did to
  the stock (with \<open>sign\<close> 1 or -1), and that a leg that raises committed and emitted nothing
  and took at most its own row lock.
\<close>

definition leg_done :: "uuid \<Rightarrow> uuid \<Rightarrow> int \<Rightarrow> uuid \<Rightarrow> 'x world \<Rightarrow> 'x world \<Rightarrow> bool" where
  "leg_done p wh q i w w' \<longleftrightarrow> stock_step p wh q i (work w) (work w') \<and>
     committed w' = committed w \<and> outside w' = outside w \<and> tx_time w' = tx_time w \<and>
     row_locks w' = row_locks w @ leg_locks p wh (work w) \<and> wh \<in> set (ids (warehouses (work w)))"

definition leg_refused :: "uuid \<Rightarrow> uuid \<Rightarrow> 'x world \<Rightarrow> 'x world \<Rightarrow> bool" where
  "leg_refused p wh w w' \<longleftrightarrow> committed w' = committed w \<and> outside w' = outside w \<and>
     (row_locks w' = row_locks w \<or> row_locks w' = row_locks w @ leg_locks p wh (work w))"

locale stock_leg =
  fixes leg :: "'x deps \<Rightarrow> uuid \<Rightarrow> uuid \<Rightarrow> int \<Rightarrow> ('x, uuid) service" and sign :: int
  assumes returns: "leg e p wh q w = (Inr i, w') \<Longrightarrow> constraints (work w) \<Longrightarrow>
      leg_done p wh (sign * q) i w w'"
    and raises: "leg e p wh q w = (Inl x, w') \<Longrightarrow> constraints (work w) \<Longrightarrow> leg_refused p wh w w'"

lemma set_quantity_Inl: "set_quantity i f w = (Inl x, w') \<Longrightarrow>
    committed w' = committed w \<and> outside w' = outside w \<and> row_locks w' = row_locks w"
  by (auto simp: set_quantity_run Let_def split: if_splits)

lemma create_inventory_frame:
  "create e inventories_table r w = (res, w') \<Longrightarrow>
    committed w' = committed w \<and> outside w' = outside w \<and> row_locks w' = row_locks w"
  by (auto simp: inventories_store.create_run Let_def split: if_splits)

lemma increase_stock_Inl:
  assumes run: "increase_stock e p wh q w = (Inl x, w')" and ok: "constraints (work w)"
  shows "leg_refused p wh w w'"
  using run unfolding increase_stock_run [OF ok] Let_def
  by (auto simp: leg_refused_def andthen_eq_Inl split: option.splits
      dest!: set_quantity_Inl create_inventory_frame)

lemma decrease_stock_Inl:
  assumes run: "decrease_stock e p wh q w = (Inl x, w')" and ok: "constraints (work w)"
  shows "leg_refused p wh w w'"
  using run unfolding decrease_stock_run [OF ok] Let_def
  by (auto simp: leg_refused_def split: option.splits if_splits dest!: set_quantity_Inl)

interpretation increase: stock_leg increase_stock 1
  by unfold_locales
    (simp_all add: leg_done_def increase_stock_Inr increase_stock_Inl)

interpretation decrease: stock_leg decrease_stock "-1"
  by unfold_locales
    (simp_all add: leg_done_def decrease_stock_Inr decrease_stock_Inl)

section \<open>Two legs of one transfer\<close>

lemma leg_locks_other:
  assumes "stock_step p a q i d d'" and "a \<noteq> b"
  shows "leg_locks p b d' = leg_locks p b d"
proof -
  have "(p, b) \<in> inv_pair ` set (inventories d') \<longleftrightarrow> (p, b) \<in> inv_pair ` set (inventories d)"
    (is "?l \<longleftrightarrow> ?r")
  proof
    assume ?l
    then obtain r where r: "r \<in> set (inventories d')" "inv_pair r = (p, b)" by auto
    with stock_stepD(6) [OF assms(1), of r] assms(2) have "r \<in> set (inventories d)" by auto
    then show ?r by (rule rev_image_eqI) (use r in simp)
  next
    assume ?r
    then obtain r where r: "r \<in> set (inventories d)" "inv_pair r = (p, b)" by auto
    with stock_stepD(5) [OF assms(1), of r] assms(2) have "r \<in> set (inventories d')" by auto
    then show ?l by (rule rev_image_eqI) (use r in simp)
  qed
  then show ?thesis by (simp add: leg_locks_def)
qed

text \<open>\<open>two_legs_done\<close>: the first leg's step, then the second's, and the locks in that order.\<close>

definition two_legs_done ::
  "uuid \<Rightarrow> uuid \<Rightarrow> int \<Rightarrow> uuid \<Rightarrow> uuid \<Rightarrow> int \<Rightarrow> uuid \<Rightarrow> 'x world \<Rightarrow> 'x world \<Rightarrow> bool" where
  "two_legs_done p a q i b q' j w w' \<longleftrightarrow>
     (\<exists>d. stock_step p a q i (work w) d \<and> stock_step p b q' j d (work w')) \<and>
     committed w' = committed w \<and> outside w' = outside w \<and> tx_time w' = tx_time w \<and>
     row_locks w' = row_locks w @ leg_locks p a (work w) @ leg_locks p b (work w)"

locale leg_pair = one: stock_leg leg sign + two: stock_leg leg' sign'
  for leg :: "'x deps \<Rightarrow> uuid \<Rightarrow> uuid \<Rightarrow> int \<Rightarrow> ('x, uuid) service" and sign :: int
    and leg' :: "'x deps \<Rightarrow> uuid \<Rightarrow> uuid \<Rightarrow> int \<Rightarrow> ('x, uuid) service" and sign' :: int
begin

lemma both:
  assumes run: "andthen (leg e p a q) (\<lambda>i. andthen (leg' e p b q) (\<lambda>j. ret (f i j))) w = (Inr r, w')"
    and ok: "constraints (work w)" and ab: "a \<noteq> b"
  obtains i j w1 where "r = f i j" "leg e p a q w = (Inr i, w1)" "leg' e p b q w1 = (Inr j, w')"
    "constraints (work w1)" "stock_step p a (sign * q) i (work w) (work w1)"
    "two_legs_done p a (sign * q) i b (sign' * q) j w w'"
proof -
  from run obtain i w1 where 1: "leg e p a q w = (Inr i, w1)"
    and rest: "andthen (leg' e p b q) (\<lambda>j. ret (f i j)) w1 = (Inr r, w')" by (rule andthen_InrE)
  from rest obtain j where 2: "leg' e p b q w1 = (Inr j, w')" and r: "r = f i j"
    by (auto simp: andthen_eq_Inr)
  note d1 = one.returns [OF 1 ok]
  then have st: "stock_step p a (sign * q) i (work w) (work w1)" by (simp add: leg_done_def)
  then have ok1: "constraints (work w1)" by (rule stock_stepD(2))
  from d1 two.returns [OF 2 ok1] have "two_legs_done p a (sign * q) i b (sign' * q) j w w'"
    by (auto simp: leg_done_def two_legs_done_def r leg_locks_other [OF st ab])
  then show thesis using that 1 2 r ok1 st by blast
qed

lemma either_raises:
  assumes run: "andthen (leg e p a q) (\<lambda>i. andthen (leg' e p b q) (\<lambda>j. ret (f i j))) w = (Inl x, w')"
    and ok: "constraints (work w)" and ab: "a \<noteq> b"
  shows "committed w' = committed w" "outside w' = outside w"
    "row_locks w' \<in> {row_locks w, row_locks w @ leg_locks p a (work w),
       row_locks w @ leg_locks p a (work w) @ leg_locks p b (work w)}"
proof -
  have "committed w' = committed w \<and> outside w' = outside w \<and>
    row_locks w' \<in> {row_locks w, row_locks w @ leg_locks p a (work w),
       row_locks w @ leg_locks p a (work w) @ leg_locks p b (work w)}"
  proof (cases "leg e p a q w")
    case (Pair res w1)
    show ?thesis
    proof (cases res)
      case (Inl y)
      then have "leg_refused p a w w'" using one.raises [OF _ ok, of e p a q] Pair run by simp
      then show ?thesis by (auto simp: leg_refused_def)
    next
      case (Inr i)
      with Pair have "leg_done p a (sign * q) i w w1" using one.returns [OF _ ok] by simp
      then have st: "stock_step p a (sign * q) i (work w) (work w1)"
        and f: "committed w1 = committed w" "outside w1 = outside w"
          "row_locks w1 = row_locks w @ leg_locks p a (work w)" by (simp_all add: leg_done_def)
      have "leg' e p b q w1 = (Inl x, w')"
        using run Pair Inr by (simp add: andthen_eq_Inl)
      from two.raises [OF this stock_stepD(2) [OF st]]
      show ?thesis by (auto simp: leg_refused_def f leg_locks_other [OF st ab])
    qed
  qed
  then show "committed w' = committed w" "outside w' = outside w"
    "row_locks w' \<in> {row_locks w, row_locks w @ leg_locks p a (work w),
       row_locks w @ leg_locks p a (work w) @ leg_locks p b (work w)}" by blast+
qed

end

interpretation source_first: leg_pair decrease_stock "-1" increase_stock 1
  by unfold_locales

interpretation destination_first: leg_pair increase_stock 1 decrease_stock "-1"
  by unfold_locales

lemma lock_order_cases:
  "lock_order s d = (if uuid_str s \<le> uuid_str d then [s, d] else [d, s])"
  by (simp add: lock_order_def)

lemma transfer_unfold: "s \<noteq> d \<Longrightarrow> transfer_stock e p s d q =
    (if uuid_str s \<le> uuid_str d
     then andthen (decrease_stock e p s q) (\<lambda>i. andthen (increase_stock e p d q) (\<lambda>j. ret (i, j)))
     else andthen (increase_stock e p d q) (\<lambda>j. andthen (decrease_stock e p s q) (\<lambda>i. ret (i, j))))"
  by (auto simp: transfer_stock_def lock_order_cases)

section \<open>The effect on the stock\<close>

text \<open>The warehouses a payload names, in the order of \<open>affected\<close>.\<close>

definition touched :: "movement_create \<Rightarrow> uuid list" where
  "touched x = (case mc_source_warehouse_id x of None \<Rightarrow> [] | Some s \<Rightarrow> [s]) @
     (case mc_destination_warehouse_id x of None \<Rightarrow> [] | Some d \<Rightarrow> [d])"

text \<open>
  \<open>movement_step x affected d d'\<close>: only the inventories changed; every stock changed by
  exactly what the movement says; the rows returned are those of the warehouses it names,
  in order; every other row is untouched, and no row was given a threshold of its own; a
  source had the quantity that was taken from it.
\<close>

definition own_thresholds :: "db \<Rightarrow> inventory set" where
  "own_thresholds d = {r \<in> set (inventories d). inv_low_stock_threshold r \<noteq> None}"

definition movement_step :: "movement_create \<Rightarrow> uuid list \<Rightarrow> db \<Rightarrow> db \<Rightarrow> bool" where
  "movement_step x affected d d' \<longleftrightarrow>
     d' = d\<lparr>inventories := inventories d'\<rparr> \<and> constraints d' \<and>
     (\<forall>p wh. stock_in (inventories d') p wh =
        stock_in (inventories d) p wh + movement_effect p wh (new_movement x None)) \<and>
     list_all2 (\<lambda>i wh. \<exists>r \<in> set (inventories d'). entity_id r = i \<and>
        inv_pair r = (mc_product_id x, wh)) affected (touched x) \<and>
     (\<forall>r \<in> set (inventories d). inv_product_id r = mc_product_id x \<and>
        inv_warehouse_id r \<in> set (touched x) \<or> r \<in> set (inventories d')) \<and>
     (own_thresholds d = {} \<longrightarrow> own_thresholds d' = {}) \<and>
     (\<forall>s. mc_source_warehouse_id x = Some s \<longrightarrow>
        mc_quantity x \<le> stock_in (inventories d) (mc_product_id x) s)"

lemma new_movement_sel [simp]:
  "mov_product_id (new_movement x u) = mc_product_id x" "mov_type (new_movement x u) = mc_movement_type x"
  "mov_quantity (new_movement x u) = mc_quantity x"
  "mov_source_warehouse_id (new_movement x u) = mc_source_warehouse_id x"
  "mov_destination_warehouse_id (new_movement x u) = mc_destination_warehouse_id x"
  "mov_reason (new_movement x u) = mc_reason x" "mov_performed_by (new_movement x u) = u"
  by (simp_all add: new_movement_def)

lemma stock_step_thresholds: "stock_step p wh q i d d' \<Longrightarrow> own_thresholds d = {} \<Longrightarrow> own_thresholds d' = {}"
  unfolding own_thresholds_def using stock_stepD(7) by fastforce

lemma movement_step_one:
  assumes st: "stock_step (mc_product_id x) wh q i d d'" and t: "touched x = [wh]"
    and eff: "\<And>p' wh'. movement_effect p' wh' (new_movement x None) =
        (if p' = mc_product_id x \<and> wh' = wh then q else 0)"
    and src: "\<And>s. mc_source_warehouse_id x = Some s \<Longrightarrow>
        mc_quantity x \<le> stock_in (inventories d) (mc_product_id x) s"
  shows "movement_step x [i] d d'"
  unfolding movement_step_def
proof (intro conjI allI ballI impI)
  show "d' = d\<lparr>inventories := inventories d'\<rparr>" and "constraints d'"
    by (rule stock_stepD [OF st])+
  show "stock_in (inventories d') p wh =
      stock_in (inventories d) p wh + movement_effect p wh (new_movement x None)" for p wh
    unfolding eff by (rule stock_stepD [OF st])
  show "list_all2 (\<lambda>i wh. \<exists>r \<in> set (inventories d'). entity_id r = i \<and>
        inv_pair r = (mc_product_id x, wh)) [i] (touched x)"
    using stock_stepD(4) [OF st] by (simp add: t)
  show "inv_product_id r = mc_product_id x \<and> inv_warehouse_id r \<in> set (touched x) \<or>
      r \<in> set (inventories d')" if "r \<in> set (inventories d)" for r
    using stock_stepD(5) [OF st that] by (auto simp: t)
  show "own_thresholds d' = {}" if "own_thresholds d = {}"
    by (rule stock_step_thresholds [OF st that])
qed (rule src)

text \<open>The two steps of a transfer, whichever leg went first.\<close>

lemma movement_step_two:
  assumes 1: "stock_step (mc_product_id x) a q i d d1" and 2: "stock_step (mc_product_id x) b q' j d1 d'"
    and ab: "a \<noteq> b"
    and t: "touched x = [a, b] \<and> affected = [i, j] \<or> touched x = [b, a] \<and> affected = [j, i]"
    and eff: "\<And>p' wh'. movement_effect p' wh' (new_movement x None) =
        (if p' = mc_product_id x \<and> wh' = a then q else 0) +
        (if p' = mc_product_id x \<and> wh' = b then q' else 0)"
    and src: "\<And>s. mc_source_warehouse_id x = Some s \<Longrightarrow>
        mc_quantity x \<le> stock_in (inventories d) (mc_product_id x) s"
  shows "movement_step x affected d d'"
  unfolding movement_step_def
proof (intro conjI allI ballI impI)
  let ?p = "mc_product_id x"
  show "d' = d\<lparr>inventories := inventories d'\<rparr>"
    using stock_stepD(1) [OF 1] stock_stepD(1) [OF 2] by (metis inventory_table_simps(2))
  show "constraints d'" by (rule stock_stepD [OF 2])
  show "stock_in (inventories d') p wh =
      stock_in (inventories d) p wh + movement_effect p wh (new_movement x None)" for p wh
    unfolding eff using stock_stepD(3) [OF 1, of p wh] stock_stepD(3) [OF 2, of p wh] by simp
  have b: "\<exists>r \<in> set (inventories d'). entity_id r = j \<and> inv_pair r = (?p, b)"
    by (rule stock_stepD(4) [OF 2])
  obtain r where r: "r \<in> set (inventories d1)" "entity_id r = i" "inv_pair r = (?p, a)"
    using stock_stepD(4) [OF 1] by blast
  then have "r \<in> set (inventories d')" using stock_stepD(5) [OF 2, of r] ab by simp
  with r have a: "\<exists>r \<in> set (inventories d'). entity_id r = i \<and> inv_pair r = (?p, a)" by blast
  show "list_all2 (\<lambda>i wh. \<exists>r \<in> set (inventories d'). entity_id r = i \<and>
        inv_pair r = (?p, wh)) affected (touched x)"
    using t a b by auto
  show "inv_product_id r = ?p \<and> inv_warehouse_id r \<in> set (touched x) \<or> r \<in> set (inventories d')"
    if "r \<in> set (inventories d)" for r
  proof -
    have "set (touched x) = {a, b}" using t by auto
    then show ?thesis
      using stock_stepD(5) [OF 1 that] stock_stepD(5) [OF 2, of r]
      by (cases "inv_pair r = (?p, a)"; cases "inv_pair r = (?p, b)") simp_all
  qed
  show "own_thresholds d' = {}" if "own_thresholds d = {}"
    by (rule stock_step_thresholds [OF 2 stock_step_thresholds [OF 1 that]])
qed (rule src)

text \<open>\<open>applied x affected w w'\<close>: the stock part of the movement was carried out in the session.\<close>

definition applied :: "movement_create \<Rightarrow> uuid list \<Rightarrow> 'x world \<Rightarrow> 'x world \<Rightarrow> bool" where
  "applied x affected w w' \<longleftrightarrow> movement_step x affected (work w) (work w') \<and>
     committed w' = committed w \<and> outside w' = outside w \<and> tx_time w' = tx_time w"

lemma transfer_applied:
  assumes run: "transfer_stock e (mc_product_id x) s d (mc_quantity x) w = (Inr (i, j), w')"
    and ok: "constraints (work w)" and sd: "s \<noteq> d"
    and x: "mc_source_warehouse_id x = Some s" "mc_destination_warehouse_id x = Some d"
  shows "applied x [i, j] w w'"
proof (cases "uuid_str s \<le> uuid_str d")
  case True
  let ?p = "mc_product_id x" and ?q = "mc_quantity x"
  from run True sd have r: "andthen (decrease_stock e ?p s ?q) (\<lambda>i.
      andthen (increase_stock e ?p d ?q) (\<lambda>j. ret (i, j))) w = (Inr (i, j), w')"
    by (simp add: transfer_unfold)
  then show ?thesis
  proof (rule source_first.both [OF _ ok sd])
    fix i' j' w1
    assume ij: "(i, j) = (i', j')" and dec: "decrease_stock e ?p s ?q w = (Inr i', w1)"
      and legs: "two_legs_done ?p s (- 1 * ?q) i' d (1 * ?q) j' w w'"
    from legs obtain d1 where "stock_step ?p s (- ?q) i (work w) d1" "stock_step ?p d ?q j d1 (work w')"
      using ij by (auto simp: two_legs_done_def)
    then have "movement_step x [i, j] (work w) (work w')"
      by (rule movement_step_two [OF _ _ sd])
        (use x decrease_stock_Inr(6) [OF dec ok] in \<open>auto simp: touched_def movement_effect_def\<close>)
    with legs show ?thesis by (simp add: applied_def two_legs_done_def)
  qed
next
  case False
  let ?p = "mc_product_id x" and ?q = "mc_quantity x"
  from run False sd have r: "andthen (increase_stock e ?p d ?q) (\<lambda>j.
      andthen (decrease_stock e ?p s ?q) (\<lambda>i. ret (i, j))) w = (Inr (i, j), w')"
    by (simp add: transfer_unfold)
  then show ?thesis
  proof (rule destination_first.both [OF _ ok sd [symmetric]])
    fix j' i' w1
    assume ij: "(i, j) = (i', j')" and dec: "decrease_stock e ?p s ?q w1 = (Inr i', w')"
      and ok1: "constraints (work w1)" and st: "stock_step ?p d (1 * ?q) j' (work w) (work w1)"
      and legs: "two_legs_done ?p d (1 * ?q) j' s (- 1 * ?q) i' w w'"
    from legs obtain d1 where "stock_step ?p d ?q j (work w) d1" "stock_step ?p s (- ?q) i d1 (work w')"
      using ij by (auto simp: two_legs_done_def)
    moreover have "?q \<le> stock_in (inventories (work w)) ?p s"
      using decrease_stock_Inr(6) [OF dec ok1] stock_stepD(3) [OF st, of ?p s] sd by simp
    ultimately have "movement_step x [i, j] (work w) (work w')"
      by (elim movement_step_two [OF _ _ sd [symmetric]])
        (use x in \<open>auto simp: touched_def movement_effect_def\<close>)
    with legs show ?thesis by (simp add: applied_def two_legs_done_def)
  qed
qed

lemma apply_movement_Inr:
  assumes x: "movement_create_ok x" and run: "apply_movement e x w = (Inr affected, w')"
    and ok: "constraints (work w)"
  shows "applied x affected w w'"
  using x
proof (cases rule: movement_create_ok_cases)
  case (IN d)
  with run obtain i where i: "increase_stock e (mc_product_id x) d (mc_quantity x) w = (Inr i, w')"
    and a: "affected = [i]" by (auto simp: apply_movement_def andthen_eq_Inr)
  have "movement_step x [i] (work w) (work w')"
    by (rule movement_step_one [OF increase_stock_Inr(1) [OF i ok]])
      (use IN in \<open>auto simp: touched_def movement_effect_def\<close>)
  then show ?thesis using increase_stock_Inr(2-4) [OF i ok] by (simp add: applied_def a)
next
  case (OUT s)
  with run obtain i where i: "decrease_stock e (mc_product_id x) s (mc_quantity x) w = (Inr i, w')"
    and a: "affected = [i]" by (auto simp: apply_movement_def andthen_eq_Inr)
  have "movement_step x [i] (work w) (work w')"
    by (rule movement_step_one [OF decrease_stock_Inr(1) [OF i ok]])
      (use OUT decrease_stock_Inr(6) [OF i ok] in \<open>auto simp: touched_def movement_effect_def\<close>)
  then show ?thesis using decrease_stock_Inr(2-4) [OF i ok] by (simp add: applied_def a)
next
  case (TRANSFER s d)
  with run obtain i j where t: "transfer_stock e (mc_product_id x) s d (mc_quantity x) w = (Inr (i, j), w')"
    and a: "affected = [i, j]" by (auto simp: apply_movement_def andthen_eq_Inr)
  show ?thesis unfolding a by (rule transfer_applied [OF t ok TRANSFER(4,2,3)])
qed

lemma apply_movement_Inl:
  assumes x: "movement_create_ok x" and run: "apply_movement e x w = (Inl y, w')"
    and ok: "constraints (work w)"
  shows "committed w' = committed w" and "outside w' = outside w"
proof -
  have "committed w' = committed w \<and> outside w' = outside w"
    using x
  proof (cases rule: movement_create_ok_cases)
    case (IN d)
    with run have "increase_stock e (mc_product_id x) d (mc_quantity x) w = (Inl y, w')"
      by (auto simp: apply_movement_def andthen_eq_Inl)
    from increase_stock_Inl [OF this ok] show ?thesis by (simp add: leg_refused_def)
  next
    case (OUT s)
    with run have "decrease_stock e (mc_product_id x) s (mc_quantity x) w = (Inl y, w')"
      by (auto simp: apply_movement_def andthen_eq_Inl)
    from decrease_stock_Inl [OF this ok] show ?thesis by (simp add: leg_refused_def)
  next
    case (TRANSFER s d)
    with run have t: "transfer_stock e (mc_product_id x) s d (mc_quantity x) w = (Inl y, w')"
      by (auto simp: apply_movement_def andthen_eq_Inl split: prod.splits)
    then show ?thesis
      using source_first.either_raises [OF _ ok TRANSFER(4)]
        destination_first.either_raises [OF _ ok TRANSFER(4) [symmetric]]
      by (auto simp: transfer_unfold [OF TRANSFER(4)] split: if_splits)
  qed
  then show "committed w' = committed w" and "outside w' = outside w" by simp_all
qed

section \<open>Recording: the transaction\<close>

text \<open>What follows the commit: the evaluations, then the event.\<close>

definition evaluate_affected :: "'x deps \<Rightarrow> uuid list \<Rightarrow> ('x, unit) service" where
  "evaluate_affected e = for_each (\<lambda>i. andthen (held inventories_table i) (evaluate_stock_level e))"

definition after_commit :: "'x deps \<Rightarrow> movement_create \<Rightarrow> uuid list \<Rightarrow> movement \<Rightarrow> ('x, movement) service" where
  "after_commit e x affected m = andthen (evaluate_affected e affected) (\<lambda>_.
     andthen (build_movement_event e x affected) (\<lambda>ev. andthen (publish e ev) (\<lambda>_. ret m)))"

text \<open>
  \<open>recorded x u affected w w1 m\<close>: the transaction begun in \<open>w\<close> committed, in \<open>w1\<close>, the
  movement's effect on the stock together with its audit record \<open>m\<close>.
\<close>

definition recorded ::
  "movement_create \<Rightarrow> uuid option \<Rightarrow> uuid list \<Rightarrow> 'x world \<Rightarrow> 'x world \<Rightarrow> movement \<Rightarrow> bool" where
  "recorded x u affected w w1 m \<longleftrightarrow>
     (\<exists>d. movement_step x affected (work w) d \<and> committed w1 = d\<lparr>movements := movements d @ [m]\<rparr>) \<and>
     (\<exists>i. m = stamped i (tx_time w) (new_movement x u)) \<and> work w1 = committed w1 \<and>
     constraints (committed w1) \<and> outside w1 = outside w"

lemma record_movement_alt: "record_movement e x u =
    andthen (get_by_id_or_raise products_table (mc_product_id x)) (\<lambda>_.
    andthen (apply_movement e x) (\<lambda>affected.
    andthen (create e movements_table (new_movement x u)) (\<lambda>m.
    andthen (commit e) (\<lambda>_. after_commit e x affected m))))"
  by (simp add: record_movement_def after_commit_def evaluate_affected_def)

text \<open>The part of the method that is one transaction, up to its commit.\<close>

definition movement_transaction ::
  "'x deps \<Rightarrow> movement_create \<Rightarrow> uuid option \<Rightarrow> ('x, uuid list \<times> movement) service" where
  "movement_transaction e x u =
     andthen (get_by_id_or_raise products_table (mc_product_id x)) (\<lambda>_.
     andthen (apply_movement e x) (\<lambda>affected.
     andthen (create e movements_table (new_movement x u)) (\<lambda>m.
     andthen (commit e) (\<lambda>_. ret (affected, m)))))"

lemma record_movement_split:
  "record_movement e x u = andthen (movement_transaction e x u) (\<lambda>(affected, m). after_commit e x affected m)"
  by (simp add: record_movement_alt movement_transaction_def andthen_assoc)

text \<open>Either nothing was committed or published, or the movement was recorded.\<close>

lemma record_movement_cases:
  assumes x: "movement_create_ok x" and ok: "constraints (work w)"
  obtains (rejected) y w' where "record_movement e x u w = (Inl y, w')"
      "committed w' = committed w" "outside w' = outside w"
  | (accepted) affected m w1 where "recorded x u affected w w1 m"
      "record_movement e x u w = after_commit e x affected m w1"
proof (cases "get_by_id_or_raise products_table (mc_product_id x) w")
  case p: (Pair res wp)
  then have wp: "wp = w" by (auto simp: get_by_id_or_raise_run)
  show thesis
  proof (cases res)
    case (Inl y)
    with p wp show thesis by (intro rejected) (simp_all add: record_movement_alt)
  next
    case product: (Inr r)
    show thesis
    proof (cases "apply_movement e x w")
      case a: (Pair res w2)
      show thesis
      proof (cases res)
        case (Inl y)
        with a have run: "apply_movement e x w = (Inl y, w2)" by simp
        have "record_movement e x u w = (Inl y, w2)"
          using p wp product run by (simp add: record_movement_alt)
        then show thesis
          by (rule rejected) (rule apply_movement_Inl [OF x run ok])+
      next
        case (Inr affected)
        with a have run: "apply_movement e x w = (Inr affected, w2)" by simp
        note ap = apply_movement_Inr [OF x run ok, unfolded applied_def]
        let ?m = "stamped (uuid4 e (tick w2)) (tx_time w2) (new_movement x u)"
        let ?w3 = "w2\<lparr>work := with_row movements_table ?m (work w2), tick := Suc (tick w2)\<rparr>"
        have rec: "record_movement e x u w =
            (if constraints (work ?w3) then after_commit e x affected ?m (committed_world e ?w3)
             else (Inl DatabaseError, ?w3))"
          using p wp product run
          by (simp add: record_movement_alt movements_store.create_run andthen_def commit_run Let_def)
        show thesis
        proof (cases "constraints (work ?w3)")
          case True
          have "recorded x u affected w (committed_world e ?w3) ?m"
            using ap True by (auto simp: recorded_def)
          with rec True show thesis by (intro accepted) auto
        next
          case False
          then have "record_movement e x u w = (Inl DatabaseError, ?w3)" by (simp add: rec)
          then show thesis by (rule rejected) (simp_all add: ap)
        qed
      qed
    qed
  qed
qed

section \<open>Recording: the alerts\<close>

definition reconciled :: "'x deps \<Rightarrow> db \<Rightarrow> inventory \<Rightarrow> bool" where
  "reconciled e d r \<longleftrightarrow> map al_alert_type (active_alerts d (inv_product_id r) (inv_warehouse_id r)) =
     (case wanted e r of None \<Rightarrow> [] | Some k \<Rightarrow> [k])"

lemma alert_step_reconciles:
  assumes st: "alert_step (inv_product_id r) (inv_warehouse_id r) (wanted e r) d d'"
    and ok: "constraints d" and r: "r \<in> set (inventories d)"
  shows "reconciled e d' r"
    and "s \<in> set (inventories d) \<Longrightarrow> reconciled e d s \<Longrightarrow> reconciled e d' s"
proof -
  show now: "reconciled e d' r" using st by (simp add: alert_step_def reconciled_def)
  assume s: "s \<in> set (inventories d)" and rs: "reconciled e d s"
  show "reconciled e d' s"
  proof (cases "inv_pair s = inv_pair r")
    case True
    have "distinct (map inv_pair (inventories d))" using ok by (simp add: constraint_defs)
    with True s r have "s = r" by (auto simp: distinct_map inj_on_def)
    with now show ?thesis by simp
  next
    case False
    then have "active_alerts d' (inv_product_id s) (inv_warehouse_id s) =
        active_alerts d (inv_product_id s) (inv_warehouse_id s)"
      using st by (simp add: alert_step_def)
    with rs show ?thesis by (simp add: reconciled_def)
  qed
qed

lemma held_run: "held inventories_table i w = (case find (\<lambda>r. entity_id r = i) (inventories (work w)) of
    None \<Rightarrow> (Inl DatabaseError, w) | Some r \<Rightarrow> (Inr r, w))"
  by (simp add: held_def refresh_def)

lemma int4_quantity: "constraints d \<Longrightarrow> r \<in> set (inventories d) \<Longrightarrow> int4 (inv_quantity r)"
  by (simp add: constraint_defs)

text \<open>
  The loop over the affected rows: what is committed at its end, or where it raised, is
  reached by alert steps; when it ends, every affected row is reconciled.
\<close>

lemma evaluate_affected_steps:
  assumes "evaluate_affected e is w = (res, w')" and "constraints (work w)" and "committed w = work w"
  shows "alert_steps (work w) (committed w')"
    and "res = Inr () \<Longrightarrow> committed w' = work w'"
    and "res = Inr () \<Longrightarrow> r \<in> set (inventories (work w)) \<Longrightarrow>
        entity_id r \<in> set is \<or> reconciled e (work w) r \<Longrightarrow> reconciled e (work w') r"
proof -
  have "alert_steps (work w) (committed w') \<and> (res = Inr () \<longrightarrow> committed w' = work w' \<and>
     (\<forall>r \<in> set (inventories (work w)). entity_id r \<in> set is \<or> reconciled e (work w) r \<longrightarrow>
        reconciled e (work w') r))"
    using assms
  proof (induction "is" arbitrary: w)
    case Nil
    then show ?case by (auto simp: evaluate_affected_def)
  next
    case (Cons i js)
    note ok = Cons.prems(2) and comm = Cons.prems(3)
    have rec: "evaluate_affected e (i # js) w = andthen (held inventories_table i)
        (\<lambda>r. andthen (evaluate_stock_level e r) (\<lambda>_. evaluate_affected e js)) w"
      by (simp add: evaluate_affected_def andthen_assoc)
    show ?case
    proof (cases "find (\<lambda>r. entity_id r = i) (inventories (work w))")
      case None
      with Cons.prems(1) comm show ?thesis by (auto simp: rec andthen_def held_run)
    next
      case (Some r)
      then have r: "r \<in> set (inventories (work w))" "entity_id r = i" by (auto dest: find_SomeD)
      note q = int4_quantity [OF ok r(1)]
      from Some Cons.prems(1) have run:
        "andthen (evaluate_stock_level e r) (\<lambda>_. evaluate_affected e js) w = (res, w')"
        by (simp add: rec andthen_def held_run)
      obtain rv w1 where ev: "evaluate_stock_level e r w = (rv, w1)" by fastforce
      show ?thesis
      proof (cases rv)
        case (Inl y)
        then have "evaluate_stock_level e r w = (Inl y, w1)" using ev by simp
        from evaluate_raises(1) [OF this ok q] this run comm show ?thesis by auto
      next
        case (Inr a)
        then have ev: "evaluate_stock_level e r w = (Inr a, w1)" using ev by simp
        note st = evaluate_step [OF ev ok q]
        have ok1: "constraints (work w1)" using st(1) by (simp add: alert_step_def)
        have comm1: "committed w1 = work w1" using st(2) comm by auto
        from ev run have js: "evaluate_affected e js w1 = (res, w')" by simp
        note IH = Cons.IH [OF js ok1 comm1]
        have steps: "alert_steps (work w) (work w1)" by (rule alert_step_steps [OF st(1,4)])
        have inv: "inventories (work w1) = inventories (work w)"
          by (rule alert_steps_tables(1) [OF steps])
        have "reconciled e (work w1) s"
          if "s \<in> set (inventories (work w))" "entity_id s = i \<or> reconciled e (work w) s" for s
        proof -
          have "distinct (ids (inventories (work w)))" using ok by (simp add: constraint_defs)
          then have "s = r" if "entity_id s = i"
            using that r \<open>s \<in> _\<close> by (auto simp: ids_def distinct_map inj_on_def)
          with alert_step_reconciles [OF st(1) ok r(1)] that show ?thesis by blast
        qed
        with IH steps inv show ?thesis by auto
      qed
    qed
  qed
  then show "alert_steps (work w) (committed w')"
    and "res = Inr () \<Longrightarrow> committed w' = work w'"
    and "res = Inr () \<Longrightarrow> r \<in> set (inventories (work w)) \<Longrightarrow>
        entity_id r \<in> set is \<or> reconciled e (work w) r \<Longrightarrow> reconciled e (work w') r" by blast+
qed

section \<open>Recording: the event\<close>

text \<open>The event the movement deserves, read off the committed database.\<close>

definition movement_event :: "movement_create \<Rightarrow> db \<Rightarrow> event_body option" where
  "movement_event x d =
     (let p = mc_product_id x; q = mc_quantity x in
      case (mc_source_warehouse_id x, mc_destination_warehouse_id x) of
        (None, Some t) \<Rightarrow> Some (StockReceivedEvent p t q (stock_in (inventories d) p t))
      | (Some s, None) \<Rightarrow> Some (StockRemovedEvent p s q (stock_in (inventories d) p s))
      | (Some s, Some t) \<Rightarrow> Some (StockTransferredEvent p s t q)
      | (None, None) \<Rightarrow> None)"

lemma held_affected:
  assumes row: "\<exists>r \<in> set (inventories (work w)). entity_id r = i \<and> inv_pair r = (p, wh)"
    and ok: "constraints (work w)"
  obtains r where "held inventories_table i w = (Inr r, w)" "entity_id r = i" "inv_pair r = (p, wh)"
    "inv_quantity r = stock_in (inventories (work w)) p wh" "r \<in> set (inventories (work w))"
proof -
  obtain r where r: "r \<in> set (inventories (work w))" "entity_id r = i" "inv_pair r = (p, wh)"
    using row by blast
  have "distinct (map inv_pair (inventories (work w)))" using ok by (simp add: constraint_defs)
  from stock_in_row [OF this r(1)] r(3)
  have "inv_quantity r = stock_in (inventories (work w)) p wh" by simp
  moreover have "held inventories_table i w = (Inr r, w)"
    using inventories_store.refresh_run [of r w] r ok by (simp add: held_def)
  ultimately show thesis using that r by blast
qed

lemma build_movement_event_run:
  assumes x: "movement_create_ok x" and ok: "constraints (work w)"
    and rows: "list_all2 (\<lambda>i wh. \<exists>r \<in> set (inventories (work w)). entity_id r = i \<and>
        inv_pair r = (mc_product_id x, wh)) affected (touched x)"
  obtains b where "movement_event x (work w) = Some b"
    "build_movement_event e x affected w =
       (Inr \<lparr>event_id = uuid4 e (tick w), occurred_at = clock e (Suc (tick w)), body = b\<rparr>,
        w\<lparr>tick := Suc (Suc (tick w))\<rparr>)"
proof -
  obtain wh whs where t: "touched x = wh # whs"
    using x by (cases rule: movement_create_ok_cases) (auto simp: touched_def)
  then obtain i js where a: "affected = i # js"
    using rows by (auto simp: list_all2_Cons2)
  with rows t have "\<exists>r \<in> set (inventories (work w)). entity_id r = i \<and> inv_pair r = (mc_product_id x, wh)"
    by simp
  then obtain r where held: "held inventories_table i w = (Inr r, w)"
    and q: "inv_quantity r = stock_in (inventories (work w)) (mc_product_id x) wh"
    using held_affected [OF _ ok] by metis
  from x obtain b where b: "movement_event x (work w) = Some b" "movement_event_body x r = Inr b"
    by (cases rule: movement_create_ok_cases)
      (use t q in \<open>auto simp: movement_event_def movement_event_body_def touched_def Let_def\<close>)
  then show thesis
    by (intro that [OF b(1)]) (simp add: build_movement_event_def a andthen_def held new_event_run)
qed

section \<open>Recording: the whole operation\<close>

text \<open>
  \<open>movement_committed\<close> specifies the operation on the committed database: the stock moved
  by the movement's effect, one audit record appended, then alerts reconciled.
\<close>

definition movement_committed :: "movement_create \<Rightarrow> uuid option \<Rightarrow> db \<Rightarrow> db \<Rightarrow> bool" where
  "movement_committed x u d d' \<longleftrightarrow> (\<exists>affected d1 i now.
     movement_step x affected d d1 \<and>
     constraints (d1\<lparr>movements := movements d1 @ [stamped i now (new_movement x u)]\<rparr>) \<and>
     alert_steps (d1\<lparr>movements := movements d1 @ [stamped i now (new_movement x u)]\<rparr>) d')"

lemma recorded_rows:
  assumes "recorded x u affected w w1 m"
  shows "list_all2 (\<lambda>i wh. \<exists>r \<in> set (inventories (work w1)). entity_id r = i \<and>
      inv_pair r = (mc_product_id x, wh)) affected (touched x)"
  using assms by (auto simp: recorded_def movement_step_def)

lemma after_commit_cases:
  assumes x: "movement_create_ok x" and rec: "recorded x u affected w w1 m"
  obtains (raised) y w' where "after_commit e x affected m w1 = (Inl y, w')"
      "alert_steps (committed w1) (committed w')"
      "evaluate_affected e affected w1 = (Inl y, w')"
  | (published) b w2 w' where "after_commit e x affected m w1 = (Inr m, w')"
      "alert_steps (committed w1) (committed w')"
      "evaluate_affected e affected w1 = (Inr (), w2)" "committed w' = committed w2"
      "movement_event x (committed w') = Some b"
      "outside w' = event_publish e \<lparr>event_id = uuid4 e (tick w2),
         occurred_at = clock e (Suc (tick w2)), body = b\<rparr> (outside w2)"
      "\<forall>r \<in> set (inventories (committed w')). inv_product_id r = mc_product_id x \<and>
         inv_warehouse_id r \<in> set (touched x) \<longrightarrow> reconciled e (committed w') r"
      "committed w' = work w'" "work w' = work w2" "tick w' = Suc (Suc (tick w2))"
proof -
  have ok: "constraints (work w1)" and comm: "committed w1 = work w1"
    using rec by (auto simp: recorded_def)
  obtain res w2 where ev: "evaluate_affected e affected w1 = (res, w2)" by fastforce
  note st = evaluate_affected_steps [OF ev ok comm]
  show thesis
  proof (cases res)
    case (Inl y)
    show thesis
      by (rule raised [of y w2]) (use Inl ev st(1) comm in \<open>simp_all add: after_commit_def\<close>)
  next
    case (Inr u')
    then have comm2: "committed w2 = work w2" using st(2) by simp
    from st(1) have steps: "alert_steps (work w1) (work w2)" by (simp add: comm2)
    have ok2: "constraints (work w2)" by (rule alert_steps_constraints [OF steps ok])
    have inv: "inventories (work w2) = inventories (work w1)" by (rule alert_steps_tables(1) [OF steps])
    have rows: "list_all2 (\<lambda>i wh. \<exists>r \<in> set (inventories (work w2)). entity_id r = i \<and>
        inv_pair r = (mc_product_id x, wh)) affected (touched x)"
      using recorded_rows [OF rec] by (simp add: inv)
    obtain b where b: "movement_event x (work w2) = Some b"
      and be: "build_movement_event e x affected w2 =
       (Inr \<lparr>event_id = uuid4 e (tick w2), occurred_at = clock e (Suc (tick w2)), body = b\<rparr>,
        w2\<lparr>tick := Suc (Suc (tick w2))\<rparr>)"
      by (rule build_movement_event_run [OF x ok2 rows])
    let ?ev = "\<lparr>event_id = uuid4 e (tick w2), occurred_at = clock e (Suc (tick w2)), body = b\<rparr>"
    let ?w' = "w2\<lparr>tick := Suc (Suc (tick w2)), outside := event_publish e ?ev (outside w2)\<rparr>"
    have run: "after_commit e x affected m w1 = (Inr m, ?w')"
      using ev Inr be by (simp add: after_commit_def andthen_def publish_def)
    have "reconciled e (work w2) r" if r: "r \<in> set (inventories (work w2))"
      "inv_product_id r = mc_product_id x" "inv_warehouse_id r \<in> set (touched x)" for r
    proof -
      obtain i r' where i: "i \<in> set affected" and r': "r' \<in> set (inventories (work w2))"
        "entity_id r' = i" "inv_pair r' = (mc_product_id x, inv_warehouse_id r)"
        using list_all2_right [OF rows r(3)] by blast
      have "distinct (map inv_pair (inventories (work w2)))" using ok2 by (simp add: constraint_defs)
      then have "r = r'" using r r' by (auto simp: distinct_map inj_on_def)
      then show ?thesis using st(3) i r r' Inr by (simp add: inv)
    qed
    then show thesis
      by (intro published [OF run, of w2 b]) (use steps ev Inr b comm comm2 in simp_all)
  qed
qed

lemma movement_committedI:
  assumes "recorded x u affected w w1 m" and "alert_steps (committed w1) d'"
  shows "movement_committed x u (work w) d'"
  using assms unfolding recorded_def movement_committed_def by metis

text \<open>What the committed database can be afterwards, whatever the outcome.\<close>

lemma record_movement_committed:
  assumes x: "movement_create_ok x" and ok: "constraints (work w)"
    and run: "record_movement e x u w = (res, w')"
  shows "committed w' = committed w \<and> outside w' = outside w \<and> (\<exists>y. res = Inl y) \<or>
    movement_committed x u (work w) (committed w')"
  using x ok
proof (cases rule: record_movement_cases [where e = e and u = u])
  case (rejected y w2)
  with run show ?thesis by auto
next
  case (accepted affected m w1)
  show ?thesis
    by (cases rule: after_commit_cases [OF x accepted(1), of e])
      (use run accepted in \<open>auto intro: movement_committedI\<close>)
qed

section \<open>Invariants\<close>

definition ledger_ok :: "db \<Rightarrow> bool" where
  "ledger_ok d \<longleftrightarrow> (\<forall>p wh. stock_in (inventories d) p wh = ledger_balance (movements d) p wh)"

definition stock_nonneg :: "db \<Rightarrow> bool" where
  "stock_nonneg d \<longleftrightarrow> (\<forall>p wh. 0 \<le> stock_in (inventories d) p wh)"

text \<open>The audit trail: what was recorded is never changed or removed.\<close>

definition trail_extends :: "db \<Rightarrow> db \<Rightarrow> bool" where
  "trail_extends d d' \<longleftrightarrow> (\<exists>ms. movements d' = movements d @ ms)"

lemma movement_effect_stamped [simp]:
  "movement_effect p wh (stamped i now (new_movement x u)) = movement_effect p wh (new_movement x None)"
  by (simp add: movement_effect_def stamped_def new_movement_def)

lemma movement_step_movements: "movement_step x affected d d1 \<Longrightarrow> movements d1 = movements d"
  unfolding movement_step_def by (metis db.select_convs(4) db.surjective db.update_convs(3))

lemma movement_step_alerts: "movement_step x affected d d1 \<Longrightarrow> alerts d1 = alerts d"
  unfolding movement_step_def by (metis db.select_convs(5) db.surjective db.update_convs(3))

lemma movement_committed_trail:
  assumes "movement_committed x u d d'"
  obtains m where "movements d' = movements d @ [m]" "mov_product_id m = mc_product_id x"
    "mov_type m = mc_movement_type x" "mov_quantity m = mc_quantity x"
    "mov_source_warehouse_id m = mc_source_warehouse_id x"
    "mov_destination_warehouse_id m = mc_destination_warehouse_id x" "mov_performed_by m = u"
    "mov_reason m = mc_reason x"
proof -
  from assms obtain affected d1 i now where 1: "movement_step x affected d d1"
    and 2: "alert_steps (d1\<lparr>movements := movements d1 @ [stamped i now (new_movement x u)]\<rparr>) d'"
    unfolding movement_committed_def by blast
  have "movements d' = movements d @ [stamped i now (new_movement x u)]"
    using alert_steps_tables(2) [OF 2] movement_step_movements [OF 1] by simp
  then show thesis by (rule that) (simp_all add: stamped_def new_movement_def)
qed

lemma movement_step_catalogue:
  "movement_step x affected d d1 \<Longrightarrow> warehouses d1 = warehouses d \<and> products d1 = products d"
  unfolding movement_step_def by (metis db.select_convs(1,2) db.surjective db.update_convs(3))

lemma movement_committed_catalogue:
  assumes "movement_committed x u d d'"
  shows "warehouses d' = warehouses d \<and> products d' = products d"
proof -
  from assms obtain affected d1 i now where 1: "movement_step x affected d d1"
    and 2: "alert_steps (d1\<lparr>movements := movements d1 @ [stamped i now (new_movement x u)]\<rparr>) d'"
    unfolding movement_committed_def by blast
  show ?thesis using movement_step_catalogue [OF 1] alert_steps_tables(3,4) [OF 2] by simp
qed

lemma movement_committed_stock:
  assumes "movement_committed x u d d'"
  shows "stock_in (inventories d') p wh =
      stock_in (inventories d) p wh + movement_effect p wh (new_movement x None)"
    and "ledger_balance (movements d') p wh =
      ledger_balance (movements d) p wh + movement_effect p wh (new_movement x None)"
    and "mc_source_warehouse_id x = Some s \<Longrightarrow> mc_quantity x \<le> stock_in (inventories d) (mc_product_id x) s"
    and "constraints d'" and "own_thresholds d = {} \<Longrightarrow> own_thresholds d' = {}"
    and "one_active d \<Longrightarrow> one_active d'"
proof -
  from assms obtain affected d1 i now where 1: "movement_step x affected d d1"
    and ok: "constraints (d1\<lparr>movements := movements d1 @ [stamped i now (new_movement x u)]\<rparr>)"
    and 2: "alert_steps (d1\<lparr>movements := movements d1 @ [stamped i now (new_movement x u)]\<rparr>) d'"
    unfolding movement_committed_def by blast
  note t = alert_steps_tables [OF 2]
  show "stock_in (inventories d') p wh =
      stock_in (inventories d) p wh + movement_effect p wh (new_movement x None)"
    using 1 by (simp add: t movement_step_def)
  show "ledger_balance (movements d') p wh =
      ledger_balance (movements d) p wh + movement_effect p wh (new_movement x None)"
    by (simp add: t movement_step_movements [OF 1])
  show "mc_source_warehouse_id x = Some s \<Longrightarrow> mc_quantity x \<le> stock_in (inventories d) (mc_product_id x) s"
    using 1 by (simp add: movement_step_def)
  show "constraints d'" by (rule alert_steps_constraints [OF 2 ok])
  show "own_thresholds d = {} \<Longrightarrow> own_thresholds d' = {}"
    using 1 by (simp add: t movement_step_def own_thresholds_def)
  show "one_active d \<Longrightarrow> one_active d'"
    by (rule alert_steps_one_active [OF 2])
      (simp add: one_active_def active_alerts_def movement_step_alerts [OF 1])
qed

lemma movement_committed_ledger: "movement_committed x u d d' \<Longrightarrow> ledger_ok d \<Longrightarrow> ledger_ok d'"
  by (simp add: ledger_ok_def movement_committed_stock)

lemma movement_committed_nonneg:
  assumes mv: "movement_committed x u d d'" and x: "movement_create_ok x" and nn: "stock_nonneg d"
  shows "stock_nonneg d'"
  unfolding stock_nonneg_def
proof (intro allI)
  fix p wh
  have old: "0 \<le> stock_in (inventories d) p wh" using nn by (simp add: stock_nonneg_def)
  have "0 < mc_quantity x" using x by (simp add: movement_create_ok_def movement_create_fields_ok_def)
  then show "0 \<le> stock_in (inventories d') p wh"
    using old movement_committed_stock(3) [OF mv, of wh]
    by (auto simp: movement_committed_stock(1) [OF mv] movement_effect_def)
qed

text \<open>What a movement that returned has done.\<close>

lemma recorded_sel:
  assumes "recorded x u affected w w1 m"
  shows "mov_product_id m = mc_product_id x" "mov_type m = mc_movement_type x"
    "mov_quantity m = mc_quantity x" "mov_source_warehouse_id m = mc_source_warehouse_id x"
    "mov_destination_warehouse_id m = mc_destination_warehouse_id x" "mov_performed_by m = u"
    "movements (committed w1) = movements (work w) @ [m]"
  using assms by (auto simp: recorded_def stamped_def new_movement_def dest: movement_step_movements)

lemma record_movement_done:
  assumes x: "movement_create_ok x" and ok: "constraints (work w)"
    and run: "record_movement e x u w = (Inr m, w')"
  obtains "movement_committed x u (work w) (committed w')"
    and "movements (committed w') = movements (work w) @ [m]"
    and "mov_type m = mc_movement_type x" and "mov_quantity m = mc_quantity x"
    and "\<And>r. r \<in> set (inventories (committed w')) \<Longrightarrow> inv_product_id r = mc_product_id x \<Longrightarrow>
        inv_warehouse_id r \<in> set (touched x) \<Longrightarrow> reconciled e (committed w') r"
    and "\<exists>ev s. outside w' = event_publish e ev s \<and> movement_event x (committed w') = Some (body ev)"
  using x ok
proof (cases rule: record_movement_cases [where e = e and u = u])
  case (rejected y w2)
  with run show thesis by simp
next
  case (accepted affected m' w1)
  note sel = recorded_sel [OF accepted(1)]
  show thesis
    using x accepted(1)
  proof (cases rule: after_commit_cases [where e = e])
    case (raised y w2)
    with accepted run show thesis by simp
  next
    case (published b w2 w3)
    with accepted(2) run have m: "m' = m" "w3 = w'" by simp_all
    note steps = published(2) [unfolded m]
    show thesis
    proof (rule that)
      show "movement_committed x u (work w) (committed w')"
        by (rule movement_committedI [OF accepted(1) steps])
      show "movements (committed w') = movements (work w) @ [m]"
        using alert_steps_tables(2) [OF steps] sel(7) m by simp
      show "mov_type m = mc_movement_type x" "mov_quantity m = mc_quantity x" using sel m by simp_all
      show "reconciled e (committed w') r"
        if "r \<in> set (inventories (committed w'))" "inv_product_id r = mc_product_id x"
          "inv_warehouse_id r \<in> set (touched x)" for r
        using published(7) that m by blast
      show "\<exists>ev s. outside w' = event_publish e ev s \<and> movement_event x (committed w') = Some (body ev)"
      proof -
        let ?ev = "\<lparr>event_id = uuid4 e (tick w2), occurred_at = clock e (Suc (tick w2)), body = b\<rparr>"
        have "outside w' = event_publish e ?ev (outside w2)" using published(6) m by simp
        moreover have "movement_event x (committed w') = Some (body ?ev)" using published(5) m by simp
        ultimately show ?thesis by blast
      qed
    qed
  qed
qed

end
