(* ===== verification/Acceptance.thy ===== *)
theory Acceptance
  imports RecordMovement
begin

text \<open>
  Which movements are accepted: a decision procedure for the outcome of record_movement on
  the database it starts from, and the proof that the service follows it on every branch.
  It needs uuid4 not to repeat an id (\<open>fresh\<close>).
\<close>

section \<open>Fresh identifiers\<close>

definition all_ids :: "db \<Rightarrow> uuid set" where
  "all_ids d = set (ids (warehouses d)) \<union> set (ids (products d)) \<union> set (ids (inventories d)) \<union>
     set (ids (movements d)) \<union> set (ids (alerts d)) \<union> set (ids (users d))"

text \<open>The next \<open>n\<close> ids drawn are new and differ from each other.\<close>

definition fresh :: "'x deps \<Rightarrow> nat \<Rightarrow> 'x world \<Rightarrow> bool" where
  "fresh e n w \<longleftrightarrow> inj_on (uuid4 e) {tick w..<tick w + n} \<and>
     (\<forall>k \<in> {tick w..<tick w + n}. uuid4 e k \<notin> all_ids (work w))"

lemma fresh_mono: "fresh e n w \<Longrightarrow> m \<le> n \<Longrightarrow> fresh e m w"
  unfolding fresh_def by (auto intro: inj_on_subset)

lemma fresh_next: "fresh e n w \<Longrightarrow> 0 < n \<Longrightarrow> uuid4 e (tick w) \<notin> all_ids (work w)"
  by (simp add: fresh_def)

text \<open>A program that draws at most \<open>n\<close> ids from \<open>uuid4\<close> leaves the later ones fresh.\<close>

definition draws :: "'x deps \<Rightarrow> nat \<Rightarrow> 'x world \<Rightarrow> 'x world \<Rightarrow> bool" where
  "draws e n w w' \<longleftrightarrow> tick w \<le> tick w' \<and> tick w' \<le> tick w + n \<and>
     all_ids (work w') \<subseteq> all_ids (work w) \<union> uuid4 e ` {tick w..<tick w'}"

lemma fresh_draws:
  assumes f: "fresh e (m + n) w" and d: "draws e m w w'"
  shows "fresh e n w'"
proof -
  have sub: "{tick w'..<tick w' + n} \<subseteq> {tick w..<tick w + (m + n)}"
    using d by (auto simp: draws_def)
  have "uuid4 e k \<notin> all_ids (work w')" if k: "k \<in> {tick w'..<tick w' + n}" for k
  proof
    assume "uuid4 e k \<in> all_ids (work w')"
    then have "uuid4 e k \<in> all_ids (work w) \<union> uuid4 e ` {tick w..<tick w'}"
      using d by (auto simp: draws_def)
    moreover have "uuid4 e k \<notin> all_ids (work w)" using f sub k by (auto simp: fresh_def)
    ultimately obtain l where l: "tick w \<le> l" "l < tick w'" "uuid4 e k = uuid4 e l" by auto
    have "l \<in> {tick w..<tick w + (m + n)}" using l d by (auto simp: draws_def)
    with f sub k l show False by (auto simp: fresh_def dest: inj_onD)
  qed
  moreover have "inj_on (uuid4 e) {tick w'..<tick w' + n}"
    using f sub unfolding fresh_def by (blast intro: inj_on_subset)
  ultimately show ?thesis by (simp add: fresh_def)
qed

lemma draws_refl [simp]: "draws e n w w"
  by (simp add: draws_def)

lemma draws_mono: "draws e m w w' \<Longrightarrow> m \<le> n \<Longrightarrow> draws e n w w'"
  by (simp add: draws_def)

lemma draws_trans:
  assumes 1: "draws e m w w1" and 2: "draws e n w1 w2"
  shows "draws e (m + n) w w2"
proof -
  have "{tick w..<tick w1} \<subseteq> {tick w..<tick w2}" "{tick w1..<tick w2} \<subseteq> {tick w..<tick w2}"
    using 1 2 by (auto simp: draws_def)
  then have "all_ids (work w2) \<subseteq> all_ids (work w) \<union> uuid4 e ` {tick w..<tick w2}"
    using 1 2 unfolding draws_def by blast
  with 1 2 show ?thesis by (simp add: draws_def)
qed

lemma draws_same_ids: "all_ids (work w') = all_ids (work w) \<Longrightarrow> tick w \<le> tick w' \<Longrightarrow>
    tick w' \<le> tick w + n \<Longrightarrow> draws e n w w'"
  by (auto simp: draws_def)

lemma draws_one: "all_ids (work w') \<subseteq> insert (uuid4 e (tick w)) (all_ids (work w)) \<Longrightarrow>
    tick w < tick w' \<Longrightarrow> tick w' \<le> tick w + n \<Longrightarrow> draws e n w w'"
  by (auto simp: draws_def)

lemma all_ids_update [simp]:
  "(\<And>r. entity_id (g r) = entity_id r) \<Longrightarrow>
     all_ids (d\<lparr>inventories := update_by entity_id i g (inventories d)\<rparr>) = all_ids d"
  "(\<And>r. entity_id (h r) = entity_id r) \<Longrightarrow>
     all_ids (d\<lparr>alerts := update_by entity_id i h (alerts d)\<rparr>) = all_ids d"
  by (simp_all add: all_ids_def)

lemma all_ids_insert [simp]:
  "all_ids (d\<lparr>inventories := inventories d @ [iv]\<rparr>) = insert (entity_id iv) (all_ids d)"
  "all_ids (d\<lparr>movements := movements d @ [mv]\<rparr>) = insert (entity_id mv) (all_ids d)"
  "all_ids (d\<lparr>alerts := alerts d @ [al]\<rparr>) = insert (entity_id al) (all_ids d)"
  by (simp_all add: all_ids_def ac_simps)

section \<open>Changes the constraints accept\<close>

lemma constraints_inventories:
  "constraints d \<Longrightarrow> inventories_ok (d\<lparr>inventories := is\<rparr>) \<Longrightarrow> constraints (d\<lparr>inventories := is\<rparr>)"
  by (simp add: constraint_defs)

lemma constraints_movements:
  "constraints d \<Longrightarrow> movements_ok (d\<lparr>movements := ms\<rparr>) \<Longrightarrow> constraints (d\<lparr>movements := ms\<rparr>)"
  by (simp add: constraint_defs)

lemma constraints_set_quantity:
  assumes ok: "constraints d" and r: "r \<in> set (inventories d)"
    and g: "\<And>r. entity_id (g r) = entity_id r \<and> inv_pair (g r) = inv_pair r \<and>
          inv_low_stock_threshold (g r) = inv_low_stock_threshold r"
  shows "constraints (d\<lparr>inventories := update_by entity_id (entity_id r) g (inventories d)\<rparr>) \<longleftrightarrow>
     int4 (inv_quantity (g r))"
proof -
  let ?is = "update_by entity_id (entity_id r) g (inventories d)"
  have inv: "inventories_ok d" using ok by (simp add: constraints_def)
  then have dist: "distinct (map entity_id (inventories d))" by (simp add: inventories_ok_def ids_def)
  have set: "set ?is = insert (g r) (set (inventories d) - {r})"
    by (rule set_update_by [OF dist r])
  have pairs: "map inv_pair ?is = map inv_pair (inventories d)"
    by (rule map_update_by) (use g in blast)
  have "inventories_ok (d\<lparr>inventories := ?is\<rparr>) \<longleftrightarrow> int4 (inv_quantity (g r))"
    using inv g r unfolding inventories_ok_def by (simp add: pairs) (auto simp: set)
  then show ?thesis
    using constraints_inventories [OF ok, of ?is] by (auto simp: constraints_def)
qed

lemma constraints_insert_inventory:
  assumes "constraints d" and "entity_id r \<notin> set (ids (inventories d))"
    and "inv_pair r = (p, wh)" "inv_quantity r = 0" "inv_low_stock_threshold r = None"
    and "(p, wh) \<notin> inv_pair ` set (inventories d)"
    and "p \<in> set (ids (products d))" "wh \<in> set (ids (warehouses d))"
  shows "constraints (d\<lparr>inventories := inventories d @ [r]\<rparr>)"
  by (rule constraints_inventories) (use assms in \<open>auto simp: constraint_defs int4_def\<close>)

lemma constraints_insert_movement:
  assumes "constraints d" and "entity_id m \<notin> set (ids (movements d))"
    and "int4 (mov_quantity m)" "mov_product_id m \<in> set (ids (products d))"
    and "opt_ok (\<lambda>i. i \<in> set (ids (warehouses d))) (mov_source_warehouse_id m)"
    and "opt_ok (\<lambda>i. i \<in> set (ids (warehouses d))) (mov_destination_warehouse_id m)"
    and "opt_ok (varchar 500) (mov_reason m)"
  shows "constraints (d\<lparr>movements := movements d @ [m]\<rparr>)"
  by (rule constraints_movements) (use assms in \<open>auto simp: constraint_defs\<close>)

section \<open>The decision\<close>

text \<open>
  \<open>decides e f problem w\<close>: run from \<open>w\<close>, \<open>f\<close> raises the problem, or returns if there is none.
\<close>

definition decides :: "'x deps \<Rightarrow> nat \<Rightarrow> ('x, 'a) service \<Rightarrow> exc option \<Rightarrow> 'x world \<Rightarrow> bool" where
  "decides e n f problem w \<longleftrightarrow> (case problem of Some y \<Rightarrow> \<exists>w'. f w = (Inl y, w')
     | None \<Rightarrow> \<exists>r w'. f w = (Inr r, w') \<and> draws e n w w')"

definition first_of :: "exc option \<Rightarrow> exc option \<Rightarrow> exc option" where
  "first_of a b = (case a of Some y \<Rightarrow> Some y | None \<Rightarrow> b)"

lemma first_of_simps [simp]: "first_of None b = b" "first_of (Some y) b = Some y" "first_of a None = a"
  by (simp_all add: first_of_def split: option.splits)

lemma decides_andthen:
  assumes f: "decides e m f a w"
    and g: "\<And>r w1. f w = (Inr r, w1) \<Longrightarrow> draws e m w w1 \<Longrightarrow> decides e n (g r) b w1"
  shows "decides e (m + n) (andthen f g) (first_of a b) w"
proof (cases a)
  case (Some y)
  with f show ?thesis by (auto simp: decides_def andthen_def)
next
  case None
  then obtain r w1 where r: "f w = (Inr r, w1)" and d: "draws e m w w1"
    using f by (auto simp: decides_def)
  have "decides e (m + n) (andthen f g) b w"
    using g [OF r d] draws_trans [OF d] by (auto simp: decides_def r split: option.splits)
  with None show ?thesis by simp
qed

lemma decides_mono: "decides e m f a w \<Longrightarrow> m \<le> n \<Longrightarrow> decides e n f a w"
  by (auto simp: decides_def intro: draws_mono split: option.splits)

lemma decides_ret [simp]: "decides e n (ret r) None w"
  by (simp add: decides_def)

definition removal_problem :: "db \<Rightarrow> uuid \<Rightarrow> uuid \<Rightarrow> int \<Rightarrow> exc option" where
  "removal_problem d p s q =
     (if s \<notin> set (ids (warehouses d)) then Some (not_found ''Warehouse'' s)
      else if (p, s) \<notin> inv_pair ` set (inventories d) then Some (no_inventory_record p s)
      else if stock_in (inventories d) p s < q
      then Some (insufficient_stock q p s (stock_in (inventories d) p s))
      else None)"

definition receipt_problem :: "db \<Rightarrow> uuid \<Rightarrow> uuid \<Rightarrow> int \<Rightarrow> exc option" where
  "receipt_problem d p t q =
     (if t \<notin> set (ids (warehouses d)) then Some (not_found ''Warehouse'' t)
      else if \<not> int4 (stock_in (inventories d) p t + q) then Some DatabaseError
      else None)"

definition leg_problems :: "movement_create \<Rightarrow> db \<Rightarrow> exc option" where
  "leg_problems x d = (case (mc_source_warehouse_id x, mc_destination_warehouse_id x) of
        (None, None) \<Rightarrow> None
      | (None, Some t) \<Rightarrow> receipt_problem d (mc_product_id x) t (mc_quantity x)
      | (Some s, None) \<Rightarrow> removal_problem d (mc_product_id x) s (mc_quantity x)
      | (Some s, Some t) \<Rightarrow>
          if uuid_str s \<le> uuid_str t
          then first_of (removal_problem d (mc_product_id x) s (mc_quantity x))
                 (receipt_problem d (mc_product_id x) t (mc_quantity x))
          else first_of (receipt_problem d (mc_product_id x) t (mc_quantity x))
                 (removal_problem d (mc_product_id x) s (mc_quantity x)))"

definition movement_problem :: "movement_create \<Rightarrow> db \<Rightarrow> exc option" where
  "movement_problem x d =
     (if mc_product_id x \<notin> set (ids (products d)) then Some (not_found ''Product'' (mc_product_id x))
      else leg_problems x d)"

lemma find_by_id_None: "find (\<lambda>r. entity_id r = i) rs = None \<longleftrightarrow> i \<notin> set (ids rs)"
  by (auto simp: find_None_iff ids_def)

lemma find_by_id_Some: "find (\<lambda>r. entity_id r = i) rs = Some x \<Longrightarrow> i \<in> set (ids rs)"
  by (auto simp: set_ids dest: find_SomeD)

lemma set_quantity_decides:
  assumes ok: "constraints (work w)" and r: "r \<in> set (inventories (work w))"
  shows "\<exists>w'. set_quantity (entity_id r) f w =
      (if int4 (f (inv_quantity r)) then Inr (entity_id r) else Inl DatabaseError, w') \<and> draws e n w w'"
proof -
  let ?g = "touch (tx_time w) (\<lambda>r. r\<lparr>inv_quantity := f (inv_quantity r)\<rparr>)"
  have "constraints ((work w)\<lparr>inventories := update_by entity_id (entity_id r) ?g (inventories (work w))\<rparr>)
      \<longleftrightarrow> int4 (f (inv_quantity r))"
    by (subst constraints_set_quantity [OF ok r]) simp_all
  then show ?thesis
    by (simp add: set_quantity_run Let_def) (auto intro!: draws_same_ids)
qed

lemma draws_locks [simp]: "draws e n (w\<lparr>row_locks := l\<rparr>) w' = draws e n w w'"
  by (simp add: draws_def)

lemma decrease_decides:
  assumes ok: "constraints (work w)" and q: "0 < q" and nn: "0 \<le> stock_in (inventories (work w)) p s"
  shows "decides e 0 (decrease_stock e p s q) (removal_problem (work w) p s q) w"
proof (cases "find (\<lambda>r. entity_id r = s) (warehouses (work w))")
  case None
  then show ?thesis
    by (simp add: decides_def decrease_stock_run [OF ok] removal_problem_def find_by_id_None [symmetric] Let_def)
next
  case (Some x)
  then have wh: "s \<in> set (ids (warehouses (work w)))" by (rule find_by_id_Some)
  show ?thesis
  proof (cases "find (\<lambda>r. inv_pair r = (p, s)) (inventories (work w))")
    case None
    then have "(p, s) \<notin> inv_pair ` set (inventories (work w))" unfolding find_key_None .
    with None Some wh show ?thesis
      by (simp add: decides_def decrease_stock_run [OF ok] removal_problem_def Let_def)
  next
    case row: (Some r)
    then have r: "r \<in> set (inventories (work w))" "inv_pair r = (p, s)" by (auto dest: find_SomeD)
    have "distinct (map inv_pair (inventories (work w)))" using ok by (simp add: constraint_defs)
    from stock_in_row [OF this r(1)] r(2)
    have st: "stock_in (inventories (work w)) p s = inv_quantity r" by simp
    have mem: "(p, s) \<in> inv_pair ` set (inventories (work w))"
      by (rule rev_image_eqI [OF r(1)]) (simp add: r(2))
    let ?w = "w\<lparr>row_locks := row_locks w @ leg_locks p s (work w)\<rparr>"
    show ?thesis
    proof (cases "inv_quantity r < q")
      case True
      with Some row wh mem st show ?thesis
        by (simp add: decides_def decrease_stock_run [OF ok] removal_problem_def Let_def)
    next
      case False
      have "int4 (inv_quantity r)" by (rule int4_quantity [OF ok r(1)])
      with False q nn st have "int4 (inv_quantity r - q)" by (simp add: int4_def)
      with set_quantity_decides [of ?w r "\<lambda>n. n - q" e 0] ok r(1)
      obtain w' where "set_quantity (entity_id r) (\<lambda>n. n - q) ?w = (Inr (entity_id r), w')"
        "draws e 0 w w'" by auto
      with False Some row wh mem st show ?thesis
        by (simp add: decides_def decrease_stock_run [OF ok] removal_problem_def Let_def)
    qed
  qed
qed

lemma increase_decides:
  assumes ok: "constraints (work w)" and f: "fresh e 1 w" and p: "p \<in> set (ids (products (work w)))"
  shows "decides e 1 (increase_stock e p t q) (receipt_problem (work w) p t q) w"
proof (cases "find (\<lambda>r. entity_id r = t) (warehouses (work w))")
  case None
  then show ?thesis
    by (simp add: decides_def increase_stock_run [OF ok] receipt_problem_def find_by_id_None [symmetric] Let_def)
next
  case (Some x)
  then have wh: "t \<in> set (ids (warehouses (work w)))" by (rule find_by_id_Some)
  let ?w = "w\<lparr>row_locks := row_locks w @ leg_locks p t (work w)\<rparr>"
  show ?thesis
  proof (cases "find (\<lambda>r. inv_pair r = (p, t)) (inventories (work w))")
    case None
    then have no: "(p, t) \<notin> inv_pair ` set (inventories (work w))" unfolding find_key_None .
    then have st: "stock_in (inventories (work w)) p t = 0"
      by (intro stock_in_absent) auto
    let ?r = "stamped (uuid4 e (tick w)) (tx_time w) (new_inventory p t)"
    let ?w1 = "?w\<lparr>work := (work w)\<lparr>inventories := inventories (work w) @ [?r]\<rparr>, tick := Suc (tick w)\<rparr>"
    have "uuid4 e (tick w) \<notin> set (ids (inventories (work w)))"
      using fresh_next [OF f] by (simp add: all_ids_def)
    then have ok1: "constraints (work ?w1)"
      using constraints_insert_inventory [OF ok, of ?r p t] no p wh by simp
    then have create: "create e inventories_table (new_inventory p t) ?w = (Inr ?r, ?w1)"
      by (simp add: inventories_store.create_run Let_def)
    obtain w' where sq: "set_quantity (entity_id ?r) (\<lambda>n. n + q) ?w1 =
        (if int4 (inv_quantity ?r + q) then Inr (entity_id ?r) else Inl DatabaseError, w')"
      and d: "draws e 0 ?w1 w'"
      using set_quantity_decides [OF ok1, of ?r "\<lambda>n. n + q" e 0] by auto
    have "draws e 1 w ?w1" by (rule draws_one) simp_all
    from draws_trans [OF this d] have "draws e 1 w w'" by simp
    with sq Some None wh st create show ?thesis
      by (simp add: decides_def increase_stock_run [OF ok] receipt_problem_def Let_def andthen_def)
  next
    case row: (Some r)
    then have r: "r \<in> set (inventories (work w))" "inv_pair r = (p, t)" by (auto dest: find_SomeD)
    have "distinct (map inv_pair (inventories (work w)))" using ok by (simp add: constraint_defs)
    from stock_in_row [OF this r(1)] r(2)
    have st: "stock_in (inventories (work w)) p t = inv_quantity r" by simp
    obtain w' where "set_quantity (entity_id r) (\<lambda>n. n + q) ?w =
        (if int4 (inv_quantity r + q) then Inr (entity_id r) else Inl DatabaseError, w')"
      "draws e 1 w w'" using set_quantity_decides [of ?w r "\<lambda>n. n + q" e 1] ok r(1) by auto
    with Some row wh st show ?thesis
      by (simp add: decides_def increase_stock_run [OF ok] receipt_problem_def Let_def)
  qed
qed

section \<open>The service follows it\<close>

lemma movement_effect_other: "b \<noteq> a \<Longrightarrow> stock_step p a q i d d' \<Longrightarrow>
    removal_problem d' p b n = removal_problem d p b n \<and> receipt_problem d' p b n = receipt_problem d p b n"
proof -
  assume ab: "b \<noteq> a" and st: "stock_step p a q i d d'"
  have "warehouses d' = warehouses d"
    using stock_stepD(1) [OF st] by (metis db.select_convs(1) db.surjective db.update_convs(3))
  moreover have "stock_in (inventories d') p b = stock_in (inventories d) p b"
    using stock_stepD(3) [OF st, of p b] ab by simp
  moreover have "(p, b) \<in> inv_pair ` set (inventories d') \<longleftrightarrow> (p, b) \<in> inv_pair ` set (inventories d)"
    using leg_locks_other [OF st ab [symmetric]] by (simp add: leg_locks_def split: if_splits)
  ultimately show ?thesis by (simp add: removal_problem_def receipt_problem_def)
qed

lemma stock_step_products: "stock_step p a q i d d' \<Longrightarrow> products d' = products d"
  using stock_stepD(1) by (metis db.select_convs(2) db.surjective db.update_convs(3))

lemma transfer_decides:
  assumes ok: "constraints (work w)" and f: "fresh e 1 w" and p: "p \<in> set (ids (products (work w)))"
    and q: "0 < q" and nn: "0 \<le> stock_in (inventories (work w)) p s" and st: "s \<noteq> t"
  shows "decides e 1 (transfer_stock e p s t q)
    (if uuid_str s \<le> uuid_str t
     then first_of (removal_problem (work w) p s q) (receipt_problem (work w) p t q)
     else first_of (receipt_problem (work w) p t q) (removal_problem (work w) p s q)) w"
proof (cases "uuid_str s \<le> uuid_str t")
  case True
  have "decides e (0 + 1) (andthen (decrease_stock e p s q) (\<lambda>i. andthen (increase_stock e p t q) (\<lambda>j. ret (i, j))))
      (first_of (removal_problem (work w) p s q) (receipt_problem (work w) p t q)) w"
  proof (rule decides_andthen [OF decrease_decides [OF ok q nn]])
    fix i w1 assume run: "decrease_stock e p s q w = (Inr i, w1)" and d: "draws e 0 w w1"
    note s1 = decrease_stock_Inr(1) [OF run ok]
    have "decides e 1 (increase_stock e p t q) (receipt_problem (work w1) p t q) w1"
      by (rule increase_decides [OF stock_stepD(2) [OF s1] fresh_draws [of e 0 1, OF _ d]])
        (use f in \<open>simp_all add: stock_step_products [OF s1] p\<close>)
    then have "decides e 1 (increase_stock e p t q) (receipt_problem (work w) p t q) w1"
      using movement_effect_other [OF st [symmetric] s1] by simp
    then have "decides e (1 + 0) (andthen (increase_stock e p t q) (\<lambda>j. ret (i, j)))
        (first_of (receipt_problem (work w) p t q) None) w1"
      by (rule decides_andthen) simp
    then show "decides e 1 (andthen (increase_stock e p t q) (\<lambda>j. ret (i, j)))
        (receipt_problem (work w) p t q) w1" by simp
  qed
  with True show ?thesis by (simp add: transfer_unfold [OF st])
next
  case False
  have "decides e (1 + 0) (andthen (increase_stock e p t q) (\<lambda>j. andthen (decrease_stock e p s q) (\<lambda>i. ret (i, j))))
      (first_of (receipt_problem (work w) p t q) (removal_problem (work w) p s q)) w"
  proof (rule decides_andthen [OF increase_decides [OF ok f p]])
    fix j w1 assume run: "increase_stock e p t q w = (Inr j, w1)" and d: "draws e 1 w w1"
    note s1 = increase_stock_Inr(1) [OF run ok]
    have "0 \<le> stock_in (inventories (work w1)) p s"
      using nn stock_stepD(3) [OF s1, of p s] st by simp
    then have "decides e 0 (decrease_stock e p s q) (removal_problem (work w1) p s q) w1"
      by (rule decrease_decides [OF stock_stepD(2) [OF s1] q])
    then have "decides e 0 (decrease_stock e p s q) (removal_problem (work w) p s q) w1"
      using movement_effect_other [OF st s1] by simp
    then have "decides e (0 + 0) (andthen (decrease_stock e p s q) (\<lambda>i. ret (i, j)))
        (first_of (removal_problem (work w) p s q) None) w1"
      by (rule decides_andthen) simp
    then show "decides e 0 (andthen (decrease_stock e p s q) (\<lambda>i. ret (i, j)))
        (removal_problem (work w) p s q) w1" by simp
  qed
  with False show ?thesis by (simp add: transfer_unfold [OF st])
qed

lemma decides_map: "decides e n f a w \<Longrightarrow> decides e n (andthen f (\<lambda>r. ret (h r))) a w"
  using decides_andthen [of e n f a w 0 "\<lambda>r. ret (h r)" None] by simp

lemma apply_movement_decides:
  assumes x: "movement_create_ok x" and ok: "constraints (work w)" and f: "fresh e 1 w"
    and p: "mc_product_id x \<in> set (ids (products (work w)))" and nn: "stock_nonneg (work w)"
  shows "decides e 1 (apply_movement e x) (leg_problems x (work w)) w"
proof -
  have n: "0 \<le> stock_in (inventories (work w)) (mc_product_id x) wh" for wh
    using nn by (simp add: stock_nonneg_def)
  show ?thesis
    using x
  proof (cases rule: movement_create_ok_cases)
    case (IN t)
    from decides_map [where h = "\<lambda>i. [i]", OF increase_decides [OF ok f p, of t "mc_quantity x"]] IN
    show ?thesis by (simp add: apply_movement_def leg_problems_def)
  next
    case (OUT s)
    from decides_map [where h = "\<lambda>i. [i]", OF decides_mono [OF decrease_decides [OF ok OUT(4) n [of s]], of 1]] OUT
    show ?thesis by (simp add: apply_movement_def leg_problems_def)
  next
    case (TRANSFER s t)
    from decides_map [where h = "\<lambda>r. [fst r, snd r]", OF transfer_decides [OF ok f p TRANSFER(5) n TRANSFER(4)]]
      TRANSFER
    show ?thesis by (simp add: apply_movement_def leg_problems_def split_def)
  qed
qed

section \<open>The alerts and the event never fail\<close>

lemma alert_saved_ids:
  "(\<And>r. entity_id (g r) = entity_id r) \<Longrightarrow> 0 < n \<Longrightarrow> draws e n w (alert_saved e a g w)"
  by (rule draws_same_ids) (simp_all add: alert_saved_def)

lemma draws_tick: "draws e n (w\<lparr>tick := Suc (tick w)\<rparr>) w' \<Longrightarrow> draws e (1 + n) w w'"
  by (rule draws_trans [of e 1 w "w\<lparr>tick := Suc (tick w)\<rparr>"]) (simp_all add: draws_same_ids)

lemma draws_notified: "draws e n w w' \<Longrightarrow> draws e (n + 2) w (notified e a w')"
  by (erule draws_trans) (simp add: draws_same_ids)

lemma int4_threshold:
  "int4 (low_stock_alert_threshold_default e) \<Longrightarrow> constraints d \<Longrightarrow> r \<in> set (inventories d) \<Longrightarrow>
     int4 (applicable_threshold e r)"
  by (auto simp: applicable_threshold_def constraint_defs opt_ok_def split: option.splits)

text \<open>The inventory object may be older than its row.\<close>

lemma evaluate_object_decides:
  assumes ok: "constraints (work w)" and f: "fresh e 1 w" and one: "one_active (work w)"
    and thr: "int4 (applicable_threshold e r)" and q: "int4 (inv_quantity r)"
    and refs: "inv_product_id r \<in> set (ids (products (work w)))"
      "inv_warehouse_id r \<in> set (ids (warehouses (work w)))"
  shows "decides e 4 (evaluate_stock_level e r) None w"
proof -
  have le: "length (pair_active w r) \<le> 1" using one by (simp add: one_active_def)
  show ?thesis
  proof (cases "pair_active w r")
    case none: Nil
    show ?thesis
    proof (cases "wanted e r")
      case None
      with none show ?thesis by (simp add: decides_def evaluate_quiet)
    next
      case (Some k)
      let ?a = "raised_alert e r k w"
      have "entity_id ?a \<notin> set (ids (alerts (work w)))" using fresh_next [OF f] by (simp add: all_ids_def)
      then have c: "constraints ((work w)\<lparr>alerts := alerts (work w) @ [?a]\<rparr>)"
        by (rule constraints_alert_added [OF ok])
          (use thr q refs in simp_all)
      have "draws e 2 w (committed_world e (alert_added e ?a w))"
        by (rule draws_one) (simp_all add: alert_added_def)
      note d = draws_notified [OF this, of ?a, simplified]
      with c show ?thesis
        by (simp add: decides_def evaluate_raised [OF none Some] Let_def d)
    qed
  next
    case (Cons a as)
    with le have a: "pair_active w r = [a]" by simp
    show ?thesis
    proof (cases "wanted e r")
      case None
      have "draws e (1 + 3) w (alert_saved e a (resolving (tx_time w) (clock e (tick w)))
          (w\<lparr>tick := Suc (tick w)\<rparr>))"
        by (rule draws_tick, rule alert_saved_ids) simp_all
      then show ?thesis
        by (simp add: decides_def evaluate_recovered [OF a None ok])
    next
      case (Some k)
      show ?thesis
      proof (cases "k = al_alert_type a")
        case True
        with Some a show ?thesis by (simp add: decides_def evaluate_unchanged)
      next
        case False
        have "draws e 2 w (alert_saved e a (retyping (tx_time w) k (inv_quantity r)) w)"
          by (rule alert_saved_ids) simp_all
        note d = draws_notified [OF this, simplified]
        show ?thesis
          by (simp add: decides_def evaluate_retyped [OF a Some False ok q] Let_def d)
      qed
    qed
  qed
qed

lemma evaluate_decides:
  assumes ok: "constraints (work w)" and f: "fresh e 1 w" and one: "one_active (work w)"
    and thr: "int4 (low_stock_alert_threshold_default e)" and r: "r \<in> set (inventories (work w))"
  shows "decides e 4 (evaluate_stock_level e r) None w"
  by (rule evaluate_object_decides [OF ok f one int4_threshold [OF thr ok r] int4_quantity [OF ok r]])
    (use ok r in \<open>simp_all add: constraint_defs\<close>)

lemma evaluate_affected_decides:
  assumes "constraints (work w)" and "fresh e (4 * length is) w" and "one_active (work w)"
    and thr: "int4 (low_stock_alert_threshold_default e)"
    and "set is \<subseteq> set (ids (inventories (work w)))"
  shows "decides e (4 * length is) (evaluate_affected e is) None w"
  using assms
proof (induction "is" arbitrary: w)
  case Nil
  then show ?case by (simp add: decides_def evaluate_affected_def)
next
  case (Cons i js)
  note ok = Cons.prems(1)
  obtain r where r: "find (\<lambda>r. entity_id r = i) (inventories (work w)) = Some r"
    using Cons.prems(5) find_by_id_None [of i] by (cases "find (\<lambda>r. entity_id r = i) (inventories (work w))") auto
  then have mem: "r \<in> set (inventories (work w))" by (auto dest: find_SomeD)
  have f: "fresh e (4 + 4 * length js) w" using Cons.prems(2) by simp
  then have f1: "fresh e 1 w" by (rule fresh_mono) simp
  have "decides e (4 + 4 * length js) (andthen (evaluate_stock_level e r) (\<lambda>_. evaluate_affected e js))
      (first_of None None) w"
  proof (rule decides_andthen [OF evaluate_decides [OF ok f1 Cons.prems(3) thr mem]])
    fix a w1 assume ev: "evaluate_stock_level e r w = (Inr a, w1)" and d: "draws e 4 w w1"
    have st: "alert_steps (work w) (work w1)"
      by (rule alert_step_steps [OF evaluate_step(1,4) [OF ev ok int4_quantity [OF ok mem]]])
    show "decides e (4 * length js) (evaluate_affected e js) None w1"
      by (rule Cons.IH)
        (use st fresh_draws [OF f d] Cons.prems in
          \<open>auto intro: alert_steps_constraints alert_steps_one_active\<close>)
  qed
  then show ?case
    using r by (simp add: evaluate_affected_def andthen_def held_run decides_def cong: option.case_cong)
qed

section \<open>The decision for a whole movement\<close>

lemma movement_step_products: "movement_step x affected d d1 \<Longrightarrow> products d1 = products d"
  unfolding movement_step_def by (metis db.select_convs(2) db.surjective db.update_convs(3))

lemma movement_step_warehouses: "movement_step x affected d d1 \<Longrightarrow> warehouses d1 = warehouses d"
  unfolding movement_step_def by (metis db.select_convs(1) db.surjective db.update_convs(3))

lemma leg_problems_None_warehouses:
  assumes "leg_problems x d = None" "movement_create_ok x"
  shows "opt_ok (\<lambda>i. i \<in> set (ids (warehouses d))) (mc_source_warehouse_id x)"
    and "opt_ok (\<lambda>i. i \<in> set (ids (warehouses d))) (mc_destination_warehouse_id x)"
  using assms(2,1)
  by (cases rule: movement_create_ok_cases;
      auto simp: leg_problems_def removal_problem_def receipt_problem_def first_of_def
        split: if_splits option.splits)+

definition storable :: "movement_create \<Rightarrow> bool" where
  "storable x \<longleftrightarrow> int4 (mc_quantity x) \<and> opt_ok (varchar 500) (mc_reason x)"

lemma create_movement_decides:
  assumes x: "movement_create_ok x" and sx: "storable x" and ap: "applied x affected w w1"
    and f: "fresh e 1 w1" and p: "mc_product_id x \<in> set (ids (products (work w)))"
    and legs: "leg_problems x (work w) = None"
  shows "decides e 1 (create e movements_table (new_movement x u)) None w1"
proof -
  from ap have st: "movement_step x affected (work w) (work w1)" by (simp add: applied_def)
  then have ok: "constraints (work w1)" by (simp add: movement_step_def)
  let ?m = "stamped (uuid4 e (tick w1)) (tx_time w1) (new_movement x u)"
  have "constraints ((work w1)\<lparr>movements := movements (work w1) @ [?m]\<rparr>)"
  proof (rule constraints_insert_movement [OF ok])
    show "entity_id ?m \<notin> set (ids (movements (work w1)))"
      using fresh_next [OF f] by (simp add: all_ids_def)
  qed (use sx p leg_problems_None_warehouses [OF legs x] in
      \<open>simp_all add: storable_def stamped_def new_movement_def movement_step_products [OF st]
        movement_step_warehouses [OF st]\<close>)
  moreover have "draws e 1 w1 (w1\<lparr>work := with_row movements_table ?m (work w1), tick := Suc (tick w1)\<rparr>)"
    by (rule draws_one) simp_all
  ultimately show ?thesis
    by (simp add: decides_def movements_store.create_run Let_def)
qed

lemma after_commit_returns:
  assumes x: "movement_create_ok x" and rec: "recorded x u affected w w1 m" and f: "fresh e 8 w1"
    and one: "one_active (work w)" and thr: "int4 (low_stock_alert_threshold_default e)"
  shows "\<exists>w'. after_commit e x affected m w1 = (Inr m, w') \<and> draws e 10 w1 w' \<and> committed w' = work w'"
proof -
  obtain d where d: "movement_step x affected (work w) d" "work w1 = d\<lparr>movements := movements d @ [m]\<rparr>"
    and ok: "constraints (work w1)" using rec by (auto simp: recorded_def)
  have "one_active (work w1)"
    using one by (simp add: one_active_def active_alerts_def d(2) movement_step_alerts [OF d(1)])
  moreover have "set affected \<subseteq> set (ids (inventories (work w1)))"
  proof
    fix i assume "i \<in> set affected"
    with list_all2_left [OF recorded_rows [OF rec]] show "i \<in> set (ids (inventories (work w1)))"
      by (force simp: set_ids)
  qed
  moreover have "fresh e (4 * length affected) w1"
    by (rule fresh_mono [OF f]) (use recorded_rows [OF rec] in \<open>auto dest!: list_all2_lengthD
      simp: touched_def split: option.splits\<close>)
  ultimately have "decides e (4 * length affected) (evaluate_affected e affected) None w1"
    by (intro evaluate_affected_decides ok thr)
  then obtain w2 where ev: "evaluate_affected e affected w1 = (Inr (), w2)" and "draws e (4 * length affected) w1 w2"
    by (auto simp: decides_def)
  then have d1: "draws e 8 w1 w2"
    by (rule_tac draws_mono) (use recorded_rows [OF rec] in \<open>auto dest!: list_all2_lengthD
      simp: touched_def split: option.splits\<close>)
  show ?thesis
    using x rec
  proof (cases rule: after_commit_cases [where e = e])
    case (raised y w')
    with ev show ?thesis by simp
  next
    case (published b w3 w')
    with ev have "w3 = w2" by simp
    with published have "draws e 2 w2 w'" by (intro draws_same_ids) simp_all
    from draws_trans [OF d1 this] published show ?thesis by simp
  qed
qed

lemma movement_refused:
  assumes x: "movement_create_ok x" and ok: "constraints (work w)" and f: "fresh e 3 w"
    and nn: "stock_nonneg (work w)" and prob: "movement_problem x (work w) = Some y"
  shows "\<exists>w'. record_movement e x u w = (Inl y, w') \<and> committed w' = committed w \<and> outside w' = outside w"
proof (cases "find (\<lambda>r. entity_id r = mc_product_id x) (products (work w))")
  case None
  with prob show ?thesis
    by (simp add: movement_problem_def find_by_id_None [symmetric] record_movement_alt
        get_by_id_or_raise_run andthen_def products_table_def)
next
  case (Some r)
  then have p: "mc_product_id x \<in> set (ids (products (work w)))" by (rule find_by_id_Some)
  then have "leg_problems x (work w) = Some y" using prob by (simp add: movement_problem_def)
  with apply_movement_decides [OF x ok fresh_mono [OF f] p nn, simplified]
  obtain w1 where a: "apply_movement e x w = (Inl y, w1)" by (auto simp: decides_def)
  with apply_movement_Inl [OF x a ok] Some show ?thesis
    by (simp add: record_movement_alt get_by_id_or_raise_run andthen_def)
qed

lemma movement_transaction_returns:
  assumes x: "movement_create_ok x" and sx: "storable x" and ok: "constraints (work w)"
    and f: "fresh e 3 w" and nn: "stock_nonneg (work w)" and None: "movement_problem x (work w) = None"
  shows "\<exists>affected m w1. movement_transaction e x u w = (Inr (affected, m), w1) \<and>
    recorded x u affected w w1 m \<and> draws e 3 w w1"
proof -
  from None have p: "mc_product_id x \<in> set (ids (products (work w)))" and legs: "leg_problems x (work w) = None"
    by (auto simp: movement_problem_def split: if_splits)
  obtain r where "find (\<lambda>r. entity_id r = mc_product_id x) (products (work w)) = Some r"
    using p find_by_id_None by fastforce
  then have rec: "movement_transaction e x u w = andthen (apply_movement e x) (\<lambda>affected.
      andthen (create e movements_table (new_movement x u)) (\<lambda>m.
      andthen (commit e) (\<lambda>_. ret (affected, m)))) w"
    by (simp add: movement_transaction_def get_by_id_or_raise_run andthen_def)
  from apply_movement_decides [OF x ok fresh_mono [OF f] p nn, simplified] legs
  obtain affected w1 where a: "apply_movement e x w = (Inr affected, w1)"
    and d1: "draws e 1 w w1" by (auto simp: decides_def)
  note app = apply_movement_Inr [OF x a ok]
  have "fresh e 1 w1" by (rule fresh_draws [OF _ d1, of 1]) (rule fresh_mono [OF f], simp)
  from create_movement_decides [OF x sx app this p legs, of u]
  obtain m w2 where c: "create e movements_table (new_movement x u) w1 = (Inr m, w2)"
    and d2: "draws e 1 w1 w2" by (auto simp: decides_def)
  note cr = movements_store.create_InrD [OF c]
  let ?w3 = "committed_world e w2"
  have "recorded x u affected w ?w3 m"
    using app cr by (auto simp: recorded_def applied_def)
  moreover have d3: "draws e 1 w2 ?w3" by (rule draws_same_ids) simp_all
  have "draws e 3 w ?w3"
    using draws_trans [OF draws_trans [OF d1 d2] d3] by (simp add: numeral_3_eq_3 numeral_2_eq_2)
  ultimately show ?thesis
    using rec a c cr(3) by (simp add: andthen_def commit_run)
qed

lemma record_movement_returns:
  assumes x: "movement_create_ok x" and sx: "storable x" and ok: "constraints (work w)"
    and f: "fresh e 11 w" and nn: "stock_nonneg (work w)" and one: "one_active (work w)"
    and thr: "int4 (low_stock_alert_threshold_default e)" and None: "movement_problem x (work w) = None"
  shows "\<exists>m w'. record_movement e x u w = (Inr m, w') \<and> draws e 13 w w' \<and> committed w' = work w'"
proof -
  from movement_transaction_returns [OF x sx ok fresh_mono [OF f] nn None, of u]
  obtain affected m w1 where t: "movement_transaction e x u w = (Inr (affected, m), w1)"
    and r: "recorded x u affected w w1 m" and d: "draws e 3 w w1" by auto
  have "fresh e 8 w1" by (rule fresh_draws [OF _ d]) (use f in simp)
  from after_commit_returns [OF x r this one thr]
  obtain w' where ac: "after_commit e x affected m w1 = (Inr m, w')" "committed w' = work w'"
    and d2: "draws e 10 w1 w'" by blast
  from t ac draws_trans [OF d d2] show ?thesis by (simp add: record_movement_split)
qed

lemma record_movement_decides:
  assumes x: "movement_create_ok x" and sx: "storable x" and ok: "constraints (work w)"
    and f: "fresh e 11 w" and nn: "stock_nonneg (work w)" and one: "one_active (work w)"
    and thr: "int4 (low_stock_alert_threshold_default e)"
  shows "case movement_problem x (work w) of
      Some y \<Rightarrow> \<exists>w'. record_movement e x u w = (Inl y, w') \<and> committed w' = committed w \<and>
        outside w' = outside w
    | None \<Rightarrow> \<exists>m w'. record_movement e x u w = (Inr m, w')"
proof (cases "movement_problem x (work w)")
  case None
  from record_movement_returns [OF assms this, of u] None show ?thesis by auto
qed (use movement_refused [OF x ok fresh_mono [OF f] nn] in simp)

section \<open>What the decision does not depend on, and the column's range\<close>

text \<open>The soft-delete flags play no part in it.\<close>

definition reflagged :: "(uuid \<Rightarrow> bool) \<Rightarrow> (uuid \<Rightarrow> bool) \<Rightarrow> db \<Rightarrow> db" where
  "reflagged f g d = d\<lparr>warehouses := map (\<lambda>r. r\<lparr>wh_is_active := f (entity_id r)\<rparr>) (warehouses d),
     products := map (\<lambda>r. r\<lparr>prod_is_active := g (entity_id r)\<rparr>) (products d)\<rparr>"

lemma reflagged_ids [simp]:
  "ids (warehouses (reflagged f g d)) = ids (warehouses d)"
  "ids (products (reflagged f g d)) = ids (products d)"
  "inventories (reflagged f g d) = inventories d" "movements (reflagged f g d) = movements d"
  "alerts (reflagged f g d) = alerts d" "users (reflagged f g d) = users d"
  by (simp_all add: reflagged_def ids_def)

lemma constraints_reflagged [simp]: "constraints (reflagged f g d) \<longleftrightarrow> constraints d"
proof -
  have "warehouses_ok (reflagged f g d) \<longleftrightarrow> warehouses_ok d"
    by (simp add: warehouses_ok_def reflagged_def ids_def comp_def)
  moreover have "products_ok (reflagged f g d) \<longleftrightarrow> products_ok d"
    by (simp add: products_ok_def reflagged_def ids_def comp_def)
  moreover have "inventories_ok (reflagged f g d) \<longleftrightarrow> inventories_ok d"
    "movements_ok (reflagged f g d) \<longleftrightarrow> movements_ok d" "alerts_ok (reflagged f g d) \<longleftrightarrow> alerts_ok d"
    "users_ok (reflagged f g d) \<longleftrightarrow> users_ok d"
    by (simp_all add: inventories_ok_def movements_ok_def alerts_ok_def users_ok_def)
  ultimately show ?thesis by (simp add: constraints_def)
qed

lemma movement_problem_reflagged [simp]: "movement_problem x (reflagged f g d) = movement_problem x d"
  by (simp add: movement_problem_def leg_problems_def removal_problem_def receipt_problem_def
      split: option.splits)

lemma fresh_reflagged: "fresh e n (w\<lparr>work := reflagged f g d\<rparr>) \<longleftrightarrow> fresh e n (w\<lparr>work := d\<rparr>)"
  by (simp add: fresh_def all_ids_def)

lemma leg_overflow:
  assumes "mc_movement_type x = IN" "movement_create_ok x" "mc_destination_warehouse_id x = Some t"
    and "mc_product_id x \<in> set (ids (products d))" "t \<in> set (ids (warehouses d))"
    and "stock_nonneg d" "2 ^ 31 \<le> stock_in (inventories d) (mc_product_id x) t + mc_quantity x"
  shows "movement_problem x d = Some DatabaseError"
  using assms(2) assms
  by (cases rule: movement_create_ok_cases)
    (auto simp: movement_problem_def leg_problems_def receipt_problem_def int4_def)

section \<open>The exceptions a movement can raise\<close>

text \<open>
  \<open>movement_failures\<close> is what recording a movement whose payload was validated can raise; no
  assert of the service is among it.
\<close>

definition no_such_row :: "exc set" where
  "no_such_row = range (\<lambda>m. App (NotFoundError m))"

definition stock_shortage :: "exc set" where
  "stock_shortage = range (\<lambda>m. App (InsufficientStockError m))"

definition server_faults :: "exc set" where
  "server_faults = {DatabaseError, MultipleResultsFound}"

definition movement_failures :: "exc set" where
  "movement_failures = no_such_row \<union> stock_shortage \<union> server_faults"

lemma no_such_row_mem [simp]: "not_found m i \<in> no_such_row" "no_inventory_record p wh \<in> no_such_row"
  by (simp_all add: no_such_row_def not_found_def no_inventory_record_def)

lemma movement_failures_mem [simp]:
  "DatabaseError \<in> movement_failures" "MultipleResultsFound \<in> movement_failures"
  "not_found m i \<in> movement_failures" "no_inventory_record p wh \<in> movement_failures"
  "insufficient_stock q p wh a \<in> movement_failures" "AssertionError \<notin> movement_failures"
  by (auto simp: movement_failures_def server_faults_def stock_shortage_def insufficient_stock_def
      no_such_row_def not_found_def no_inventory_record_def)

lemma raises_only_legs [raises_rules]:
  "raises_only movement_failures (increase_stock e p wh q)"
  "raises_only movement_failures (decrease_stock e p wh q)"
  unfolding increase_stock_def decrease_stock_def by (intro raises_rules; simp)+

lemma raises_only_transfer [raises_rules]: "raises_only movement_failures (transfer_stock e p s d q)"
  unfolding transfer_stock_def by (intro raises_rules)

lemma raises_only_evaluate [raises_rules]:
  assumes "DatabaseError \<in> X" and "MultipleResultsFound \<in> X"
  shows "raises_only X (evaluate_stock_level e iv)"
proof -
  have "raises_only X (enqueue_notification e a)" for a
    by (auto simp: raises_only_def enqueue_notification_def split: prod.splits)
  then show ?thesis
    unfolding evaluate_stock_level_def Let_def resolve_def react_to_alert_def new_event_def publish_def
      get_active_by_product_and_warehouse_def
    by (intro raises_rules; simp add: assms)
qed

lemma raises_only_record_movement:
  assumes "movement_create_ok x"
  shows "raises_only movement_failures (record_movement e x u)"
proof -
  have "raises_only movement_failures (apply_movement e x)"
    using assms by (cases rule: movement_create_ok_cases)
      (auto simp: apply_movement_def split_def intro!: raises_rules)
  moreover have "movement_event_body x first \<noteq> Inl y" for first y
    using assms by (cases rule: movement_create_ok_cases) (simp_all add: movement_event_body_def)
  ultimately show ?thesis
    unfolding record_movement_def build_movement_event_def new_event_def publish_def held_def
    by (intro raises_rules) auto
qed

end
