(* ===== verification/InventoryQuery.thy ===== *)
theory InventoryQuery
  imports Acceptance
begin

text \<open>
  InventoryQueryService (app/services/inventory_query.py): the read half of the inventory
  aggregate. The lemmas say that a stock level read is the stock of the pair, that no query
  changes the database, and which rows a listing shows.
\<close>

definition get_stock_level :: "uuid \<Rightarrow> uuid \<Rightarrow> ('x, inventory) service" where
  "get_stock_level p wh = andthen (get_by_product_and_warehouse p wh) (\<lambda>found.
     case found of None \<Rightarrow> raise (no_inventory_record p wh) | Some iv \<Rightarrow> ret iv)"

definition list_warehouse_stock :: "'x deps \<Rightarrow> uuid \<Rightarrow> int \<Rightarrow> int \<Rightarrow> ('x, inventory list) service" where
  "list_warehouse_stock e wh skip limit = list_inventory_by_warehouse e wh skip limit"

definition list_low_stock_records :: "'x deps \<Rightarrow> int \<Rightarrow> int \<Rightarrow> ('x, inventory list) service" where
  "list_low_stock_records e skip limit = list_low_stock e skip limit"

definition list_all_stock :: "'x deps \<Rightarrow> int \<Rightarrow> int \<Rightarrow> ('x, inventory list) service" where
  "list_all_stock e skip limit = list_all_rows e inventories_table skip limit"

lemma get_stock_level_run:
  assumes ok: "constraints (work w)"
  shows "get_stock_level p wh w =
    (case find (\<lambda>r. inv_pair r = (p, wh)) (inventories (work w)) of
       None \<Rightarrow> Inl (no_inventory_record p wh) | Some r \<Rightarrow> Inr r, w)"
  by (simp add: get_stock_level_def andthen_def get_by_pair_run [OF ok] split: option.splits)

lemma get_stock_level_Inr:
  assumes ok: "constraints (work w)" and run: "get_stock_level p wh w = (Inr r, w')"
  shows "w' = w" and "r \<in> set (inventories (work w))" and "inv_pair r = (p, wh)"
    and "inv_quantity r = stock_in (inventories (work w)) p wh"
proof -
  have f: "find (\<lambda>r. inv_pair r = (p, wh)) (inventories (work w)) = Some r" and w: "w' = w"
    using run unfolding get_stock_level_run [OF ok] by (auto split: option.splits)
  from f have r: "r \<in> set (inventories (work w))" "inv_pair r = (p, wh)" by (auto dest: find_SomeD)
  have "distinct (map inv_pair (inventories (work w)))" using ok by (simp add: constraint_defs)
  from stock_in_row [OF this r(1)] r(2)
  show "inv_quantity r = stock_in (inventories (work w)) p wh" by simp
  show "w' = w" "r \<in> set (inventories (work w))" "inv_pair r = (p, wh)" using r w by blast+
qed

lemma stock_in_none: "\<forall>r \<in> set rs. inv_pair r \<noteq> (p, wh) \<Longrightarrow> stock_in rs p wh = 0"
  by (induction rs) (auto simp: stock_in_def)

text \<open>A page of a query: what it holds, and what the query leaves alone.\<close>

lemma select_page_run: "select_page e skip limit refine t w =
    (paginate skip limit (refine (scan e (tick w) (rows t (work w)))), w\<lparr>tick := Suc (tick w)\<rparr>)"
  by (simp add: select_page_def)

lemma paginate_Inr: "paginate skip limit rs = Inr page \<longleftrightarrow> 0 \<le> skip \<and> skip < 2 ^ 63 \<and> 0 \<le> limit \<and>
    limit < 2 ^ 63 \<and> page = take (nat limit) (drop (nat skip) rs)"
  by (auto simp: paginate_def)

lemma select_page_all:
  assumes fair: "fair_scan e" and keep: "\<And>rs. mset (refine rs) = filter_mset P (mset rs)"
    and big: "int (length (rows t (work w))) \<le> limit" "limit < 2 ^ 63"
  shows "\<exists>page w'. select_page e 0 limit refine t w = (Inr page, w') \<and>
    mset page = filter_mset P (mset (rows t (work w)))"
proof -
  let ?rs = "refine (scan e (tick w) (rows t (work w)))"
  have m: "mset ?rs = filter_mset P (mset (rows t (work w)))"
    by (simp add: keep mset_scan [OF fair])
  have "length ?rs = size (filter_mset P (mset (rows t (work w))))"
    using m by (metis size_mset)
  also have "\<dots> \<le> length (rows t (work w))"
    using size_filter_mset_lesseq [of P "mset (rows t (work w))"] by simp
  finally have "int (length ?rs) \<le> limit" using big(1) by linarith
  then have "take (nat limit) ?rs = ?rs" by simp
  moreover have "0 \<le> limit" using big(1) by linarith
  ultimately show ?thesis
    using m big(2) by (simp add: select_page_run paginate_Inr)
qed

text \<open>Consecutive pages of one scan cover it, each row once.\<close>

lemma pages_cover:
  assumes "paginate 0 a rs = Inr p" and "paginate a b rs = Inr q" and "int (length rs) \<le> a + b"
  shows "p @ q = rs"
  using assms by (auto simp: paginate_Inr append_eq_conv_conj)

lemma list_low_stock_empty:
  assumes "own_thresholds (work w) = {}" and "fair_scan e"
    and run: "list_low_stock e skip limit w = (Inr page, w')"
  shows "page = []"
proof -
  have "\<not> below_own_threshold r" if "r \<in> set (inventories (work w))" for r
    using assms(1) that by (auto simp: own_thresholds_def below_own_threshold_def split: option.splits)
  then have "filter below_own_threshold (scan e (tick w) (inventories (work w))) = []"
    using assms(2) by (simp add: filter_empty_conv)
  with run show ?thesis
    by (auto simp: list_low_stock_def select_page_run paginate_Inr)
qed

end
