(* ===== verification/Sweep.thy ===== *)
theory Sweep
  imports Acceptance
begin

text \<open>
  The periodic low-stock sweep (app/tasks/alerts.py): it pages through the inventory table
  and evaluates every record. The loop has no bound in the code, so it is a partial function
  here; it is shown to end, and, where the database returns the rows in the same order for
  every page, to have evaluated each record once and left every alert as wanted.
\<close>

section \<open>Definitions\<close>

definition BATCH_SIZE :: int where
  "BATCH_SIZE = 200"

text \<open>The inner loop: \<open>alerts_active\<close> counts the evaluations that left an active alert.\<close>

fun evaluate_batch :: "'x deps \<Rightarrow> inventory list \<Rightarrow> int \<Rightarrow> ('x, int) service" where
  "evaluate_batch e [] alerts_active = ret alerts_active"
| "evaluate_batch e (iv # ivs) alerts_active = andthen (evaluate_stock_level e iv) (\<lambda>alert.
     evaluate_batch e ivs (if alert = None then alerts_active else alerts_active + 1))"

partial_function (option) sweep_pages ::
  "'x deps \<Rightarrow> int \<Rightarrow> int \<Rightarrow> int \<Rightarrow> 'x world \<Rightarrow> ((exc + int \<times> int) \<times> 'x world) option" where
  "sweep_pages e skip evaluated alerts_active w =
     (case list_all_rows e inventories_table skip BATCH_SIZE w of (page, w1) \<Rightarrow>
      case page of
        Inl x \<Rightarrow> Some (Inl x, w1)
      | Inr batch \<Rightarrow>
          if batch = [] then Some (Inr (evaluated, alerts_active), w1)
          else (case evaluate_batch e batch alerts_active w1 of (res, w2) \<Rightarrow>
                case res of
                  Inl x \<Rightarrow> Some (Inl x, w2)
                | Inr active \<Rightarrow>
                    sweep_pages e (skip + BATCH_SIZE) (evaluated + int (length batch)) active w2))"

definition check_low_stock_levels ::
  "'x deps \<Rightarrow> 'x world \<Rightarrow> ((exc + int \<times> int) \<times> 'x world) option" where
  "check_low_stock_levels e w = map_option (\<lambda>(r, w'). (r, close_session w'))
     (sweep_pages e 0 0 0 (begin_session e w))"

section \<open>One batch\<close>

definition in_alert :: "'x deps \<Rightarrow> inventory list \<Rightarrow> int" where
  "in_alert e rs = int (length (filter (\<lambda>r. wanted e r \<noteq> None) rs))"

lemma in_alert_simps [simp]:
  "in_alert e [] = 0" "in_alert e (rs @ ss) = in_alert e rs + in_alert e ss"
  "in_alert e (r # rs) = (if wanted e r = None then 0 else 1) + in_alert e rs"
  by (simp_all add: in_alert_def)

lemma evaluate_result:
  assumes "evaluate_stock_level e r w = (Inr a, w')" and "constraints (work w)"
    and "r \<in> set (inventories (work w))"
  shows "a = None \<longleftrightarrow> wanted e r = None"
proof -
  note st = evaluate_step [OF assms(1,2) int4_quantity [OF assms(2,3)]]
  have "map al_alert_type (pair_active w' r) = (case wanted e r of None \<Rightarrow> [] | Some k \<Rightarrow> [k])"
    using st(1) by (simp add: alert_step_def)
  with st(3) show ?thesis
    by (cases "pair_active w' r"; cases "wanted e r") auto
qed

lemma evaluate_batch_steps:
  assumes "evaluate_batch e rs n w = (res, w')" and "constraints (work w)" and "committed w = work w"
    and "set rs \<subseteq> set (inventories (work w))"
  shows "alert_steps (work w) (committed w')"
    and "res = Inr m \<Longrightarrow> committed w' = work w' \<and> m = n + in_alert e rs"
    and "res = Inr m \<Longrightarrow> s \<in> set (inventories (work w)) \<Longrightarrow>
        s \<in> set rs \<or> reconciled e (work w) s \<Longrightarrow> reconciled e (work w') s"
proof -
  have "alert_steps (work w) (committed w') \<and> (\<forall>m. res = Inr m \<longrightarrow> committed w' = work w' \<and>
     m = n + in_alert e rs \<and>
     (\<forall>s \<in> set (inventories (work w)). s \<in> set rs \<or> reconciled e (work w) s \<longrightarrow>
        reconciled e (work w') s))"
    using assms
  proof (induction rs arbitrary: w n)
    case Nil
    then show ?case by auto
  next
    case (Cons r rs)
    note ok = Cons.prems(2) and comm = Cons.prems(3)
    have r: "r \<in> set (inventories (work w))" using Cons.prems(4) by simp
    note q = int4_quantity [OF ok r]
    obtain rv w1 where ev: "evaluate_stock_level e r w = (rv, w1)" by fastforce
    show ?case
    proof (cases rv)
      case (Inl y)
      with ev have ev: "evaluate_stock_level e r w = (Inl y, w1)" by simp
      from evaluate_raises(1) [OF ev ok q] ev Cons.prems(1) comm show ?thesis by auto
    next
      case (Inr a)
      with ev have ev: "evaluate_stock_level e r w = (Inr a, w1)" by simp
      note st = evaluate_step [OF ev ok q]
      have steps: "alert_steps (work w) (work w1)" by (rule alert_step_steps [OF st(1,4)])
      have ok1: "constraints (work w1)" by (rule alert_steps_constraints [OF steps ok])
      have comm1: "committed w1 = work w1" using st(2) comm by auto
      have inv: "inventories (work w1) = inventories (work w)" by (rule alert_steps_tables(1) [OF steps])
      have run: "evaluate_batch e rs (if a = None then n else n + 1) w1 = (res, w')"
        using Cons.prems(1) ev by simp
      have "set rs \<subseteq> set (inventories (work w1))" using Cons.prems(4) inv by simp
      note IH = Cons.IH [OF run ok1 comm1 this]
      show ?thesis
      proof (intro conjI allI impI ballI)
        show "alert_steps (work w) (committed w')" using rtranclp_trans [OF steps] IH by blast
        fix m assume m: "res = Inr m"
        with IH show "committed w' = work w'" by blast
        show "m = n + in_alert e (r # rs)"
          using IH m evaluate_result [OF ev ok r] by (auto split: if_splits)
        fix s assume s: "s \<in> set (inventories (work w))" "s \<in> set (r # rs) \<or> reconciled e (work w) s"
        then have "s \<in> set rs \<or> reconciled e (work w1) s"
          using alert_step_reconciles [OF st(1) ok r] by auto
        with IH m s(1) inv show "reconciled e (work w') s" by auto
      qed
    qed
  qed
  then show "alert_steps (work w) (committed w')"
    and "res = Inr m \<Longrightarrow> committed w' = work w' \<and> m = n + in_alert e rs"
    and "res = Inr m \<Longrightarrow> s \<in> set (inventories (work w)) \<Longrightarrow>
        s \<in> set rs \<or> reconciled e (work w) s \<Longrightarrow> reconciled e (work w') s" by blast+
qed

section \<open>The loop ends\<close>

lemma page_run: "list_all_rows e inventories_table skip n w =
    (paginate skip n (scan e (tick w) (inventories (work w))), w\<lparr>tick := Suc (tick w)\<rparr>)"
  by (simp add: list_all_rows_def select_page_def)

lemma set_page: "fair_scan e \<Longrightarrow> set (take m (drop n (scan e k rs))) \<subseteq> set rs"
  using set_take_subset set_drop_subset set_scan by (metis order_trans)

lemma sweep_pages_total:
  assumes "fair_scan e" and "constraints (work w)" and "committed w = work w" and "0 \<le> skip"
  shows "\<exists>res w'. sweep_pages e skip n a w = Some (res, w') \<and> alert_steps (work w) (committed w')"
  using assms
proof (induction "nat (int (length (inventories (work w))) + BATCH_SIZE - skip)"
    arbitrary: w skip n a rule: less_induct)
  case less
  let ?w1 = "w\<lparr>tick := Suc (tick w)\<rparr>"
  obtain page where pg: "list_all_rows e inventories_table skip BATCH_SIZE w = (page, ?w1)"
    by (simp add: page_run)
  show ?case
  proof (cases page)
    case (Inl x)
    with pg less.prems show ?thesis by (subst sweep_pages.simps) simp
  next
    case (Inr batch)
    then have batch: "batch = take (nat BATCH_SIZE) (drop (nat skip) (scan e (tick w) (inventories (work w))))"
      using pg by (auto simp: page_run paginate_def split: if_splits)
    show ?thesis
    proof (cases "batch = []")
      case True
      with pg Inr less.prems show ?thesis by (subst sweep_pages.simps) simp
    next
      case False
      then have skip: "skip < int (length (inventories (work w)))"
        using less.prems(1,4) by (auto simp: batch)
      have sub: "set batch \<subseteq> set (inventories (work ?w1))"
        using set_page [OF less.prems(1)] by (simp add: batch)
      obtain res w2 where b: "evaluate_batch e batch a ?w1 = (res, w2)" by fastforce
      note st = evaluate_batch_steps [OF b _ _ sub]
      show ?thesis
      proof (cases res)
        case (Inl x)
        with pg Inr False b st(1) less.prems show ?thesis by (subst sweep_pages.simps) simp
      next
        case (Inr m)
        then have comm: "committed w2 = work w2" using st(2) less.prems by simp
        with st(1) less.prems have steps: "alert_steps (work w) (work w2)" by simp
        have inv: "inventories (work w2) = inventories (work w)" by (rule alert_steps_tables(1) [OF steps])
        have "\<exists>res w'. sweep_pages e (skip + BATCH_SIZE) (n + int (length batch)) m w2 = Some (res, w') \<and>
            alert_steps (work w2) (committed w')"
          by (rule less.hyps)
            (use skip inv less.prems comm alert_steps_constraints [OF steps] in \<open>simp_all add: BATCH_SIZE_def\<close>)
        then obtain res' w' where
          "sweep_pages e (skip + BATCH_SIZE) (n + int (length batch)) m w2 = Some (res', w')"
          "alert_steps (work w2) (committed w')" by blast
        moreover have "sweep_pages e skip n a w =
            sweep_pages e (skip + BATCH_SIZE) (n + int (length batch)) m w2"
          using pg \<open>page = Inr batch\<close> False b Inr by (subst sweep_pages.simps) simp
        ultimately show ?thesis using steps by (auto intro: rtranclp_trans)
      qed
    qed
  qed
qed

section \<open>What the sweep evaluated\<close>

text \<open>The database gives every unordered query over the same rows the same order.\<close>

definition stable_scan :: "'x deps \<Rightarrow> bool" where
  "stable_scan e \<longleftrightarrow> (\<forall>k k' n. scan_order e k n = scan_order e k' n)"

lemma scan_stable: "stable_scan e \<Longrightarrow> scan e k rs = scan e 0 rs"
  unfolding stable_scan_def scan_def by metis

lemma drop_all_rows: "\<lbrakk>0 \<le> skip; take (nat n) (drop (nat skip) L) = []; 0 < n\<rbrakk> \<Longrightarrow> drop (nat skip) L = []"
  by (cases "drop (nat skip) L") auto

lemma sweep_pages_covers:
  assumes "fair_scan e" and "stable_scan e" and "constraints (work w)" and "committed w = work w"
    and "0 \<le> skip" and "sweep_pages e skip n a w = Some (Inr (n', a'), w')"
    and "L = scan e 0 (inventories (work w))"
  shows "n' = n + int (length (drop (nat skip) L)) \<and> a' = a + in_alert e (drop (nat skip) L) \<and>
    committed w' = work w' \<and>
    (\<forall>s \<in> set (inventories (work w)). s \<in> set (drop (nat skip) L) \<or> reconciled e (work w) s \<longrightarrow>
       reconciled e (work w') s)"
  using assms
proof (induction "nat (int (length (inventories (work w))) + BATCH_SIZE - skip)"
    arbitrary: w skip n a rule: less_induct)
  case less
  note L = less.prems(7)
  let ?w1 = "w\<lparr>tick := Suc (tick w)\<rparr>"
  obtain page where pg: "list_all_rows e inventories_table skip BATCH_SIZE w = (page, ?w1)"
    by (simp add: page_run)
  obtain batch where Inr: "page = Inr batch"
    using less.prems(6) pg by (subst (asm) sweep_pages.simps) (cases page; simp)
  then have batch: "batch = take (nat BATCH_SIZE) (drop (nat skip) L)"
    using pg scan_stable [OF less.prems(2), of "tick w" "inventories (work w)"]
    by (simp add: page_run paginate_def L split: if_splits)
  have len: "length L = length (inventories (work w))" using less.prems(1) by (simp add: L)
  show ?case
  proof (cases "batch = []")
    case True
    then have "drop (nat skip) L = []"
      using drop_all_rows [of skip BATCH_SIZE L] less.prems(5) batch by (simp add: BATCH_SIZE_def)
    moreover have "n' = n \<and> a' = a \<and> w' = ?w1"
      using less.prems(6) pg Inr True by (subst (asm) sweep_pages.simps) simp
    ultimately show ?thesis using less.prems(4) by (simp add: reconciled_def)
  next
    case False
    then have skip: "skip < int (length (inventories (work w)))"
      using less.prems(5) len by (auto simp: batch)
    have sub: "set batch \<subseteq> set (inventories (work ?w1))"
      using set_page [OF less.prems(1)] by (simp add: batch L)
    obtain res w2 where b: "evaluate_batch e batch a ?w1 = (res, w2)" by fastforce
    note st = evaluate_batch_steps [OF b _ _ sub]
    obtain m where m: "res = Inr m"
      using less.prems(6) pg Inr False b by (subst (asm) sweep_pages.simps) (cases res; simp)
    then have comm: "committed w2 = work w2" and am: "m = a + in_alert e batch"
      using st(2) less.prems by simp_all
    with st(1) less.prems have steps: "alert_steps (work w) (work w2)" by simp
    have inv: "inventories (work w2) = inventories (work w)" by (rule alert_steps_tables(1) [OF steps])
    have rec: "sweep_pages e (skip + BATCH_SIZE) (n + int (length batch)) m w2 = Some (Inr (n', a'), w')"
      using less.prems(6) pg Inr False b m by (subst (asm) sweep_pages.simps) simp
    have dropped: "drop (nat skip) L = batch @ drop (nat (skip + BATCH_SIZE)) L"
    proof -
      have "nat (skip + BATCH_SIZE) = nat skip + nat BATCH_SIZE"
        using less.prems(5) by (simp add: BATCH_SIZE_def)
      then have "drop (nat (skip + BATCH_SIZE)) L = drop (nat BATCH_SIZE) (drop (nat skip) L)"
        by (simp add: add.commute)
      then show ?thesis unfolding batch by (metis append_take_drop_id)
    qed
    have IH: "n' = n + int (length batch) + int (length (drop (nat (skip + BATCH_SIZE)) L)) \<and>
        a' = m + in_alert e (drop (nat (skip + BATCH_SIZE)) L) \<and> committed w' = work w' \<and>
        (\<forall>s \<in> set (inventories (work w2)). s \<in> set (drop (nat (skip + BATCH_SIZE)) L) \<or>
          reconciled e (work w2) s \<longrightarrow> reconciled e (work w') s)"
      by (rule less.hyps)
        (use skip inv less.prems comm rec L alert_steps_constraints [OF steps]
          in \<open>simp_all add: BATCH_SIZE_def\<close>)
    have "reconciled e (work w') s" if "s \<in> set (inventories (work w))"
      "s \<in> set (drop (nat skip) L) \<or> reconciled e (work w) s" for s
    proof -
      have "s \<in> set (drop (nat (skip + BATCH_SIZE)) L) \<or> reconciled e (work w2) s"
        using st(3) [OF _ _ m] that less.prems unfolding dropped by auto
      with IH that(1) inv show ?thesis by auto
    qed
    with IH am show ?thesis unfolding dropped by simp
  qed
qed

end
