(* ===== verification/Api.thy ===== *)
theory Api
  imports Catalogue InventoryQuery Sweep
begin

text \<open>
  The HTTP surface (app/api/v1): every route of the warehouses, products, inventory,
  movements and alerts endpoints is a \<open>request\<close>; \<open>route\<close> is the endpoint functions, and
  \<open>serve\<close> what FastAPI does around them: validation first (422), then a session of its own
  (get_db), then the response or the exception handlers.

  \<open>system_step\<close> is one request served, or one run of the periodic sweep, on the shared
  state; the last section proves what holds in every state so reached.
\<close>

section \<open>Requests and responses\<close>

datatype request =
    ListWarehouses int int bool
  | GetWarehouse uuid
  | CreateWarehouse warehouse_create
  | UpdateWarehouse uuid warehouse_update
  | DeactivateWarehouse uuid
  | ListProducts int int bool "string option"
  | GetProduct uuid
  | CreateProduct product_create
  | UpdateProduct uuid product_update
  | DeactivateProduct uuid
  | ListInventory int int "uuid option" bool
  | GetStockLevel uuid uuid
  | RecordMovement movement_create
  | ListMovements int int "uuid option" "uuid option"
  | GetMovement uuid
  | ListAlerts int int bool
  | GetAlert uuid
  | ResolveAlert uuid

datatype content =
    WarehouseBody warehouse_read
  | WarehousesBody "warehouse_read list"
  | ProductBody product_read
  | ProductsBody "product_read list"
  | InventoryBody inventory_read
  | InventoriesBody "inventory_read list"
  | MovementBody movement_read
  | MovementsBody "movement_read list"
  | AlertBody alert_read
  | AlertsBody "alert_read list"
  | ErrorBody string

record response =
  resp_status :: int
  resp_content :: content

text \<open>
  An endpoint validates what its service returned against the read model, after the
  service's commit: a row the model refuses is an exception of the request.
\<close>

definition then_show :: "('a \<Rightarrow> content option) \<Rightarrow> ('x, 'a) service \<Rightarrow> ('x, content) service" where
  "then_show view f = andthen f (\<lambda>a.
     case view a of Some c \<Rightarrow> ret c | None \<Rightarrow> raise ResponseValidationError)"

section \<open>The endpoint functions\<close>

definition list_products_endpoint ::
  "'x deps \<Rightarrow> int \<Rightarrow> int \<Rightarrow> bool \<Rightarrow> string option \<Rightarrow> ('x, product list) service" where
  "list_products_endpoint e skip limit active_only search =
     (case search of
        Some q \<Rightarrow> if q \<noteq> [] then search_products e q skip limit
                  else list_products e skip limit active_only
      | None \<Rightarrow> list_products e skip limit active_only)"

definition list_inventory_endpoint ::
  "'x deps \<Rightarrow> int \<Rightarrow> int \<Rightarrow> uuid option \<Rightarrow> bool \<Rightarrow> ('x, inventory list) service" where
  "list_inventory_endpoint e skip limit warehouse_id low_stock_only =
     (case warehouse_id of
        Some wh \<Rightarrow> list_warehouse_stock e wh skip limit
      | None \<Rightarrow> if low_stock_only then list_low_stock_records e skip limit
                else list_all_stock e skip limit)"

definition list_movements_endpoint ::
  "'x deps \<Rightarrow> int \<Rightarrow> int \<Rightarrow> uuid option \<Rightarrow> uuid option \<Rightarrow> ('x, movement list) service" where
  "list_movements_endpoint e skip limit product_id warehouse_id =
     (case product_id of
        Some p \<Rightarrow> list_movements_by_product e p skip limit
      | None \<Rightarrow> (case warehouse_id of
          Some wh \<Rightarrow> list_movements_by_warehouse e wh skip limit
        | None \<Rightarrow> list_all_rows e movements_table skip limit))"

definition list_alerts_endpoint :: "'x deps \<Rightarrow> int \<Rightarrow> int \<Rightarrow> bool \<Rightarrow> ('x, alert list) service" where
  "list_alerts_endpoint e skip limit active_only =
     (if active_only then list_active_alerts e skip limit else list_all_rows e alerts_table skip limit)"

text \<open>
  The other endpoints call one service method. What FastAPI returns is the read model of
  the row.
\<close>

definition list_warehouses_endpoint :: "'x deps \<Rightarrow> int \<Rightarrow> int \<Rightarrow> bool \<Rightarrow> ('x, content) service" where
  "list_warehouses_endpoint e skip limit active_only =
     then_show (\<lambda>rs. map_option WarehousesBody (those (map warehouse_read rs))) (list_warehouses e skip limit active_only)"

definition get_warehouse_endpoint :: "uuid \<Rightarrow> ('x, content) service" where
  "get_warehouse_endpoint i = then_show (\<lambda>r. map_option WarehouseBody (warehouse_read r)) (get_warehouse i)"

definition create_warehouse_endpoint :: "'x deps \<Rightarrow> warehouse_create \<Rightarrow> ('x, content) service" where
  "create_warehouse_endpoint e x =
     then_show (\<lambda>r. map_option WarehouseBody (warehouse_read r)) (create_warehouse e x)"

definition update_warehouse_endpoint :: "'x deps \<Rightarrow> uuid \<Rightarrow> warehouse_update \<Rightarrow> ('x, content) service" where
  "update_warehouse_endpoint e i x =
     then_show (\<lambda>r. map_option WarehouseBody (warehouse_read r)) (update_warehouse e i x)"

definition deactivate_warehouse_endpoint :: "'x deps \<Rightarrow> uuid \<Rightarrow> ('x, content) service" where
  "deactivate_warehouse_endpoint e i =
     then_show (\<lambda>r. map_option WarehouseBody (warehouse_read r)) (deactivate_warehouse e i)"

definition get_product_endpoint :: "uuid \<Rightarrow> ('x, content) service" where
  "get_product_endpoint i = then_show (\<lambda>r. map_option ProductBody (product_read r)) (get_product i)"

definition create_product_endpoint :: "'x deps \<Rightarrow> product_create \<Rightarrow> ('x, content) service" where
  "create_product_endpoint e x = then_show (\<lambda>r. map_option ProductBody (product_read r)) (create_product e x)"

definition update_product_endpoint :: "'x deps \<Rightarrow> uuid \<Rightarrow> product_update \<Rightarrow> ('x, content) service" where
  "update_product_endpoint e i x =
     then_show (\<lambda>r. map_option ProductBody (product_read r)) (update_product e i x)"

definition deactivate_product_endpoint :: "'x deps \<Rightarrow> uuid \<Rightarrow> ('x, content) service" where
  "deactivate_product_endpoint e i =
     then_show (\<lambda>r. map_option ProductBody (product_read r)) (deactivate_product e i)"

definition get_stock_level_endpoint :: "uuid \<Rightarrow> uuid \<Rightarrow> ('x, content) service" where
  "get_stock_level_endpoint p wh =
     then_show (\<lambda>r. Some (InventoryBody (inventory_read r))) (get_stock_level p wh)"

text \<open>No route authenticates its caller yet, so \<open>performed_by\<close> is never given.\<close>

definition record_movement_endpoint :: "'x deps \<Rightarrow> movement_create \<Rightarrow> ('x, content) service" where
  "record_movement_endpoint e x =
     then_show (\<lambda>r. Some (MovementBody (movement_read r))) (record_movement e x None)"

definition get_movement_endpoint :: "uuid \<Rightarrow> ('x, content) service" where
  "get_movement_endpoint i =
     then_show (\<lambda>r. Some (MovementBody (movement_read r))) (get_by_id_or_raise movements_table i)"

definition get_alert_endpoint :: "uuid \<Rightarrow> ('x, content) service" where
  "get_alert_endpoint i = then_show (\<lambda>r. Some (AlertBody (alert_read r))) (get_by_id_or_raise alerts_table i)"

definition resolve_alert_endpoint :: "'x deps \<Rightarrow> uuid \<Rightarrow> ('x, content) service" where
  "resolve_alert_endpoint e i = then_show (\<lambda>r. Some (AlertBody (alert_read r))) (resolve_alert e i)"

lemmas endpoint_defs [simp] = list_warehouses_endpoint_def get_warehouse_endpoint_def
  create_warehouse_endpoint_def update_warehouse_endpoint_def deactivate_warehouse_endpoint_def
  get_product_endpoint_def create_product_endpoint_def update_product_endpoint_def
  deactivate_product_endpoint_def get_stock_level_endpoint_def record_movement_endpoint_def
  get_movement_endpoint_def get_alert_endpoint_def resolve_alert_endpoint_def

fun route :: "'x deps \<Rightarrow> request \<Rightarrow> ('x, content) service" where
  "route e (ListWarehouses skip limit active_only) = list_warehouses_endpoint e skip limit active_only"
| "route e (GetWarehouse i) = get_warehouse_endpoint i"
| "route e (CreateWarehouse x) = create_warehouse_endpoint e x"
| "route e (UpdateWarehouse i x) = update_warehouse_endpoint e i x"
| "route e (DeactivateWarehouse i) = deactivate_warehouse_endpoint e i"
| "route e (ListProducts skip limit active_only search) =
     then_show (\<lambda>rs. map_option ProductsBody (those (map product_read rs)))
       (list_products_endpoint e skip limit active_only search)"
| "route e (GetProduct i) = get_product_endpoint i"
| "route e (CreateProduct x) = create_product_endpoint e x"
| "route e (UpdateProduct i x) = update_product_endpoint e i x"
| "route e (DeactivateProduct i) = deactivate_product_endpoint e i"
| "route e (ListInventory skip limit wh low) =
     then_show (\<lambda>rs. Some (InventoriesBody (map inventory_read rs))) (list_inventory_endpoint e skip limit wh low)"
| "route e (GetStockLevel p wh) = get_stock_level_endpoint p wh"
| "route e (RecordMovement x) = record_movement_endpoint e x"
| "route e (ListMovements skip limit p wh) =
     then_show (\<lambda>rs. Some (MovementsBody (map movement_read rs))) (list_movements_endpoint e skip limit p wh)"
| "route e (GetMovement i) = get_movement_endpoint i"
| "route e (ListAlerts skip limit active_only) =
     then_show (\<lambda>rs. Some (AlertsBody (map alert_read rs))) (list_alerts_endpoint e skip limit active_only)"
| "route e (GetAlert i) = get_alert_endpoint i"
| "route e (ResolveAlert i) = resolve_alert_endpoint e i"

text \<open>The payloads FastAPI accepts, and the status of a successful response.\<close>

fun request_ok :: "request \<Rightarrow> bool" where
  "request_ok (CreateWarehouse x) = warehouse_create_ok x"
| "request_ok (UpdateWarehouse i x) = warehouse_update_ok x"
| "request_ok (CreateProduct x) = product_create_ok x"
| "request_ok (UpdateProduct i x) = product_update_ok x"
| "request_ok (RecordMovement x) = movement_create_ok x"
| "request_ok _ = True"

fun success_status :: "request \<Rightarrow> int" where
  "success_status (CreateWarehouse x) = 201"
| "success_status (CreateProduct x) = 201"
| "success_status (RecordMovement x) = 201"
| "success_status _ = 200"

definition serve :: "'x deps \<Rightarrow> request \<Rightarrow> 'x world \<Rightarrow> response \<times> 'x world" where
  "serve e req w =
     (if \<not> request_ok req then (\<lparr>resp_status = 422, resp_content = ErrorBody ''validation''\<rparr>, w)
      else case get_db e (route e req) w of
        (Inr c, w') \<Rightarrow> (\<lparr>resp_status = success_status req, resp_content = c\<rparr>, w')
      | (Inl x, w') \<Rightarrow> (\<lparr>resp_status = status_code (handle_exception x),
            resp_content = ErrorBody (detail (handle_exception x))\<rparr>, w'))"

inductive system_step :: "'x deps \<Rightarrow> 'x world \<Rightarrow> 'x world \<Rightarrow> bool" for e where
  request: "serve e req w = (resp, w') \<Longrightarrow> system_step e w w'"
| sweep: "check_low_stock_levels e w = Some (res, w') \<Longrightarrow> system_step e w w'"

inductive_cases system_stepE: "system_step e w w'"

section \<open>What a request can commit\<close>

text \<open>
  \<open>table_written P t\<close>: nothing was committed, or the table was written and nothing else, and
  if all its rows satisfied \<open>P\<close> they still do.
\<close>

definition table_written :: "('r \<Rightarrow> bool) \<Rightarrow> 'r table \<Rightarrow> 'x world \<Rightarrow> 'x world \<Rightarrow> bool" where
  "table_written P t w w' \<longleftrightarrow> committed w' = committed w \<or>
     constraints (committed w') \<and> (\<exists>rs. committed w' = put_rows t rs (work w) \<and>
       ((\<forall>r \<in> set (rows t (work w)). P r) \<longrightarrow> (\<forall>r \<in> set rs. P r)))"

lemma table_writtenI:
  "constraints (committed w') \<Longrightarrow> committed w' = put_rows t rs (work w) \<Longrightarrow>
     ((\<forall>r \<in> set (rows t (work w)). P r) \<Longrightarrow> \<forall>r \<in> set rs. P r) \<Longrightarrow> table_written P t w w'"
  unfolding table_written_def by blast

context table_store
begin

lemma save_written:
  assumes run: "save e t i f w = (res, w')"
    and keep: "\<And>r. r \<in> set (rows t (work w)) \<Longrightarrow> P r \<Longrightarrow> P (touch (tx_time w) f r)"
  shows "table_written P t w w'"
proof -
  let ?rs = "update_by entity_id i (touch (tx_time w) f) (rows t (work w))"
  have "committed w' = committed w \<or>
      constraints (committed w') \<and> committed w' = put_rows t ?rs (work w)"
    using run by (auto simp: save_def set_attributes_def put_all_def andthen_def commit_run refresh_def
        split: if_splits option.splits prod.splits sum.splits)
  moreover have "(\<forall>r \<in> set (rows t (work w)). P r) \<longrightarrow> (\<forall>r \<in> set ?rs. P r)"
    using keep by (auto simp: update_by_def)
  ultimately show ?thesis unfolding table_written_def by blast
qed

lemma save_failed:
  assumes run: "save e t i f w = (Inl x, w')" and r: "r \<in> set (rows t (work w))" "entity_id r = i"
    and ok: "constraints (work w)" and id: "entity_id (f r) = entity_id r"
  shows "committed w' = committed w"
  using run save_run [where f = f and e = e, OF r(1) ok id] by (auto simp: r(2) Let_def split: if_splits)

end

context validated_service
begin

lemma create_written:
  assumes run: "create_one e c w = (res, w')" and ok: "constraints (work w)"
    and valid: "accepts_create c"
  shows "table_written readable t w w'"
proof (cases "lookup (work w) (key (build c))")
  case None
  let ?r = "stamped (uuid4 e (tick w)) (tx_time w) (build c)"
  have "committed w' = committed w \<or>
      constraints (committed w') \<and> committed w' = put_rows t (rows t (work w) @ [?r]) (work w)"
    using run unfolding create_free [OF ok None] Let_def by (auto simp: with_row_def split: if_splits)
  then show ?thesis
  proof
    assume "committed w' = committed w"
    then show ?thesis by (simp add: table_written_def)
  next
    assume "constraints (committed w') \<and> committed w' = put_rows t (rows t (work w) @ [?r]) (work w)"
    then show ?thesis
      by (intro table_writtenI [of _ _ "rows t (work w) @ [?r]"]) (auto simp: built_readable [OF valid])
  qed
next
  case (Some r)
  with run show ?thesis by (simp add: create_conflict [OF ok Some] table_written_def)
qed

lemma update_written:
  assumes run: "update_one e i u w = (res, w')" and ok: "constraints (work w)"
    and valid: "accepts_update u"
  shows "table_written readable t w w'"
proof (cases "find (\<lambda>r. entity_id r = i) (rows t (work w))")
  case None
  with run show ?thesis by (simp add: update_missing table_written_def)
next
  case (Some r)
  let ?check = "case new_key u of
      Some k \<Rightarrow> if k \<noteq> key r then andthen (select_one (\<lambda>r. key r = k) t)
          (\<lambda>existing. case existing of Some _ \<Rightarrow> raise (conflict k) | None \<Rightarrow> ret ())
        else ret ()
    | None \<Rightarrow> ret ()"
  let ?save = "case apply_update u r of None \<Rightarrow> raise DatabaseError
    | Some _ \<Rightarrow> save e t i (\<lambda>r. case apply_update u r of Some r' \<Rightarrow> r' | None \<Rightarrow> r)"
  have check: "snd (?check w) = w"
    by (simp add: andthen_def select_run [OF ok] split: option.splits)
  have upd: "update_one e i u w = andthen ?check (\<lambda>_. ?save) w"
    using Some by (simp add: update_law andthen_def get_by_id_or_raise_run)
  define rc where "rc = fst (?check w)"
  have rc: "?check w = (rc, w)"
    using surjective_pairing [of "?check w"] unfolding check rc_def [symmetric] .
  show ?thesis
  proof (cases rc)
    case (Inl x)
    with run upd andthen_Inl [of ?check w x w] rc show ?thesis by (simp add: table_written_def)
  next
    case (Inr x)
    with run upd andthen_Inr [of ?check w x w] rc have s: "?save w = (res, w')" by simp
    show ?thesis
    proof (cases "apply_update u r")
      case None
      with s show ?thesis by (simp add: table_written_def)
    next
      case (Some r')
      with s show ?thesis by (auto intro: save_written touched_readable assigned_readable [OF valid])
    qed
  qed
qed

end

context keyed_service
begin

text \<open>A call that raises has committed nothing.\<close>

lemma create_failed:
  "create_one e c w = (Inl x, w') \<Longrightarrow> constraints (work w) \<Longrightarrow> committed w' = committed w"
  by (cases "lookup (work w) (key (build c))")
    (auto simp: create_free create_conflict Let_def split: if_splits)

lemma update_failed:
  assumes run: "update_one e i u w = (Inl x, w')" and ok: "constraints (work w)"
  shows "committed w' = committed w"
proof (cases "find (\<lambda>r. entity_id r = i) (rows t (work w))")
  case None
  with run show ?thesis by (simp add: update_missing)
next
  case (Some r)
  note find = this
  show ?thesis
  proof (cases "\<exists>k. new_key u = Some k \<and> k \<noteq> key r \<and> lookup (work w) k \<noteq> None")
    case True
    with run update_conflict [OF ok find] show ?thesis by fastforce
  next
    case False
    show ?thesis
    proof (cases "apply_update u r")
      case None
      with False run find show ?thesis
        by (auto simp: update_law andthen_def get_by_id_or_raise_run select_run [OF ok]
            split: option.splits if_splits)
    next
      case (Some r')
      have "\<And>k. new_key u = Some k \<Longrightarrow> k \<noteq> key r \<Longrightarrow> lookup (work w) k = None" using False by blast
      from update_free [OF ok find Some this, of e] run show ?thesis
        by (auto simp: Let_def split: if_splits)
    qed
  qed
qed

end

text \<open>The steps of the committed database.\<close>

definition catalogue_step :: "db \<Rightarrow> db \<Rightarrow> bool" where
  "catalogue_step d d' \<longleftrightarrow> constraints d' \<and> (rows_readable d \<longrightarrow> rows_readable d') \<and>
     ((\<exists>ws. d' = d\<lparr>warehouses := ws\<rparr>) \<or> (\<exists>ps. d' = d\<lparr>products := ps\<rparr>))"

inductive db_step :: "db \<Rightarrow> db \<Rightarrow> bool" where
  catalogue: "catalogue_step d d' \<Longrightarrow> db_step d d'"
| movement: "movement_create_ok x \<Longrightarrow> movement_committed x u d d' \<Longrightarrow> db_step d d'"
| alerts: "some_alert_step d d' \<Longrightarrow> db_step d d'"

inductive_cases db_stepE: "db_step d d'"

abbreviation db_steps :: "db \<Rightarrow> db \<Rightarrow> bool" where
  "db_steps \<equiv> db_step\<^sup>*\<^sup>*"

lemma alert_steps_db_steps: "alert_steps d d' \<Longrightarrow> db_steps d d'"
  by (induction rule: rtranclp_induct) (auto intro: rtranclp.intros db_step.alerts)

lemma written_db_steps:
  assumes wr: "table_written warehouse_fields_ok warehouses_table w w' \<or>
      table_written product_fields_ok products_table w w'"
    and comm: "committed w = work w"
  shows "db_steps (committed w) (committed w')"
proof (cases "committed w' = committed w")
  case False
  with wr comm have "catalogue_step (committed w) (committed w')"
    by (auto simp: table_written_def table_defs catalogue_step_def rows_readable_def)
  then show ?thesis by (blast intro: db_step.catalogue)
qed simp

lemma deactivated_readable:
  "warehouse_fields_ok (r\<lparr>wh_is_active := False\<rparr>) = warehouse_fields_ok r"
  "product_fields_ok (p\<lparr>prod_is_active := False\<rparr>) = product_fields_ok p"
  by (simp_all add: warehouse_fields_ok_def product_fields_ok_def)

lemma deactivate_run:
  "deactivate_warehouse e i w = (case find (\<lambda>r. entity_id r = i) (warehouses (work w)) of
     None \<Rightarrow> (Inl (not_found ''Warehouse'' i), w)
   | Some r \<Rightarrow> save e warehouses_table i (\<lambda>r. r\<lparr>wh_is_active := False\<rparr>) w)"
  "deactivate_product e i w = (case find (\<lambda>r. entity_id r = i) (products (work w)) of
     None \<Rightarrow> (Inl (not_found ''Product'' i), w)
   | Some r \<Rightarrow> save e products_table i (\<lambda>r. r\<lparr>prod_is_active := False\<rparr>) w)"
  by (simp_all add: deactivate_warehouse_def deactivate_product_def andthen_def get_by_id_or_raise_run
      table_defs split: option.splits)

lemma deactivate_written:
  "deactivate_warehouse e i w = (res, w') \<Longrightarrow> table_written warehouse_fields_ok warehouses_table w w'"
  "deactivate_product e i w = (res', w') \<Longrightarrow> table_written product_fields_ok products_table w w'"
proof -
  show "table_written warehouse_fields_ok warehouses_table w w'" if "deactivate_warehouse e i w = (res, w')"
  proof (cases "find (\<lambda>r. entity_id r = i) (warehouses (work w))")
    case None
    with that show ?thesis by (simp add: deactivate_run table_written_def)
  next
    case (Some r)
    with that have "save e warehouses_table i (\<lambda>r. r\<lparr>wh_is_active := False\<rparr>) w = (res, w')"
      by (simp add: deactivate_run)
    then show ?thesis
      by (rule warehouses_store.save_written) (simp add: warehouse_rows.touched_readable deactivated_readable)
  qed
  show "table_written product_fields_ok products_table w w'" if "deactivate_product e i w = (res', w')"
  proof (cases "find (\<lambda>r. entity_id r = i) (products (work w))")
    case None
    with that show ?thesis by (simp add: deactivate_run table_written_def)
  next
    case (Some r)
    with that have "save e products_table i (\<lambda>r. r\<lparr>prod_is_active := False\<rparr>) w = (res', w')"
      by (simp add: deactivate_run)
    then show ?thesis
      by (rule products_store.save_written) (simp add: product_rows.touched_readable deactivated_readable)
  qed
qed

lemma deactivate_returns_readable:
  assumes "rows_readable (work w)"
  shows "deactivate_warehouse e i w = (Inr r, w') \<Longrightarrow> warehouse_fields_ok r"
    and "deactivate_product e i w = (Inr p, w'') \<Longrightarrow> product_fields_ok p"
proof -
  have rows: "\<forall>r \<in> set (rows warehouses_table (work w)). warehouse_fields_ok r"
    "\<forall>r \<in> set (rows products_table (work w)). product_fields_ok r"
    using assms by (simp_all add: rows_readable_def table_defs)
  show "warehouse_fields_ok r" if "deactivate_warehouse e i w = (Inr r, w')"
  proof -
    have "save e warehouses_table i (\<lambda>r. r\<lparr>wh_is_active := False\<rparr>) w = (Inr r, w')"
      using that by (auto simp: deactivate_run split: option.splits)
    from warehouse_rows.save_returns_readable [OF this rows(1)] show ?thesis
      by (simp add: deactivated_readable)
  qed
  show "product_fields_ok p" if "deactivate_product e i w = (Inr p, w'')"
  proof -
    have "save e products_table i (\<lambda>r. r\<lparr>prod_is_active := False\<rparr>) w = (Inr p, w'')"
      using that by (auto simp: deactivate_run split: option.splits)
    from product_rows.save_returns_readable [OF this rows(2)] show ?thesis
      by (simp add: deactivated_readable)
  qed
qed

text \<open>Resolving an alert by hand is an alert step, if its pair has no other active alert.\<close>

lemma resolve_alert_run:
  assumes ok: "constraints (work w)"
  shows "resolve_alert e i w =
    (case find (\<lambda>r. entity_id r = i) (alerts (work w)) of
       None \<Rightarrow> (Inl (not_found ''Alert'' i), w)
     | Some a \<Rightarrow>
         if al_status a = RESOLVED then (Inl (already_resolved i), w)
         else (Inr (resolving (tx_time w) (clock e (tick w)) a),
           alert_saved e a (resolving (tx_time w) (clock e (tick w))) (w\<lparr>tick := Suc (tick w)\<rparr>)))"
  by (auto simp: resolve_alert_def andthen_def get_by_id_or_raise_run alerts_table_def
      resolve_run [OF ok] split: option.splits dest: find_SomeD)

lemma resolve_alert_step:
  assumes run: "resolve_alert e i w = (res, w')" and ok: "constraints (work w)"
    and comm: "committed w = work w" and one: "one_active (work w)"
  shows "alert_steps (committed w) (committed w')"
proof (cases "find (\<lambda>r. entity_id r = i) (alerts (work w))")
  case None
  with run show ?thesis by (simp add: resolve_alert_run [OF ok])
next
  case (Some a)
  show ?thesis
  proof (cases "al_status a = RESOLVED")
    case True
    with Some run show ?thesis by (simp add: resolve_alert_run [OF ok])
  next
    case False
    then have act: "al_status a = ACTIVE" by (cases "al_status a") auto
    have a: "a \<in> set (alerts (work w))" using Some by (auto dest: find_SomeD)
    then have mem: "a \<in> set (active_alerts (work w) (al_product_id a) (al_warehouse_id a))"
      using act by (simp add: active_alerts_def active_for_def)
    have "length (active_alerts (work w) (al_product_id a) (al_warehouse_id a)) \<le> 1"
      using one by (simp add: one_active_def)
    with mem have one_a: "active_alerts (work w) (al_product_id a) (al_warehouse_id a) = [a]"
      by (cases "active_alerts (work w) (al_product_id a) (al_warehouse_id a)") auto
    let ?g = "resolving (tx_time w) (clock e (tick w))"
    have "alert_step (al_product_id a) (al_warehouse_id a) None (work w)
        (with_changed alerts_table (entity_id a) ?g (work w))"
      by (rule alert_step_save [OF ok one_a]) (simp_all add: constraints_resolving [OF ok] del: with_changed_tables)
    moreover have "committed w' = with_changed alerts_table (entity_id a) ?g (work w)"
      using run Some False by (auto simp: resolve_alert_run [OF ok] simp del: with_changed_tables)
    ultimately show ?thesis
      unfolding comm using alert_step_steps one_a by simp
  qed
qed

fun writes :: "request \<Rightarrow> bool" where
  "writes (CreateWarehouse x) = True" | "writes (UpdateWarehouse i u) = True"
| "writes (DeactivateWarehouse i) = True" | "writes (CreateProduct y) = True"
| "writes (UpdateProduct i v) = True" | "writes (DeactivateProduct i) = True"
| "writes (RecordMovement z) = True" | "writes (ResolveAlert i) = True"
| "writes _ = False"

lemma no_commit_select [no_commit_rules]: "no_commit (list_all_rows e t skip limit)"
  unfolding list_all_rows_def by (rule no_commit_queries)

lemma no_commit_then_show [no_commit_rules]: "no_commit f \<Longrightarrow> no_commit (then_show view f)"
  unfolding then_show_def by (intro no_commit_rules) (simp split: option.split add: no_commit_rules)

lemma read_no_commit: "\<not> writes req \<Longrightarrow> no_commit (route e req)"
  by (cases req)
    (simp_all only: route.simps endpoint_defs writes.simps list_warehouses_def list_active_warehouses_def
      get_warehouse_def list_products_endpoint_def list_products_def list_active_products_def
      search_products_def search_by_name_def get_product_def list_inventory_endpoint_def
      list_warehouse_stock_def list_inventory_by_warehouse_def list_low_stock_records_def
      list_low_stock_def list_all_stock_def get_stock_level_def list_movements_endpoint_def
      list_movements_by_product_def list_movements_by_warehouse_def list_alerts_endpoint_def
      list_active_alerts_def list_active_alert_rows_def simp_thms,
     (intro no_commit_rules)+)

lemma then_show_run: "then_show view f w = (res, w') \<Longrightarrow> \<exists>r. f w = (r, w')"
  by (auto simp: then_show_def andthen_def split: prod.splits sum.splits option.splits)

lemma route_db_steps:
  assumes run: "route e req w = (res, w')" and req: "request_ok req" and ok: "constraints (work w)"
    and comm: "committed w = work w" and one: "\<And>i. req = ResolveAlert i \<Longrightarrow> one_active (work w)"
  shows "db_steps (committed w) (committed w')"
proof (cases "writes req")
  case False
  from no_commitD [OF read_no_commit [OF this] run] show ?thesis by simp
next
  case True
  note wr = written_db_steps [OF _ comm]
  show ?thesis
  proof (cases req)
    case (CreateWarehouse x)
    with run obtain r where "create_warehouse e x w = (r, w')" by (auto dest: then_show_run)
    from warehouse_rows.create_written [OF this ok] req CreateWarehouse show ?thesis by (auto intro: wr)
  next
    case (UpdateWarehouse i x)
    with run obtain r where "update_warehouse e i x w = (r, w')" by (auto dest: then_show_run)
    from warehouse_rows.update_written [OF this ok] req UpdateWarehouse show ?thesis by (auto intro: wr)
  next
    case (DeactivateWarehouse i)
    with run obtain r where "deactivate_warehouse e i w = (r, w')" by (auto dest: then_show_run)
    from deactivate_written(1) [OF this] show ?thesis by (auto intro: wr)
  next
    case (CreateProduct x)
    with run obtain r where "create_product e x w = (r, w')" by (auto dest: then_show_run)
    from product_rows.create_written [OF this ok] req CreateProduct show ?thesis by (auto intro: wr)
  next
    case (UpdateProduct i x)
    with run obtain r where "update_product e i x w = (r, w')" by (auto dest: then_show_run)
    from product_rows.update_written [OF this ok] req UpdateProduct show ?thesis by (auto intro: wr)
  next
    case (DeactivateProduct i)
    with run obtain r where "deactivate_product e i w = (r, w')" by (auto dest: then_show_run)
    from deactivate_written(2) [OF this] show ?thesis by (auto intro: wr)
  next
    case (RecordMovement x)
    with run obtain r where "record_movement e x None w = (r, w')" by (auto dest: then_show_run)
    from record_movement_committed [OF _ ok this] req RecordMovement comm
    show ?thesis by (auto intro: r_into_rtranclp db_step.movement)
  next
    case (ResolveAlert i)
    with run obtain r where "resolve_alert e i w = (r, w')" by (auto dest: then_show_run)
    from resolve_alert_step [OF this ok comm one [OF ResolveAlert]] show ?thesis by (rule alert_steps_db_steps)
  qed (use True in simp_all)
qed

lemma deactivate_failed:
  assumes ok: "constraints (work w)"
  shows "deactivate_warehouse e i w = (Inl x, w') \<Longrightarrow> committed w' = committed w"
    and "deactivate_product e i w = (Inl y, w'') \<Longrightarrow> committed w'' = committed w"
  by (auto simp: deactivate_warehouse_def deactivate_product_def andthen_def get_by_id_or_raise_run
      split: option.splits dest!: find_SomeD
      elim!: warehouses_store.save_failed products_store.save_failed intro: ok)

lemma then_show_failed:
  "then_show view f w = (Inl x, w') \<Longrightarrow>
     f w = (Inl x, w') \<or> (\<exists>a. f w = (Inr a, w') \<and> view a = None \<and> x = ResponseValidationError)"
  by (auto simp: then_show_def andthen_def split: prod.splits sum.splits option.splits)

text \<open>
  On rows the read models take, a write whose service succeeded is answered: what it
  returns was validated as a payload, or was there before.
\<close>

lemma then_show_total:
  assumes "then_show view f w = (Inl x, w')" and "\<And>a w'. f w = (Inr a, w') \<Longrightarrow> view a \<noteq> None"
  shows "f w = (Inl x, w')"
  using then_show_failed [OF assms(1)] assms(2) by blast

lemma route_failed:
  assumes run: "route e req w = (Inl y, w')" and ok: "constraints (work w)" and valid: "request_ok req"
    and readable: "rows_readable (work w)" and mv: "\<forall>x. req \<noteq> RecordMovement x"
  shows "committed w' = committed w"
proof (cases "writes req")
  case False
  from no_commitD [OF read_no_commit [OF this] run] show ?thesis .
next
  case True
  have w: "\<forall>r \<in> set (rows warehouses_table (work w)). warehouse_fields_ok r"
    and p: "\<forall>r \<in> set (rows products_table (work w)). product_fields_ok r"
    using readable by (simp_all add: rows_readable_def table_defs)
  show ?thesis
  proof (cases req)
    case (CreateWarehouse x)
    with run valid have "create_warehouse e x w = (Inl y, w')"
      by (auto intro!: then_show_total dest!: warehouse_rows.create_returns_readable [OF _ ok])
    from warehouse_service.create_failed [OF this ok] show ?thesis .
  next
    case (UpdateWarehouse i u)
    with run valid have "update_warehouse e i u w = (Inl y, w')"
      by (auto intro!: then_show_total dest!: warehouse_rows.update_returns_readable [OF _ _ ok w])
    from warehouse_service.update_failed [OF this ok] show ?thesis .
  next
    case (DeactivateWarehouse i)
    with run have "deactivate_warehouse e i w = (Inl y, w')"
      by (auto intro!: then_show_total dest!: deactivate_returns_readable(1) [OF readable])
    from deactivate_failed(1) [OF ok this] show ?thesis .
  next
    case (CreateProduct x)
    with run valid have "create_product e x w = (Inl y, w')"
      by (auto intro!: then_show_total dest!: product_rows.create_returns_readable [OF _ ok])
    from product_service.create_failed [OF this ok] show ?thesis .
  next
    case (UpdateProduct i u)
    with run valid have "update_product e i u w = (Inl y, w')"
      by (auto intro!: then_show_total dest!: product_rows.update_returns_readable [OF _ _ ok p])
    from product_service.update_failed [OF this ok] show ?thesis .
  next
    case (DeactivateProduct i)
    with run have "deactivate_product e i w = (Inl y, w')"
      by (auto intro!: then_show_total dest!: deactivate_returns_readable(2) [OF readable])
    from deactivate_failed(2) [OF ok this] show ?thesis .
  next
    case (ResolveAlert i)
    with run have "resolve_alert e i w = (Inl y, w')" by (auto intro!: then_show_total)
    with ok show ?thesis by (auto simp: resolve_alert_run split: option.splits if_splits)
  qed (use True mv in simp_all)
qed

section \<open>Invariants of every reachable state\<close>

definition system_ok :: "db \<Rightarrow> bool" where
  "system_ok d \<longleftrightarrow> constraints d \<and> ledger_ok d \<and> stock_nonneg d \<and> one_active d \<and> own_thresholds d = {}"

lemma system_ok_empty: "system_ok empty_db"
  by (simp add: system_ok_def ledger_ok_def stock_nonneg_def one_active_def active_alerts_def
      own_thresholds_def) (simp add: empty_db_def)

lemma db_step_system_ok: "db_step d d' \<Longrightarrow> system_ok d \<Longrightarrow> system_ok d'"
proof (erule db_stepE)
  assume ok: "system_ok d"
  { assume "catalogue_step d d'"
    with ok show "system_ok d'"
      by (auto simp: catalogue_step_def system_ok_def ledger_ok_def stock_nonneg_def one_active_def
          active_alerts_def own_thresholds_def) }
  { fix x u assume "movement_create_ok x" and mv: "movement_committed x u d d'"
    with ok show "system_ok d'"
      using movement_committed_stock(4-6) [OF mv] movement_committed_ledger [OF mv]
        movement_committed_nonneg [OF mv]
      by (simp add: system_ok_def) }
  { assume st: "some_alert_step d d'"
    then have steps: "alert_steps d d'" by blast
    with ok show "system_ok d'"
      using alert_steps_constraints [OF steps] alert_steps_one_active [OF steps]
      unfolding system_ok_def ledger_ok_def stock_nonneg_def own_thresholds_def
        alert_steps_tables [OF steps] by blast }
qed

text \<open>The rows stay readable: only the catalogue's writes touch them.\<close>

lemma rows_readable_empty: "rows_readable empty_db"
  by (simp add: rows_readable_def empty_db_def)

lemma rows_readable_cong:
  "warehouses d' = warehouses d \<Longrightarrow> products d' = products d \<Longrightarrow> rows_readable d' = rows_readable d"
  by (simp add: rows_readable_def)

lemma db_step_readable: "db_step d d' \<Longrightarrow> rows_readable d \<Longrightarrow> rows_readable d'"
proof (erule db_stepE)
  assume ok: "rows_readable d"
  { assume "catalogue_step d d'"
    with ok show "rows_readable d'" by (simp add: catalogue_step_def) }
  { fix x u assume mv: "movement_committed x u d d'"
    with ok show "rows_readable d'"
      using movement_committed_catalogue [OF mv] rows_readable_cong [of d' d] by simp }
  { assume "some_alert_step d d'"
    with ok show "rows_readable d'"
      using alert_steps_tables [OF r_into_rtranclp [of some_alert_step]] rows_readable_cong [of d' d] by simp }
qed

lemma db_steps_readable: "db_steps d d' \<Longrightarrow> rows_readable d \<Longrightarrow> rows_readable d'"
  by (induction rule: rtranclp_induct) (auto intro: db_step_readable)

lemma db_steps_system_ok: "db_steps d d' \<Longrightarrow> system_ok d \<Longrightarrow> system_ok d'"
  by (induction rule: rtranclp_induct) (auto intro: db_step_system_ok)

lemma db_step_trail: "db_step d d' \<Longrightarrow> trail_extends d d'"
proof (erule db_stepE)
  show "trail_extends d d'" if "catalogue_step d d'"
    using that by (auto simp: catalogue_step_def trail_extends_def)
  show "trail_extends d d'" if "movement_committed x u d d'" for x u
    using movement_committed_trail [OF that] by (metis trail_extends_def)
  show "trail_extends d d'" if "some_alert_step d d'"
    using alert_steps_tables(2) [OF r_into_rtranclp [of some_alert_step, OF that]]
    by (simp add: trail_extends_def)
qed

lemma db_steps_trail: "db_steps d d' \<Longrightarrow> trail_extends d d'"
proof (induction rule: rtranclp_induct)
  case base
  then show ?case by (simp add: trail_extends_def)
next
  case (step d1 d2)
  from step.IH db_step_trail [OF step.hyps(2)] show ?case by (auto simp: trail_extends_def)
qed

lemma system_step_db_steps:
  assumes fair: "fair_scan e" and st: "system_step e w w'" and ok: "system_ok (committed w)"
  shows "db_steps (committed w) (committed w')"
  using st
proof (rule system_stepE)
  let ?b = "begin_session e w"
  have c: "constraints (work ?b)" "one_active (work ?b)" using ok by (simp_all add: system_ok_def)
  fix req resp assume s: "serve e req w = (resp, w')"
  show ?thesis
  proof (cases "request_ok req")
    case True
    obtain r w1 where run: "route e req ?b = (r, w1)" by fastforce
    have "committed w' = committed w1"
      using s True get_db_run [of "route e req" e w r w1, OF run]
      by (auto simp: serve_def split: sum.splits)
    with route_db_steps [OF run True c(1) _ c(2)] show ?thesis by simp
  next
    case False
    with s show ?thesis by (simp add: serve_def)
  qed
next
  let ?b = "begin_session e w"
  have c: "constraints (work ?b)" using ok by (simp add: system_ok_def)
  fix res assume s: "check_low_stock_levels e w = Some (res, w')"
  obtain r w1 where run: "sweep_pages e 0 0 0 ?b = Some (r, w1)"
    and st: "alert_steps (work ?b) (committed w1)"
    using sweep_pages_total [OF fair c, of 0 0 0] by auto
  then have "committed w' = committed w1" using s by (auto simp: check_low_stock_levels_def)
  with alert_steps_db_steps [OF st] show ?thesis by simp
qed

lemma reachable_db_steps:
  assumes "fair_scan e" and "(system_step e)\<^sup>*\<^sup>* w w'" and "system_ok (committed w)"
  shows "db_steps (committed w) (committed w')"
  using assms(2)
proof (induction rule: rtranclp_induct)
  case (step w1 w2)
  have "system_ok (committed w1)" by (rule db_steps_system_ok [OF step.IH assms(3)])
  from system_step_db_steps [OF assms(1) step.hyps(2) this] step.IH show ?case by simp
qed simp

text \<open>A resolved alert stays as it is for good.\<close>

lemma db_step_resolved:
  assumes "db_step d d'" and "a \<in> set (alerts d)" and "al_status a = RESOLVED"
  shows "a \<in> set (alerts d')"
proof -
  have step: "a \<in> set (alerts d2)" if "some_alert_step d1 d2" "a \<in> set (alerts d1)" for d1 d2
    using that assms(3) by (auto simp: some_alert_step_def alert_step_def)
  have steps: "a \<in> set (alerts d2)" if "alert_steps d1 d2" "a \<in> set (alerts d1)" for d1 d2
    using that by (induction rule: rtranclp_induct) (auto intro: step)
  show ?thesis
    using assms(1)
  proof (rule db_stepE)
    show ?thesis if "catalogue_step d d'"
      using that assms(2) by (auto simp: catalogue_step_def)
    show ?thesis if "movement_committed x u d d'" for x u
    proof -
      obtain affected d1 i now where 1: "movement_step x affected d d1"
        and 2: "alert_steps (d1\<lparr>movements := movements d1 @ [stamped i now (new_movement x u)]\<rparr>) d'"
        using \<open>movement_committed x u d d'\<close> unfolding movement_committed_def by blast
      show ?thesis
        by (rule steps [OF 2]) (simp add: movement_step_alerts [OF 1] assms(2))
    qed
    show ?thesis if "some_alert_step d d'" by (rule step [OF that assms(2)])
  qed
qed

lemma db_steps_resolved:
  "db_steps d d' \<Longrightarrow> a \<in> set (alerts d) \<Longrightarrow> al_status a = RESOLVED \<Longrightarrow> a \<in> set (alerts d')"
  by (induction rule: rtranclp_induct) (auto intro: db_step_resolved)

lemma serve_step: "system_step e w (snd (serve e req w))"
  by (rule system_step.request [of e req w "fst (serve e req w)"]) simp

lemma serve_steps: "(system_step e)\<^sup>*\<^sup>* w w' \<Longrightarrow> (system_step e)\<^sup>*\<^sup>* w (snd (serve e req w'))"
  by (erule rtranclp.rtrancl_into_rtrancl) (rule serve_step)

end
