(* ===== verification/LockOrder.thy ===== *)
theory LockOrder
  imports Acceptance "HOL-Library.Product_Lexorder" "HOL-Library.Sublist"
begin

text \<open>
  Row locks of concurrent movements (the ordering argument in
  InventoryCommandService._transfer_stock).

  Transactions that run at the same time are a list of \<open>txn\<close>: the locks each still has to
  take, in order, and the locks it holds. A lock is granted only while no other transaction
  holds it; all are released at once when the transaction ends. The locale proves, for locks
  taken in increasing order of a rank, that some transaction can always go on and that every
  run ends; it is interpreted on the (product, warehouse) locks of the model, ranked as
  \<open>sorted(..., key=str)\<close> ranks them, and the transfer is shown to take its locks in that order.
\<close>

section \<open>Transactions and their locks\<close>

record 'k txn =
  to_lock :: "'k list"
  held_locks :: "'k list"

inductive lock_step :: "'k txn list \<Rightarrow> 'k txn list \<Rightarrow> bool" where
  acquire: "i < length ts \<Longrightarrow> to_lock (ts ! i) = k # ks \<Longrightarrow>
    (\<forall>j < length ts. j \<noteq> i \<longrightarrow> k \<notin> set (held_locks (ts ! j))) \<Longrightarrow>
    lock_step ts (ts[i := \<lparr>to_lock = ks, held_locks = k # held_locks (ts ! i)\<rparr>])"
| release: "i < length ts \<Longrightarrow> to_lock (ts ! i) = [] \<Longrightarrow> held_locks (ts ! i) \<noteq> [] \<Longrightarrow>
    lock_step ts (ts[i := \<lparr>to_lock = [], held_locks = []\<rparr>])"
| abort: "i < length ts \<Longrightarrow> to_lock (ts ! i) \<noteq> [] \<Longrightarrow>
    lock_step ts (ts[i := \<lparr>to_lock = [], held_locks = []\<rparr>])"

inductive_cases lock_stepE: "lock_step ts ts'"

text \<open>A transaction that is not waiting for anyone: its next lock is free, or it can end.\<close>

definition can_go_on :: "'k txn list \<Rightarrow> nat \<Rightarrow> bool" where
  "can_go_on ts i \<longleftrightarrow> i < length ts \<and>
     (case to_lock (ts ! i) of
        [] \<Rightarrow> held_locks (ts ! i) \<noteq> []
      | k # ks \<Rightarrow> (\<forall>j < length ts. j \<noteq> i \<longrightarrow> k \<notin> set (held_locks (ts ! j))))"

definition all_ended :: "'k txn list \<Rightarrow> bool" where
  "all_ended ts \<longleftrightarrow> (\<forall>t \<in> set ts. to_lock t = [] \<and> held_locks t = [])"

definition begun :: "'k list \<Rightarrow> 'k txn" where
  "begun ks = \<lparr>to_lock = ks, held_locks = []\<rparr>"

definition work_left :: "'k txn list \<Rightarrow> nat" where
  "work_left ts = (\<Sum>t\<leftarrow>ts. 2 * length (to_lock t) + length (held_locks t))"

lemma can_go_on_step: "can_go_on ts i \<Longrightarrow> \<exists>ts'. lock_step ts ts'"
  unfolding can_go_on_def by (cases "to_lock (ts ! i)") (auto intro: acquire release)

lemma sum_list_nth_update:
  "i < length xs \<Longrightarrow> sum_list (map f (xs[i := x])) + f (xs ! i) = sum_list (map f xs) + (f x :: nat)"
  by (induction xs arbitrary: i) (auto split: nat.splits)

text \<open>Every step brings the end nearer, so no run is longer than the work at its start.\<close>

lemma lock_step_decreases:
  assumes "lock_step ts ts'"
  shows "work_left ts' < work_left ts"
  using assms
proof cases
  case (acquire i k ks)
  with sum_list_nth_update [of i ts "\<lambda>t. 2 * length (to_lock t) + length (held_locks t)"
      "\<lparr>to_lock = ks, held_locks = k # held_locks (ts ! i)\<rparr>"]
  show ?thesis by (simp add: work_left_def)
next
  case (release i)
  with sum_list_nth_update [of i ts "\<lambda>t. 2 * length (to_lock t) + length (held_locks t)"
      "\<lparr>to_lock = [], held_locks = []\<rparr>"]
  show ?thesis by (cases "held_locks (ts ! i)") (simp_all add: work_left_def)
next
  case (abort i)
  with sum_list_nth_update [of i ts "\<lambda>t. 2 * length (to_lock t) + length (held_locks t)"
      "\<lparr>to_lock = [], held_locks = []\<rparr>"]
  show ?thesis by (cases "to_lock (ts ! i)") (simp_all add: work_left_def)
qed

locale ranked_locks =
  fixes rank :: "'k \<Rightarrow> 'o::linorder"
  assumes rank_inj: "rank a = rank b \<Longrightarrow> a = b"
begin

definition in_order :: "'k txn \<Rightarrow> bool" where
  "in_order t \<longleftrightarrow> sorted_wrt (\<lambda>a b. rank a < rank b) (rev (held_locks t) @ to_lock t)"

lemma in_order_step:
  assumes "lock_step ts ts'" and "\<forall>t \<in> set ts. in_order t"
  shows "\<forall>t \<in> set ts'. in_order t"
  using assms(1)
proof cases
  case (acquire i k ks)
  then have "in_order (ts ! i)" using assms(2) by simp
  with acquire(3) have "in_order \<lparr>to_lock = ks, held_locks = k # held_locks (ts ! i)\<rparr>"
    by (simp add: in_order_def)
  with assms(2) acquire(1) show ?thesis by (auto dest!: set_update_subset_insert [THEN subsetD])
qed (use assms(2) in \<open>auto simp: in_order_def dest!: set_update_subset_insert [THEN subsetD]\<close>)

lemma in_order_reachable:
  "lock_step\<^sup>*\<^sup>* ts ts' \<Longrightarrow> \<forall>t \<in> set ts. in_order t \<Longrightarrow> \<forall>t \<in> set ts'. in_order t"
  by (induction rule: rtranclp_induct) (auto dest: in_order_step)

text \<open>
  If nobody can go on, the transaction that waits for the highest lock waits for a holder
  that itself waits for a higher one.
\<close>

lemma progress:
  assumes ord: "\<forall>t \<in> set ts. in_order t" and left: "\<not> all_ended ts"
  shows "\<exists>i. can_go_on ts i"
proof (rule ccontr)
  assume stuck: "\<nexists>i. can_go_on ts i"
  define W where "W = {i. i < length ts \<and> to_lock (ts ! i) \<noteq> []}"
  have fin: "finite W" by (simp add: W_def)
  have "W \<noteq> {}"
  proof
    assume no: "W = {}"
    from left obtain i where i: "i < length ts" "to_lock (ts ! i) \<noteq> [] \<or> held_locks (ts ! i) \<noteq> []"
      by (auto simp: all_ended_def in_set_conv_nth)
    with no have "to_lock (ts ! i) = []" "held_locks (ts ! i) \<noteq> []" by (auto simp: W_def)
    with i(1) have "can_go_on ts i" by (simp add: can_go_on_def)
    with stuck show False by blast
  qed
  define top where "top = Max ((\<lambda>i. rank (hd (to_lock (ts ! i)))) ` W)"
  have "top \<in> (\<lambda>i. rank (hd (to_lock (ts ! i)))) ` W"
    unfolding top_def by (rule Max_in) (use fin \<open>W \<noteq> {}\<close> in auto)
  then obtain i where i: "i \<in> W" "rank (hd (to_lock (ts ! i))) = top" by auto
  then obtain k ks where k: "to_lock (ts ! i) = k # ks" by (cases "to_lock (ts ! i)") (auto simp: W_def)
  have "\<not> can_go_on ts i" using stuck by blast
  with i k obtain j where j: "j < length ts" "k \<in> set (held_locks (ts ! j))"
    by (auto simp: can_go_on_def W_def)
  have "\<not> can_go_on ts j" using stuck by blast
  with j have "to_lock (ts ! j) \<noteq> []" by (auto simp: can_go_on_def)
  then have jW: "j \<in> W" using j by (simp add: W_def)
  obtain k' ks' where k': "to_lock (ts ! j) = k' # ks'" 
    using \<open>to_lock (ts ! j) \<noteq> []\<close> by (meson neq_Nil_conv)
  have "in_order (ts ! j)" using ord j(1) by simp
  with j(2) k' have "rank k < rank k'" by (auto simp: in_order_def sorted_wrt_append)
  moreover have "rank k' \<le> top"
    unfolding top_def by (rule Max_ge) (use fin jW k' in \<open>auto intro: rev_image_eqI\<close>)
  ultimately show False using i k by simp
qed

lemma never_stuck:
  assumes "\<forall>ks \<in> set programs. sorted_wrt (\<lambda>a b. rank a < rank b) ks"
    and "lock_step\<^sup>*\<^sup>* (map begun programs) ts"
  shows "all_ended ts \<or> (\<exists>i. can_go_on ts i)"
proof -
  have "\<forall>t \<in> set (map begun programs). in_order t"
    using assms(1) by (auto simp: in_order_def begun_def)
  from in_order_reachable [OF assms(2) this] show ?thesis using progress by blast
qed

end

section \<open>The locks of a movement\<close>

definition lock_rank :: "uuid \<times> uuid \<Rightarrow> string \<times> string" where
  "lock_rank k = (uuid_str (fst k), uuid_str (snd k))"

interpretation stock_locks: ranked_locks lock_rank
  by unfold_locales (auto simp: lock_rank_def prod_eq_iff)

text \<open>The locks a payload's movement may take, in the order the service takes them.\<close>

definition movement_locks :: "movement_create \<Rightarrow> (uuid \<times> uuid) list" where
  "movement_locks x = map (Pair (mc_product_id x))
     (case (mc_source_warehouse_id x, mc_destination_warehouse_id x) of
        (Some s, Some d) \<Rightarrow> lock_order s d
      | (Some s, None) \<Rightarrow> [s] | (None, Some d) \<Rightarrow> [d] | (None, None) \<Rightarrow> [])"

lemma movement_locks_ranked:
  assumes "movement_create_ok x"
  shows "sorted_wrt (\<lambda>a b. lock_rank a < lock_rank b) (movement_locks x)"
  using assms
  by (cases rule: movement_create_ok_cases)
    (auto simp: movement_locks_def lock_order_cases lock_rank_def less_prod_def' not_le
      less_le)

lemma leg_locks_subseq: "subseq (leg_locks p wh d) [(p, wh)]"
  by (simp add: leg_locks_def)

lemma transfer_locks:
  assumes run: "transfer_stock e p s d q w = (res, w')" and ok: "constraints (work w)" and sd: "s \<noteq> d"
  shows "\<exists>ks. row_locks w' = row_locks w @ ks \<and> subseq ks (map (Pair p) (lock_order s d))"
proof -
  have two: "subseq (leg_locks p a (work w)) [(p, a), (p, b)] \<and>
      subseq (leg_locks p a (work w) @ leg_locks p b (work w)) [(p, a), (p, b)]" for a b
    using list_emb_append_mono [OF leg_locks_subseq [of p a "work w"] leg_locks_subseq [of p b "work w"]]
    by (simp add: leg_locks_def)
  have sub: "\<exists>ks. row_locks w' = row_locks w @ ks \<and> subseq ks [(p, a), (p, b)]"
    if "row_locks w' \<in> {row_locks w, row_locks w @ leg_locks p a (work w),
       row_locks w @ leg_locks p a (work w) @ leg_locks p b (work w)}" for a b
    using that two [of a b] by auto
  show ?thesis
  proof (cases "uuid_str s \<le> uuid_str d")
    case True
    show ?thesis
    proof (cases res)
      case (Inl y)
      with run have r: "andthen (decrease_stock e p s q) (\<lambda>i. andthen (increase_stock e p d q)
          (\<lambda>j. ret (i, j))) w = (Inl y, w')" using True by (simp add: transfer_unfold [OF sd])
      from sub [OF source_first.either_raises(3) [OF r ok sd]] True show ?thesis
        by (simp add: lock_order_cases)
    next
      case (Inr ij)
      with run have r: "andthen (decrease_stock e p s q) (\<lambda>i. andthen (increase_stock e p d q)
          (\<lambda>j. ret (i, j))) w = (Inr ij, w')" using True by (simp add: transfer_unfold [OF sd])
      have "row_locks w' = row_locks w @ leg_locks p s (work w) @ leg_locks p d (work w)"
        by (rule source_first.both [OF r ok sd]) (simp add: two_legs_done_def)
      with sub [of s d] True show ?thesis by (simp add: lock_order_cases)
    qed
  next
    case False
    show ?thesis
    proof (cases res)
      case (Inl y)
      with run have r: "andthen (increase_stock e p d q) (\<lambda>j. andthen (decrease_stock e p s q)
          (\<lambda>i. ret (i, j))) w = (Inl y, w')" using False by (simp add: transfer_unfold [OF sd])
      from sub [OF destination_first.either_raises(3) [OF r ok sd [symmetric]]] False show ?thesis
        by (simp add: lock_order_cases)
    next
      case (Inr ij)
      with run have r: "andthen (increase_stock e p d q) (\<lambda>j. andthen (decrease_stock e p s q)
          (\<lambda>i. ret (i, j))) w = (Inr ij, w')" using False by (simp add: transfer_unfold [OF sd])
      have "row_locks w' = row_locks w @ leg_locks p d (work w) @ leg_locks p s (work w)"
        by (rule destination_first.both [OF r ok sd [symmetric]]) (simp add: two_legs_done_def)
      with sub [of d s] False show ?thesis by (simp add: lock_order_cases)
    qed
  qed
qed

lemma subseq_ranked:
  "subseq ks ls \<Longrightarrow> sorted_wrt P ls \<Longrightarrow> sorted_wrt P ks"
  by (induction rule: list_emb.induct) (auto dest: list_emb_set)

lemma apply_movement_locks:
  assumes x: "movement_create_ok x" and run: "apply_movement e x w = (res, w')"
    and ok: "constraints (work w)"
  shows "\<exists>ks. row_locks w' = row_locks w @ ks \<and> subseq ks (movement_locks x)"
proof -
  let ?p = "mc_product_id x" and ?q = "mc_quantity x"
  have one: "\<exists>ks. row_locks w2 = row_locks w @ ks \<and> subseq ks [(p, wh)]"
    if "leg_refused p wh w w2 \<or> leg_done p wh n i w w2" for p wh n i w2
    using that leg_locks_subseq [of p wh "work w"] by (auto simp: leg_refused_def leg_done_def)
  show ?thesis
    using x
  proof (cases rule: movement_create_ok_cases)
    case (IN d)
    obtain r where "increase_stock e ?p d ?q w = (r, w')"
      using run IN by (auto simp: apply_movement_def andthen_def split: prod.splits sum.splits)
    then have "leg_refused ?p d w w' \<or> (\<exists>i. leg_done ?p d (1 * ?q) i w w')"
      by (cases r) (auto dest: increase.returns [OF _ ok] increase.raises [OF _ ok])
    with one [of ?p d w'] IN show ?thesis by (auto simp: movement_locks_def)
  next
    case (OUT s)
    obtain r where "decrease_stock e ?p s ?q w = (r, w')"
      using run OUT by (auto simp: apply_movement_def andthen_def split: prod.splits sum.splits)
    then have "leg_refused ?p s w w' \<or> (\<exists>i. leg_done ?p s (- 1 * ?q) i w w')"
      by (cases r) (auto dest: decrease.returns [OF _ ok] decrease.raises [OF _ ok])
    with one [of ?p s w'] OUT show ?thesis by (auto simp: movement_locks_def)
  next
    case (TRANSFER s d)
    obtain r where "transfer_stock e ?p s d ?q w = (r, w')"
      using run TRANSFER by (auto simp: apply_movement_def andthen_def split: prod.splits sum.splits)
    from transfer_locks [OF this ok TRANSFER(4)] TRANSFER show ?thesis by (simp add: movement_locks_def)
  qed
qed

lemma movement_programs_ranked:
  assumes "list_all2 (\<lambda>ks x. movement_create_ok x \<and> subseq ks (movement_locks x)) programs xs"
  shows "\<forall>ks \<in> set programs. sorted_wrt (\<lambda>a b. lock_rank a < lock_rank b) ks"
  using assms
  by (induction rule: list_all2_induct) (auto intro: subseq_ranked movement_locks_ranked)

end
