(* ===== verification/Isolation.thy ===== *)
theory Isolation
  imports LockOrder Api
begin

text \<open>
  Movements that run at the same time, statement by statement (the transaction of
  InventoryCommandService.record_movement under PostgreSQL's READ COMMITTED).

  A session is the payload, the statements it still has to send, and the rows it has written
  but not committed, whose row locks it holds. The sessions share the committed stock. A
  SELECT ... FOR UPDATE waits while another session holds the row and then reads its
  committed value; a row somebody else has inserted but not committed is invisible to it; an
  INSERT waits for another session that has inserted the same pair, and fails if the pair is
  committed. What is committed is compared with \<open>record_movement\<close> run request by request.
\<close>

section \<open>Sessions\<close>

type_synonym row_key = "uuid \<times> uuid"

datatype statement =
  FindProduct uuid
| FindWarehouse uuid
| Take uuid uuid int
| Put uuid uuid int
| Insert uuid uuid int

text \<open>The statements of the two stock legs, in the order \<open>_transfer_stock\<close> sends them.\<close>

definition removal :: "uuid \<Rightarrow> uuid \<Rightarrow> int \<Rightarrow> statement list" where
  "removal p s q = [FindWarehouse s, Take p s q]"

definition receipt :: "uuid \<Rightarrow> uuid \<Rightarrow> int \<Rightarrow> statement list" where
  "receipt p t q = [FindWarehouse t, Put p t q]"

definition movement_program :: "movement_create \<Rightarrow> statement list" where
  "movement_program x = (let p = mc_product_id x; q = mc_quantity x in
     FindProduct p #
     (case (mc_source_warehouse_id x, mc_destination_warehouse_id x) of
        (Some s, Some t) \<Rightarrow>
          if hd (lock_order s t) = s then removal p s q @ receipt p t q else receipt p t q @ removal p s q
      | (Some s, None) \<Rightarrow> removal p s q
      | (None, Some t) \<Rightarrow> receipt p t q
      | (None, None) \<Rightarrow> []))"

datatype phase = Running | Committed | Rolled_back

record session =
  payload :: movement_create
  todo :: "statement list"
  changes :: "row_key \<rightharpoonup> int"
  phase :: phase

record concurrent =
  stock :: "row_key \<rightharpoonup> int"
  trail :: "movement_create list"
  sessions :: "session list"

definition opened :: "movement_create \<Rightarrow> session" where
  "opened x = \<lparr>payload = x, todo = movement_program x, changes = Map.empty, phase = Running\<rparr>"

definition rolled_back :: "session \<Rightarrow> session" where
  "rolled_back t = t\<lparr>todo := [], changes := Map.empty, phase := Rolled_back\<rparr>"

definition found :: "bool \<Rightarrow> session \<Rightarrow> session" where
  "found b t = (if b then t\<lparr>todo := tl (todo t)\<rparr> else rolled_back t)"

definition write_row :: "row_key \<Rightarrow> int \<Rightarrow> session \<Rightarrow> session" where
  "write_row k v t = (if int4 v then t\<lparr>todo := tl (todo t), changes := (changes t)(k \<mapsto> v)\<rparr>
     else rolled_back t)"

text \<open>
  One statement of a session over the committed stock \<open>c\<close>; \<open>locked k\<close> says that another
  session has the row. None: the statement waits.
\<close>

fun run_statement ::
  "db \<Rightarrow> (row_key \<rightharpoonup> int) \<Rightarrow> (row_key \<Rightarrow> bool) \<Rightarrow> statement \<Rightarrow> session \<Rightarrow> session option" where
  "run_statement d c locked (FindProduct p) t = Some (found (p \<in> set (ids (products d))) t)"
| "run_statement d c locked (FindWarehouse wh) t = Some (found (wh \<in> set (ids (warehouses d))) t)"
| "run_statement d c locked (Take p wh q) t =
     (case c (p, wh) of None \<Rightarrow> Some (rolled_back t)
      | Some v \<Rightarrow> if locked (p, wh) then None
          else Some (if v < q then rolled_back t else write_row (p, wh) (v - q) t))"
| "run_statement d c locked (Put p wh q) t =
     (case c (p, wh) of None \<Rightarrow> Some (t\<lparr>todo := Insert p wh q # tl (todo t)\<rparr>)
      | Some v \<Rightarrow> if locked (p, wh) then None else Some (write_row (p, wh) (v + q) t))"
| "run_statement d c locked (Insert p wh q) t =
     (if c (p, wh) \<noteq> None then Some (rolled_back t)
      else if locked (p, wh) then None else Some (write_row (p, wh) q t))"

definition locked_elsewhere :: "nat \<Rightarrow> concurrent \<Rightarrow> row_key \<Rightarrow> bool" where
  "locked_elsewhere i s k \<longleftrightarrow>
     (\<exists>j \<in> set [0..<length (sessions s)]. j \<noteq> i \<and> changes (sessions s ! j) k \<noteq> None)"

text \<open>With no statement left the audit record is inserted and the transaction commits.\<close>

definition ending :: "nat \<Rightarrow> concurrent \<Rightarrow> concurrent" where
  "ending i s = (let t = sessions s ! i in
     if storable (payload t)
     then s\<lparr>stock := stock s ++ changes t, trail := trail s @ [payload t],
       sessions := (sessions s)[i := t\<lparr>changes := Map.empty, phase := Committed\<rparr>]\<rparr>
     else s\<lparr>sessions := (sessions s)[i := rolled_back t]\<rparr>)"

definition advance :: "db \<Rightarrow> nat \<Rightarrow> concurrent \<Rightarrow> concurrent option" where
  "advance d i s =
     (if i < length (sessions s) \<and> phase (sessions s ! i) = Running then
        (case todo (sessions s ! i) of
           [] \<Rightarrow> Some (ending i s)
         | st # _ \<Rightarrow> map_option (\<lambda>t. s\<lparr>sessions := (sessions s)[i := t]\<rparr>)
             (run_statement d (stock s) (locked_elsewhere i s) st (sessions s ! i)))
      else None)"

inductive concurrent_step :: "db \<Rightarrow> concurrent \<Rightarrow> concurrent \<Rightarrow> bool" for d where
  advances: "advance d i s = Some s' \<Longrightarrow> concurrent_step d s s'"
| interrupted: "i < length (sessions s) \<Longrightarrow> phase (sessions s ! i) = Running \<Longrightarrow>
    concurrent_step d s (s\<lparr>sessions := (sessions s)[i := rolled_back (sessions s ! i)]\<rparr>)"

definition stock_map :: "db \<Rightarrow> row_key \<rightharpoonup> int" where
  "stock_map d k = (if k \<in> inv_pair ` set (inventories d)
     then Some (stock_in (inventories d) (fst k) (snd k)) else None)"

definition started :: "db \<Rightarrow> movement_create list \<Rightarrow> concurrent" where
  "started d xs = \<lparr>stock = stock_map d, trail = [], sessions = map opened xs\<rparr>"

section \<open>What a session has done so far\<close>

definition amount :: "(row_key \<rightharpoonup> int) \<Rightarrow> row_key \<Rightarrow> int" where
  "amount c k = (case c k of None \<Rightarrow> 0 | Some v \<Rightarrow> v)"

fun row_of :: "statement \<Rightarrow> row_key list" where
  "row_of (FindProduct p) = []"
| "row_of (FindWarehouse wh) = []"
| "row_of (Take p wh q) = [(p, wh)]"
| "row_of (Put p wh q) = [(p, wh)]"
| "row_of (Insert p wh q) = [(p, wh)]"

definition rows_of :: "statement list \<Rightarrow> row_key list" where
  "rows_of sts = concat (map row_of sts)"

text \<open>A statement succeeds over the committed stock, and the row it leaves.\<close>

fun succeeds :: "db \<Rightarrow> (row_key \<rightharpoonup> int) \<Rightarrow> statement \<Rightarrow> bool" where
  "succeeds d c (FindProduct p) \<longleftrightarrow> p \<in> set (ids (products d))"
| "succeeds d c (FindWarehouse wh) \<longleftrightarrow> wh \<in> set (ids (warehouses d))"
| "succeeds d c (Take p wh q) \<longleftrightarrow> c (p, wh) \<noteq> None \<and> q \<le> amount c (p, wh)"
| "succeeds d c (Put p wh q) \<longleftrightarrow> int4 (amount c (p, wh) + q)"
| "succeeds d c (Insert p wh q) \<longleftrightarrow> int4 (amount c (p, wh) + q)"

fun leaves :: "(row_key \<rightharpoonup> int) \<Rightarrow> statement \<Rightarrow> (row_key \<rightharpoonup> int) \<Rightarrow> (row_key \<rightharpoonup> int)" where
  "leaves c (FindProduct p) m = m"
| "leaves c (FindWarehouse wh) m = m"
| "leaves c (Take p wh q) m = m((p, wh) \<mapsto> amount c (p, wh) - q)"
| "leaves c (Put p wh q) m = m((p, wh) \<mapsto> amount c (p, wh) + q)"
| "leaves c (Insert p wh q) m = m((p, wh) \<mapsto> amount c (p, wh) + q)"

fun as_put :: "statement \<Rightarrow> statement" where
  "as_put (Insert p wh q) = Put p wh q"
| "as_put st = st"

definition session_ok :: "db \<Rightarrow> (row_key \<rightharpoonup> int) \<Rightarrow> session \<Rightarrow> bool" where
  "session_ok d c t \<longleftrightarrow> movement_create_ok (payload t) \<and>
     (if phase t = Running then \<exists>past. past @ map as_put (todo t) = movement_program (payload t) \<and>
        (\<forall>st \<in> set past. succeeds d c st) \<and> changes t = fold (leaves c) past Map.empty
      else changes t = Map.empty)"

definition sessions_apart :: "session list \<Rightarrow> bool" where
  "sessions_apart ts \<longleftrightarrow> (\<forall>i < length ts. \<forall>j < length ts. i \<noteq> j \<longrightarrow>
     dom (changes (ts ! i)) \<inter> dom (changes (ts ! j)) = {})"

definition concurrent_ok :: "db \<Rightarrow> concurrent \<Rightarrow> bool" where
  "concurrent_ok d s \<longleftrightarrow> (\<forall>t \<in> set (sessions s). session_ok d (stock s) t) \<and> sessions_apart (sessions s)"

lemma rows_of_simps [simp]:
  "rows_of [] = []" "rows_of (st # sts) = row_of st @ rows_of sts"
  "rows_of (sts @ sts') = rows_of sts @ rows_of sts'"
  by (simp_all add: rows_of_def)

lemma row_of_as_put [simp]: "row_of (as_put st) = row_of st"
  by (cases st) simp_all

lemma rows_of_as_put [simp]: "rows_of (map as_put sts) = rows_of sts"
  by (induction sts) simp_all

lemma succeeds_frame: "(\<And>k. k \<in> set (row_of st) \<Longrightarrow> c' k = c k) \<Longrightarrow> succeeds d c' st = succeeds d c st"
  by (cases st) (simp_all add: amount_def)

lemma leaves_frame: "(\<And>k. k \<in> set (row_of st) \<Longrightarrow> c' k = c k) \<Longrightarrow> leaves c' st = leaves c st"
  by (cases st) (simp_all add: amount_def fun_eq_iff)

lemma fold_leaves_frame:
  "\<forall>k \<in> set (rows_of sts). c' k = c k \<Longrightarrow> fold (leaves c') sts m = fold (leaves c) sts m"
proof (induction sts arbitrary: m)
  case (Cons st sts)
  have "leaves c' st = leaves c st" by (rule leaves_frame) (use Cons.prems in simp)
  with Cons show ?case by simp
qed simp

lemma dom_leaves: "dom (leaves c st m) = set (row_of st) \<union> dom m"
  by (cases st) auto

lemma dom_fold_leaves: "dom (fold (leaves c) sts m) = set (rows_of sts) \<union> dom m"
  by (induction sts arbitrary: m) (auto simp: dom_leaves)

text \<open>A commit of another session does not touch the rows this one depends on.\<close>

lemma session_ok_frame:
  assumes "session_ok d c t" and "\<And>k. k \<in> dom (changes t) \<Longrightarrow> c' k = c k"
  shows "session_ok d c' t"
proof (cases "phase t = Running")
  case True
  from True assms(1) obtain past where past: "past @ map as_put (todo t) = movement_program (payload t)"
    "\<forall>st \<in> set past. succeeds d c st" "changes t = fold (leaves c) past Map.empty"
    by (auto simp: session_ok_def)
  have same: "c' k = c k" if "k \<in> set (rows_of past)" for k
    using assms(2) that by (simp add: past(3) dom_fold_leaves)
  have "succeeds d c' st" if st: "st \<in> set past" for st
  proof -
    have "set (row_of st) \<subseteq> set (rows_of past)" using st by (auto simp: rows_of_def)
    with same have "succeeds d c' st = succeeds d c st" by (intro succeeds_frame) blast
    with past(2) st show ?thesis by simp
  qed
  moreover have "fold (leaves c') past Map.empty = changes t"
    using fold_leaves_frame [of past c' c] same past(3) by simp
  ultimately show ?thesis
    using True past(1) assms(1) unfolding session_ok_def by metis
qed (use assms in \<open>simp add: session_ok_def\<close>)

lemma rolled_back_sel [simp]:
  "payload (rolled_back t) = payload t" "todo (rolled_back t) = []"
  "changes (rolled_back t) = Map.empty" "phase (rolled_back t) = Rolled_back"
  by (simp_all add: rolled_back_def)

lemma rolled_back_ok: "session_ok d c t \<Longrightarrow> session_ok d c' (rolled_back t)"
  by (simp add: session_ok_def)

lemma session_ok_next:
  assumes t: "session_ok d c t" "phase t = Running" "todo t = st # sts"
    and st: "succeeds d c (as_put st)" and m: "m = leaves c (as_put st) (changes t)"
  shows "session_ok d c (t\<lparr>todo := sts, changes := m\<rparr>)"
proof -
  obtain past where past: "past @ map as_put (todo t) = movement_program (payload t)"
    "\<forall>st \<in> set past. succeeds d c st" "changes t = fold (leaves c) past Map.empty"
    using t by (auto simp: session_ok_def)
  have "(past @ [as_put st]) @ map as_put sts = movement_program (payload t) \<and>
      (\<forall>st \<in> set (past @ [as_put st]). succeeds d c st) \<and> m = fold (leaves c) (past @ [as_put st]) Map.empty"
    using past st t(3) by (simp add: m)
  with t show ?thesis unfolding session_ok_def by (auto intro!: exI [of _ "past @ [as_put st]"])
qed

lemma write_row_ok:
  assumes t: "session_ok d c t" "phase t = Running" "todo t = st # sts"
    and st: "int4 v \<Longrightarrow> succeeds d c (as_put st)" and m: "(changes t)(k \<mapsto> v) = leaves c (as_put st) (changes t)"
  shows "session_ok d c (write_row k v t)"
proof (cases "int4 v")
  case True
  from session_ok_next [OF t st [OF True] m] True t(3) show ?thesis by (simp add: write_row_def)
qed (use rolled_back_ok [OF t(1)] in \<open>simp add: write_row_def\<close>)

lemma found_ok:
  assumes "session_ok d c t" "phase t = Running" "todo t = st # sts"
    and "b \<Longrightarrow> succeeds d c (as_put st)" and "leaves c (as_put st) (changes t) = changes t"
  shows "session_ok d c (found b t)"
proof (cases b)
  case True
  from session_ok_next [OF assms(1-3) assms(4) [OF True] refl] assms(3,5) True show ?thesis
    by (simp add: found_def)
qed (use rolled_back_ok [OF assms(1)] in \<open>simp add: found_def\<close>)

lemma inserting_ok: "session_ok d c t \<Longrightarrow> phase t = Running \<Longrightarrow> todo t = Put p wh q # sts \<Longrightarrow>
    session_ok d c (t\<lparr>todo := Insert p wh q # sts\<rparr>)"
  by (simp add: session_ok_def)

lemma run_statement_ok:
  assumes run: "run_statement d c locked st t = Some t'"
    and t: "session_ok d c t" "phase t = Running" "todo t = st # sts"
  shows "session_ok d c t'"
proof (cases st)
  case (Take p wh q)
  with run t show ?thesis
    by (auto intro!: rolled_back_ok write_row_ok simp: amount_def split: option.splits if_splits)
next
  case (Put p wh q)
  with run t show ?thesis
    by (auto intro!: inserting_ok write_row_ok simp: amount_def split: option.splits if_splits)
next
  case (Insert p wh q)
  with run t show ?thesis
    by (auto intro!: rolled_back_ok write_row_ok simp: amount_def split: if_splits)
qed (use run t in \<open>auto intro!: found_ok\<close>)

lemma run_statement_changes:
  assumes "run_statement d c locked st t = Some t'"
  shows "dom (changes t') \<subseteq> dom (changes t) \<union> {k. \<not> locked k}"
    and "payload t' = payload t" and "phase t' \<noteq> Running \<Longrightarrow> t' = rolled_back t \<or> phase t' = phase t"
  using assms
  by (cases st; auto simp: found_def write_row_def split: if_splits option.splits)+

text \<open>Replacing one session by one whose rows nobody else has.\<close>

lemma sessions_apart_update:
  assumes ap: "sessions_apart ts" and i: "i < length ts"
    and new: "\<And>j. j < length ts \<Longrightarrow> j \<noteq> i \<Longrightarrow> dom (changes t) \<inter> dom (changes (ts ! j)) = {}"
  shows "sessions_apart (ts[i := t])"
  unfolding sessions_apart_def
proof (intro allI impI)
  fix a b assume "a < length (ts[i := t])" "b < length (ts[i := t])" and ab: "a \<noteq> b"
  then have len: "a < length ts" "b < length ts" by simp_all
  consider "a = i" | "b = i" | "a \<noteq> i" "b \<noteq> i" by blast
  then show "dom (changes (ts[i := t] ! a)) \<inter> dom (changes (ts[i := t] ! b)) = {}"
  proof cases
    case 1
    with new [of b] len ab show ?thesis by simp
  next
    case 2
    with new [of a] len ab show ?thesis by (simp add: Int_commute)
  next
    case 3
    with ap len ab show ?thesis by (simp add: sessions_apart_def)
  qed
qed

lemma concurrent_ok_session:
  "concurrent_ok d s \<Longrightarrow> i < length (sessions s) \<Longrightarrow> session_ok d (stock s) (sessions s ! i)"
  by (simp add: concurrent_ok_def)

lemma concurrent_ok_update:
  assumes ok: "concurrent_ok d s" and i: "i < length (sessions s)"
    and t: "session_ok d (stock s) t" "\<And>k. k \<in> dom (changes t) \<Longrightarrow> k \<in> dom (changes (sessions s ! i)) \<or> \<not> locked_elsewhere i s k"
  shows "concurrent_ok d (s\<lparr>sessions := (sessions s)[i := t]\<rparr>)"
proof -
  have "sessions_apart ((sessions s)[i := t])"
  proof (rule sessions_apart_update [OF _ i])
    show "sessions_apart (sessions s)" using ok by (simp add: concurrent_ok_def)
    fix j assume j: "j < length (sessions s)" "j \<noteq> i"
    have "k \<notin> dom (changes (sessions s ! j))" if k: "k \<in> dom (changes t)" for k
    proof (cases "locked_elsewhere i s k")
      case True
      with t(2) [OF k] have "k \<in> dom (changes (sessions s ! i))" by simp
      moreover have "dom (changes (sessions s ! i)) \<inter> dom (changes (sessions s ! j)) = {}"
        using ok i j by (simp add: concurrent_ok_def sessions_apart_def)
      ultimately show ?thesis by blast
    next
      case False
      with j show ?thesis by (auto simp: locked_elsewhere_def)
    qed
    then show "dom (changes t) \<inter> dom (changes (sessions s ! j)) = {}" by (simp add: disjoint_iff)
  qed
  moreover have "session_ok d (stock s) t'" if "t' \<in> set ((sessions s)[i := t])" for t'
  proof -
    from set_update_subset_insert [THEN subsetD, OF that] have "t' = t \<or> t' \<in> set (sessions s)" by blast
    with ok t(1) show ?thesis unfolding concurrent_ok_def by blast
  qed
  ultimately show ?thesis by (simp add: concurrent_ok_def)
qed

lemma ending_ok:
  assumes ok: "concurrent_ok d s" and i: "i < length (sessions s)" and run: "phase (sessions s ! i) = Running"
  shows "concurrent_ok d (ending i s)"
proof (cases "storable (payload (sessions s ! i))")
  case False
  have "session_ok d (stock s) (rolled_back (sessions s ! i))"
    by (rule rolled_back_ok [OF concurrent_ok_session [OF ok i]])
  from concurrent_ok_update [OF ok i this] False show ?thesis by (simp add: ending_def Let_def)
next
  case True
  let ?t = "sessions s ! i" and ?c = "stock s ++ changes (sessions s ! i)"
  have "sessions_apart ((sessions s)[i := ?t\<lparr>changes := Map.empty, phase := Committed\<rparr>])"
    by (rule sessions_apart_update) (use ok i in \<open>simp_all add: concurrent_ok_def\<close>)
  moreover have "session_ok d ?c t" if t: "t \<in> set ((sessions s)[i := ?t\<lparr>changes := Map.empty, phase := Committed\<rparr>])" for t
  proof -
    obtain j where j: "j < length (sessions s)" "t = (sessions s)[i := ?t\<lparr>changes := Map.empty, phase := Committed\<rparr>] ! j"
      using t by (auto simp: in_set_conv_nth)
    have old: "session_ok d (stock s) (sessions s ! j)" using ok j(1) by (simp add: concurrent_ok_def)
    show ?thesis
    proof (cases "j = i")
      case True
      with j old i show ?thesis by (simp add: session_ok_def)
    next
      case False
      have "dom (changes (sessions s ! j)) \<inter> dom (changes ?t) = {}"
        using ok i j(1) False by (simp add: concurrent_ok_def sessions_apart_def)
      then have "?c k = stock s k" if "k \<in> dom (changes (sessions s ! j))" for k
        using that by (auto simp: map_add_def split: option.splits)
      from session_ok_frame [OF old this] False j show ?thesis by simp
    qed
  qed
  ultimately show ?thesis using True by (simp add: ending_def Let_def concurrent_ok_def)
qed

inductive_cases concurrent_stepE: "concurrent_step d s s'"

lemma concurrent_step_ok:
  assumes "concurrent_step d s s'" and ok: "concurrent_ok d s"
  shows "concurrent_ok d s'"
  using assms(1)
proof cases
  case (advances i)
  then have i: "i < length (sessions s)" "phase (sessions s ! i) = Running"
    by (simp_all add: advance_def split: if_splits)
  show ?thesis
  proof (cases "todo (sessions s ! i)")
    case Nil
    with advances i ending_ok [OF ok i] show ?thesis by (simp add: advance_def)
  next
    case (Cons st sts)
    with advances i obtain t where t: "run_statement d (stock s) (locked_elsewhere i s) st (sessions s ! i) = Some t"
      and s': "s' = s\<lparr>sessions := (sessions s)[i := t]\<rparr>" by (auto simp: advance_def)
    have "session_ok d (stock s) (sessions s ! i)" using ok i by (simp add: concurrent_ok_def)
    from run_statement_ok [OF t this i(2) Cons] run_statement_changes(1) [OF t] show ?thesis
      unfolding s' by (intro concurrent_ok_update [OF ok i(1)]) blast+
  qed
next
  case (interrupted i)
  have "session_ok d (stock s) (rolled_back (sessions s ! i))"
    by (rule rolled_back_ok [OF concurrent_ok_session [OF ok interrupted(2)]])
  from concurrent_ok_update [OF ok interrupted(2) this] show ?thesis unfolding interrupted(1) by simp
qed

lemma no_inserts: "map as_put (movement_program x) = movement_program x"
  by (simp add: movement_program_def removal_def receipt_def Let_def split: option.splits)

lemma started_ok:
  assumes "\<forall>x \<in> set xs. movement_create_ok x"
  shows "concurrent_ok d (started d xs)"
  using assms by (auto simp: concurrent_ok_def started_def opened_def session_ok_def sessions_apart_def no_inserts)

section \<open>The movements one after the other\<close>

definition one_request :: "'x deps \<Rightarrow> movement_create \<Rightarrow> ('x, movement) service" where
  "one_request e x = get_db e (record_movement e x None)"

lemma amount_add: "amount (c ++ m) k = (case m k of None \<Rightarrow> amount c k | Some v \<Rightarrow> v)"
  by (simp add: amount_def map_add_def split: option.splits)

lemma amount_upd: "amount (c(k \<mapsto> v)) k' = (if k' = k then v else amount c k')"
  by (simp add: amount_def)

lemma program_effect:
  assumes "movement_create_ok x"
  shows "amount (c ++ fold (leaves c) (movement_program x) Map.empty) (p, wh) =
    amount c (p, wh) + movement_effect p wh (new_movement x None)"
  using assms
  by (cases rule: movement_create_ok_cases)
    (auto simp: movement_program_def removal_def receipt_def Let_def amount_add amount_upd movement_effect_def)

lemma program_problem:
  assumes x: "movement_create_ok x" and all: "\<forall>st \<in> set (movement_program x). succeeds d c st"
    and same: "\<forall>p wh. stock_in (inventories d') p wh = amount c (p, wh)"
    and tables: "ids (products d') = ids (products d)" "ids (warehouses d') = ids (warehouses d)"
  shows "movement_problem x d' = None"
proof -
  have q: "0 < mc_quantity x" using x by (simp add: movement_create_ok_def movement_create_fields_ok_def)
  have row: "(p, wh) \<in> inv_pair ` set (inventories d')" if "0 < amount c (p, wh)" for p wh
  proof (rule ccontr)
    assume "(p, wh) \<notin> inv_pair ` set (inventories d')"
    then have "stock_in (inventories d') p wh = 0" by (intro stock_in_absent) (auto simp: image_iff)
    with same that show False by simp
  qed
  have take: "removal_problem d' p s n = None" if "wh_ok = (s \<in> set (ids (warehouses d)))" wh_ok "n \<le> amount c (p, s)" "0 < n" for wh_ok p s n
    using that row [of p s] same tables by (simp add: removal_problem_def)
  have put: "receipt_problem d' p t n = None" if "t \<in> set (ids (warehouses d))" "int4 (amount c (p, t) + n)" for p t n
    using that same tables by (simp add: receipt_problem_def)
  show ?thesis
    using x all tables q
    by (cases rule: movement_create_ok_cases)
      (auto simp: movement_problem_def leg_problems_def movement_program_def removal_def receipt_def Let_def
        take put split: if_splits)
qed

lemma for_each_snoc:
  "for_each f xs w = (Inr (), w1) \<Longrightarrow> f x w1 = (Inr r, w2) \<Longrightarrow> for_each f (xs @ [x]) w = (Inr (), w2)"
  by (induction xs arbitrary: w) (auto simp: andthen_eq_Inr)

lemma movement_committed_tables:
  assumes "movement_committed x u d d'"
  shows "products d' = products d" "warehouses d' = warehouses d"
proof -
  from assms obtain affected d1 i now where 1: "movement_step x affected d d1"
    and 2: "alert_steps (d1\<lparr>movements := movements d1 @ [stamped i now (new_movement x u)]\<rparr>) d'"
    unfolding movement_committed_def by blast
  show "products d' = products d" "warehouses d' = warehouses d"
    using alert_steps_tables [OF 2] movement_step_products [OF 1] movement_step_warehouses [OF 1] by simp_all
qed

lemma one_request_returns:
  assumes x: "movement_create_ok x" "storable x" and ok: "constraints (committed w)"
    and f: "fresh e 12 w" and nn: "stock_nonneg (committed w)" and one: "one_active (committed w)"
    and thr: "int4 (low_stock_alert_threshold_default e)" and p: "movement_problem x (committed w) = None"
    and work: "work w = committed w"
  shows "\<exists>m w'. one_request e x w = (Inr m, w') \<and> draws e 14 w w' \<and> work w' = committed w' \<and>
    movement_committed x None (committed w) (committed w')"
proof -
  let ?b = "begin_session e w"
  have d1: "draws e 1 w ?b" by (rule draws_same_ids) (simp_all add: work)
  have "fresh e 11 ?b" using fresh_draws [OF _ d1] f by simp
  from record_movement_returns [OF x _ this _ _ thr, of None] ok nn one p
  obtain m w1 where run: "record_movement e x None ?b = (Inr m, w1)" and d2: "draws e 13 ?b w1"
    and w1: "committed w1 = work w1" by auto
  have "draws e 14 w (close_session w1)"
    using draws_trans [OF d1 d2] w1 by (simp add: draws_def)
  moreover have "movement_committed x None (committed w) (committed w1)"
    using record_movement_done [OF x(1) _ run] ok by simp
  ultimately show ?thesis
    unfolding one_request_def using get_db_run [where f = "record_movement e x None", OF run] by simp
qed

text \<open>The concurrent state mirrors the run, one request after the other, of what it has committed.\<close>

definition mirrors :: "'x deps \<Rightarrow> db \<Rightarrow> 'x world \<Rightarrow> concurrent \<Rightarrow> 'x world \<Rightarrow> bool" where
  "mirrors e d w s w' \<longleftrightarrow> for_each (one_request e) (trail s) w = (Inr (), w') \<and>
     draws e (14 * length (trail s)) w w' \<and> work w' = committed w' \<and> constraints (committed w') \<and>
     stock_nonneg (committed w') \<and> one_active (committed w') \<and>
     ids (products (committed w')) = ids (products d) \<and> ids (warehouses (committed w')) = ids (warehouses d) \<and>
     (\<forall>p wh. stock_in (inventories (committed w')) p wh = amount (stock s) (p, wh))"

lemma mirrors_ending:
  assumes m: "mirrors e d w s w'" and ok: "concurrent_ok d s" and i: "i < length (sessions s)"
    and run: "phase (sessions s ! i) = Running" "todo (sessions s ! i) = []"
    and f: "fresh e (14 * length (trail (ending i s))) w" and thr: "int4 (low_stock_alert_threshold_default e)"
  shows "\<exists>w2. mirrors e d w (ending i s) w2"
proof (cases "storable (payload (sessions s ! i))")
  case False
  with m show ?thesis by (auto simp: mirrors_def ending_def Let_def)
next
  case True
  let ?x = "payload (sessions s ! i)" and ?t = "sessions s ! i"
  have x: "movement_create_ok ?x" and all: "\<forall>st \<in> set (movement_program ?x). succeeds d (stock s) st"
    and ch: "changes ?t = fold (leaves (stock s)) (movement_program ?x) Map.empty"
    using concurrent_ok_session [OF ok i] run by (auto simp: session_ok_def)
  have len: "length (trail (ending i s)) = Suc (length (trail s))" using True by (simp add: ending_def Let_def)
  have "fresh e (14 * length (trail s) + 14) w" using f by (simp add: len add.commute)
  moreover have d1: "draws e (14 * length (trail s)) w w'" using m by (simp add: mirrors_def)
  ultimately have "fresh e 14 w'" by (rule fresh_draws)
  then have f': "fresh e 12 w'" by (rule fresh_mono) simp
  have prob: "movement_problem ?x (committed w') = None"
    by (rule program_problem [OF x all]) (use m in \<open>simp_all add: mirrors_def\<close>)
  from one_request_returns [OF x True _ f' _ _ thr prob] m obtain r w2 where
    req: "one_request e ?x w' = (Inr r, w2)" and d2: "draws e 14 w' w2" and work: "work w2 = committed w2"
    and mc: "movement_committed ?x None (committed w') (committed w2)" by (auto simp: mirrors_def)
  note st = movement_committed_stock [OF mc] and tb = movement_committed_tables [OF mc]
  have "draws e (14 * length (trail (ending i s))) w w2"
    using draws_trans [OF d1 d2] by (simp add: len add.commute)
  moreover have "for_each (one_request e) (trail (ending i s)) w = (Inr (), w2)"
    using for_each_snoc [where f = "one_request e", OF _ req] m True by (simp add: mirrors_def ending_def Let_def)
  moreover have "stock_in (inventories (committed w2)) p wh = amount (stock (ending i s)) (p, wh)" for p wh
    using m st(1) [of p wh] program_effect [OF x, of "stock s" p wh] True
    by (simp add: mirrors_def ending_def Let_def ch)
  moreover have "stock_nonneg (committed w2)"
    by (rule movement_committed_nonneg [OF mc x]) (use m in \<open>simp add: mirrors_def\<close>)
  ultimately have "mirrors e d w (ending i s) w2"
    using m st(4,6) tb work by (simp add: mirrors_def)
  then show ?thesis by blast
qed

lemma concurrent_step_mirrors:
  assumes st: "concurrent_step d s s'" and m: "mirrors e d w s w'" and ok: "concurrent_ok d s"
    and f: "fresh e (14 * length (trail s')) w" and thr: "int4 (low_stock_alert_threshold_default e)"
  shows "\<exists>w2. mirrors e d w s' w2"
  using st
proof cases
  case (advances i)
  then have i: "i < length (sessions s)" "phase (sessions s ! i) = Running"
    by (simp_all add: advance_def split: if_splits)
  show ?thesis
  proof (cases "todo (sessions s ! i)")
    case Nil
    with advances i have "s' = ending i s" by (simp add: advance_def)
    with mirrors_ending [OF m ok i Nil _ thr] f show ?thesis by simp
  next
    case (Cons st sts)
    with advances i m show ?thesis by (auto simp: advance_def mirrors_def)
  qed
qed (use m in \<open>auto simp: mirrors_def\<close>)

lemma trail_grows: "concurrent_step d s s' \<Longrightarrow> length (trail s) \<le> length (trail s')"
  by (induction rule: concurrent_step.induct)
    (auto simp: advance_def ending_def Let_def split: if_splits list.splits)

lemma started_mirrors:
  assumes "committed w = d" "work w = d" "constraints d" "stock_nonneg d" "one_active d"
  shows "mirrors e d w (started d xs) w"
proof -
  have "stock_in (inventories d) p wh = amount (stock_map d) (p, wh)" for p wh
    by (auto simp: amount_def stock_map_def intro!: stock_in_absent)
  with assms show ?thesis by (simp add: mirrors_def started_def)
qed

lemma concurrent_steps_mirror:
  assumes "(concurrent_step d)\<^sup>*\<^sup>* (started d xs) s" and "\<forall>x \<in> set xs. movement_create_ok x"
    and w: "committed w = d" "work w = d" "constraints d" "stock_nonneg d" "one_active d"
    and thr: "int4 (low_stock_alert_threshold_default e)" and f: "fresh e (14 * length (trail s)) w"
  shows "concurrent_ok d s \<and> (\<exists>w'. mirrors e d w s w')"
  using assms(1) f
proof (induction rule: rtranclp_induct)
  case base
  from started_ok [OF assms(2)] started_mirrors [OF w] show ?case by blast
next
  case (step s1 s2)
  have "fresh e (14 * length (trail s1)) w"
    by (rule fresh_mono [OF step.prems]) (use trail_grows [OF step.hyps(2)] in simp)
  from step.IH [OF this] obtain w1 where ok: "concurrent_ok d s1" and m: "mirrors e d w s1 w1" by blast
  from concurrent_step_ok [OF step.hyps(2) ok] concurrent_step_mirrors [OF step.hyps(2) m ok step.prems thr]
  show ?case by blast
qed

section \<open>Some session can always go on\<close>

lemma rows_of_program:
  assumes "movement_create_ok x"
  shows "rows_of (movement_program x) = movement_locks x" and "movement_locks x \<noteq> []"
  using assms
  by (cases rule: movement_create_ok_cases;
      auto simp: movement_program_def movement_locks_def removal_def receipt_def Let_def lock_order_cases)+

text \<open>A session as a transaction of the lock model: the rows it has, and those it is to ask for.\<close>

definition past_rows :: "session \<Rightarrow> row_key list" where
  "past_rows t = rows_of (take (length (movement_program (payload t)) - length (todo t))
     (movement_program (payload t)))"

definition as_txn :: "session \<Rightarrow> row_key txn" where
  "as_txn t = (if phase t = Running then \<lparr>to_lock = rows_of (todo t), held_locks = rev (past_rows t)\<rparr>
     else \<lparr>to_lock = [], held_locks = []\<rparr>)"

lemma as_txn_facts:
  assumes "session_ok d c t"
  shows "set (held_locks (as_txn t)) = dom (changes t)" and "stock_locks.in_order (as_txn t)"
    and "phase t = Running \<Longrightarrow> to_lock (as_txn t) \<noteq> [] \<or> held_locks (as_txn t) \<noteq> []"
proof -
  have x: "movement_create_ok (payload t)" using assms by (simp add: session_ok_def)
  have run: "past_rows t @ rows_of (todo t) = movement_locks (payload t) \<and> set (past_rows t) = dom (changes t)"
    if r: "phase t = Running"
  proof -
    from r assms obtain past where past: "past @ map as_put (todo t) = movement_program (payload t)"
      "changes t = fold (leaves c) past Map.empty" by (auto simp: session_ok_def)
    have "length past + length (todo t) = length (movement_program (payload t))"
      using arg_cong [OF past(1), of length] by simp
    then have "past_rows t = rows_of past" unfolding past_rows_def by (simp add: past(1) [symmetric])
    moreover have "rows_of past @ rows_of (todo t) = movement_locks (payload t)"
      using arg_cong [OF past(1), of rows_of] rows_of_program(1) [OF x] by simp
    ultimately show ?thesis by (simp add: past(2) dom_fold_leaves)
  qed
  show "set (held_locks (as_txn t)) = dom (changes t)"
    using run assms by (simp add: as_txn_def session_ok_def split: if_splits)
  show "stock_locks.in_order (as_txn t)"
    using run movement_locks_ranked [OF x] by (simp add: as_txn_def stock_locks.in_order_def)
  show "phase t = Running \<Longrightarrow> to_lock (as_txn t) \<noteq> [] \<or> held_locks (as_txn t) \<noteq> []"
    using run rows_of_program(2) [OF x] by (auto simp: as_txn_def)
qed

lemma run_statement_goes:
  assumes "\<And>k. k \<in> set (row_of st) \<Longrightarrow> \<not> locked k"
  shows "run_statement d c locked st t \<noteq> None"
  using assms by (cases st) (simp_all split: option.splits)

definition finished :: "concurrent \<Rightarrow> bool" where
  "finished s \<longleftrightarrow> (\<forall>t \<in> set (sessions s). phase t \<noteq> Running)"

lemma some_session_advances:
  assumes ok: "concurrent_ok d s" and left: "\<not> finished s"
  shows "\<exists>i s'. advance d i s = Some s'"
proof -
  let ?ts = "map as_txn (sessions s)"
  have facts: "session_ok d (stock s) t" if "t \<in> set (sessions s)" for t
    using ok that by (simp add: concurrent_ok_def)
  have "\<not> all_ended ?ts"
  proof -
    from left obtain t where t: "t \<in> set (sessions s)" "phase t = Running" by (auto simp: finished_def)
    from as_txn_facts(3) [OF facts [OF t(1)] t(2)] t(1) show ?thesis by (auto simp: all_ended_def)
  qed
  moreover have "\<forall>t \<in> set ?ts. stock_locks.in_order t" using as_txn_facts(2) [OF facts] by auto
  ultimately obtain i where go: "can_go_on ?ts i" using stock_locks.progress by blast
  then have i: "i < length (sessions s)" by (simp add: can_go_on_def)
  let ?t = "sessions s ! i"
  have run: "phase ?t = Running" using go i by (simp add: can_go_on_def as_txn_def split: if_splits)
  have free: "\<not> locked_elsewhere i s k" if k: "rows_of (todo ?t) = k # ks" for k ks
  proof -
    have "k \<notin> dom (changes (sessions s ! j))" if j: "j < length (sessions s)" "j \<noteq> i" for j
    proof -
      have "k \<notin> set (held_locks (as_txn (sessions s ! j)))"
        using go i run k j by (simp add: can_go_on_def as_txn_def)
      with as_txn_facts(1) [OF facts [OF nth_mem [OF j(1)]]] show ?thesis by simp
    qed
    then show ?thesis by (force simp: locked_elsewhere_def domIff)
  qed
  show ?thesis
  proof (cases "todo ?t")
    case Nil
    then have "advance d i s = Some (ending i s)" using i run by (simp add: advance_def)
    then show ?thesis by blast
  next
    case (Cons st sts)
    have "\<not> locked_elsewhere i s k" if "k \<in> set (row_of st)" for k
      using that free [of k "rows_of sts"] Cons by (cases st) simp_all
    from run_statement_goes [of st "locked_elsewhere i s", OF this]
    obtain t where "run_statement d (stock s) (locked_elsewhere i s) st ?t = Some t" by fastforce
    with Cons i run have "advance d i s = Some (s\<lparr>sessions := (sessions s)[i := t]\<rparr>)" by (simp add: advance_def)
    then show ?thesis by blast
  qed
qed

section \<open>Every run ends\<close>

fun cost :: "statement \<Rightarrow> nat" where
  "cost (Put p wh q) = 2"
| "cost st = 1"

definition cost_left :: "session \<Rightarrow> nat" where
  "cost_left t = (if phase t = Running then Suc (sum_list (map cost (todo t))) else 0)"

definition steps_left :: "concurrent \<Rightarrow> nat" where
  "steps_left s = sum_list (map cost_left (sessions s))"

lemma run_statement_cost:
  assumes "run_statement d c locked st t = Some t'" and "phase t = Running" and "todo t = st # sts"
  shows "cost_left t' < cost_left t"
  using assms
  by (cases st) (auto simp: cost_left_def found_def write_row_def split: if_splits option.splits)

lemma replaced_cost: "i < length (sessions s) \<Longrightarrow> cost_left t < cost_left (sessions s ! i) \<Longrightarrow>
    sum_list (map cost_left ((sessions s)[i := t])) < steps_left s"
  using sum_list_nth_update [of i "sessions s" cost_left t] by (simp add: steps_left_def)

lemma concurrent_step_cost:
  assumes "concurrent_step d s s'"
  shows "steps_left s' < steps_left s"
  using assms
proof cases
  case (advances i)
  then have i: "i < length (sessions s)" "phase (sessions s ! i) = Running"
    by (simp_all add: advance_def split: if_splits)
  show ?thesis
  proof (cases "todo (sessions s ! i)")
    case Nil
    with advances i have "s' = ending i s" by (simp add: advance_def)
    then show ?thesis
      using replaced_cost [OF i(1)] i(2)
      by (simp add: ending_def Let_def steps_left_def [of "s\<lparr>stock := _, trail := _, sessions := _\<rparr>"]
          steps_left_def [of "s\<lparr>sessions := _\<rparr>"] cost_left_def)
  next
    case (Cons st sts)
    with advances i obtain t where t: "run_statement d (stock s) (locked_elsewhere i s) st (sessions s ! i) = Some t"
      and s': "s' = s\<lparr>sessions := (sessions s)[i := t]\<rparr>" by (auto simp: advance_def)
    from replaced_cost [OF i(1) run_statement_cost [OF t i(2) Cons]] show ?thesis
      by (simp add: s' steps_left_def [of "s\<lparr>sessions := _\<rparr>"])
  qed
next
  case (interrupted i)
  have "cost_left (rolled_back (sessions s ! i)) < cost_left (sessions s ! i)"
    using interrupted by (simp add: cost_left_def)
  from replaced_cost [OF interrupted(2) this] show ?thesis
    by (simp add: interrupted(1) steps_left_def [of "s\<lparr>sessions := _\<rparr>"])
qed

lemma run_length:
  "(concurrent_step d ^^ n) s s' \<Longrightarrow> n + steps_left s' \<le> steps_left s"
proof (induction n arbitrary: s')
  case (Suc n)
  then obtain s1 where "(concurrent_step d ^^ n) s s1" "concurrent_step d s1 s'" by auto
  with Suc.IH [of s1] concurrent_step_cost [of d s1 s'] show ?case by simp
qed simp

lemma program_cost: "movement_create_ok x \<Longrightarrow> sum_list (map cost (movement_program x)) \<le> 6"
  by (erule movement_create_ok_cases)
    (simp_all add: movement_program_def removal_def receipt_def Let_def)

lemma started_cost:
  "\<forall>x \<in> set xs. movement_create_ok x \<Longrightarrow> steps_left (started d xs) \<le> 7 * length xs"
proof (induction xs)
  case (Cons x xs)
  with program_cost [of x] show ?case by (simp add: steps_left_def started_def opened_def cost_left_def)
qed (simp add: steps_left_def started_def)

section \<open>Who has committed\<close>

definition committed_sessions :: "session list \<Rightarrow> movement_create multiset" where
  "committed_sessions ts = {#payload t. t \<in># filter_mset (\<lambda>t. phase t = Committed) (mset ts)#}"

text \<open>Every payload is there once, and the trail is that of the sessions that committed.\<close>

definition accounted :: "movement_create list \<Rightarrow> concurrent \<Rightarrow> bool" where
  "accounted xs s \<longleftrightarrow> map payload (sessions s) = xs \<and> mset (trail s) = committed_sessions (sessions s)"

lemma committed_sessions_update:
  assumes "i < length ts" and "phase (ts ! i) \<noteq> Committed"
  shows "committed_sessions (ts[i := t]) =
    (if phase t = Committed then add_mset (payload t) (committed_sessions ts) else committed_sessions ts)"
  using assms by (simp add: committed_sessions_def mset_update)

lemma payload_update: "i < length ts \<Longrightarrow> payload t = payload (ts ! i) \<Longrightarrow> map payload (ts[i := t]) = map payload ts"
  by (simp add: map_update list_update_same_conv)

lemma concurrent_step_accounted:
  assumes "concurrent_step d s s'" and ac: "accounted xs s"
  shows "accounted xs s'"
  using assms(1)
proof cases
  case (advances i)
  then have i: "i < length (sessions s)" "phase (sessions s ! i) = Running"
    by (simp_all add: advance_def split: if_splits)
  show ?thesis
  proof (cases "todo (sessions s ! i)")
    case Nil
    with advances i have "s' = ending i s" by (simp add: advance_def)
    with ac i show ?thesis
      by (simp add: accounted_def ending_def Let_def payload_update committed_sessions_update)
  next
    case (Cons st sts)
    with advances i obtain t where t: "run_statement d (stock s) (locked_elsewhere i s) st (sessions s ! i) = Some t"
      and s': "s' = s\<lparr>sessions := (sessions s)[i := t]\<rparr>" by (auto simp: advance_def)
    have "phase t \<noteq> Committed" using run_statement_changes(3) [OF t] i(2) by fastforce
    with ac i show ?thesis
      by (simp add: s' accounted_def payload_update run_statement_changes(2) [OF t] committed_sessions_update)
  qed
qed (use ac in \<open>simp add: accounted_def payload_update committed_sessions_update\<close>)

lemma started_accounted: "accounted xs (started d xs)"
proof -
  have "committed_sessions (map opened xs) = {#}"
    by (induction xs) (simp_all add: committed_sessions_def opened_def)
  moreover have "map payload (map opened xs) = xs" by (simp add: opened_def comp_def)
  ultimately show ?thesis by (simp add: accounted_def started_def)
qed

lemma concurrent_steps_accounted: "(concurrent_step d)\<^sup>*\<^sup>* (started d xs) s \<Longrightarrow> accounted xs s"
  by (induction rule: rtranclp_induct) (auto intro: started_accounted concurrent_step_accounted)

text \<open>A schedule: which session is let on next; one that waits stays where it is.\<close>

fun run_schedule :: "db \<Rightarrow> nat list \<Rightarrow> concurrent \<Rightarrow> concurrent" where
  "run_schedule d [] s = s"
| "run_schedule d (i # is) s = run_schedule d is (case advance d i s of None \<Rightarrow> s | Some s' \<Rightarrow> s')"

lemma run_schedule_steps: "(concurrent_step d)\<^sup>*\<^sup>* s (run_schedule d is s)"
proof (induction "is" arbitrary: s)
  case (Cons i js)
  show ?case
  proof (cases "advance d i s")
    case (Some s')
    from concurrent_step.advances [OF this] Cons.IH [of s'] show ?thesis
      by (simp add: Some converse_rtranclp_into_rtranclp)
  qed (simp add: Cons.IH)
qed simp

section \<open>An evaluation that is overtaken\<close>

text \<open>
  After its commit a movement holds no lock any more, and its session does not reload the
  Inventory object (\<open>expire_on_commit=False\<close>). Here a second movement runs, whole, between
  the commit of the first and the evaluation of its object.
\<close>

definition overtaken :: "'x deps \<Rightarrow> movement_create \<Rightarrow> movement_create \<Rightarrow> ('x, alert option) service" where
  "overtaken e x y =
     andthen (movement_transaction e x None) (\<lambda>(affected, m).
     andthen (held inventories_table (hd affected)) (\<lambda>iv.
     andthen (one_request e y) (\<lambda>_. evaluate_stock_level e iv)))"

lemma recorded_committed:
  assumes "recorded x u affected w w1 m"
  shows "movement_committed x u (work w) (committed w1)"
  by (rule movement_committedI [OF assms]) simp

lemma effect_out_in:
  assumes "mc_source_warehouse_id x = Some s" "mc_destination_warehouse_id x = None"
    and "mc_source_warehouse_id y = None" "mc_destination_warehouse_id y = Some s" "mc_product_id y = mc_product_id x"
  shows "movement_effect (mc_product_id x) s (new_movement x None) = - mc_quantity x"
    and "movement_effect (mc_product_id x) s (new_movement y None) = mc_quantity y"
  using assms by (simp_all add: movement_effect_def)

lemma receipt_follows:
  assumes x: "movement_create_ok x" "mc_source_warehouse_id x = Some s" "mc_destination_warehouse_id x = None"
    and y: "mc_source_warehouse_id y = None" "mc_destination_warehouse_id y = Some s" "mc_product_id y = mc_product_id x"
    and px: "movement_problem x d = None" and mc: "movement_committed x None d d1"
    and n: "int4 (stock_in (inventories d) (mc_product_id x) s - mc_quantity x + mc_quantity y)"
  shows "movement_problem y d1 = None"
proof -
  have "stock_in (inventories d1) (mc_product_id x) s = stock_in (inventories d) (mc_product_id x) s - mc_quantity x"
    using movement_committed_stock(1) [OF mc] effect_out_in(1) [OF x(2,3) y] by simp
  with px x y n movement_committed_tables [OF mc] show ?thesis
    by (auto simp: movement_problem_def leg_problems_def removal_problem_def receipt_problem_def split: if_splits)
qed

lemma overtaken_run:
  assumes x: "movement_create_ok x" "storable x" "mc_source_warehouse_id x = Some s" "mc_destination_warehouse_id x = None"
    and y: "movement_create_ok y" "storable y" "mc_source_warehouse_id y = None" "mc_destination_warehouse_id y = Some s"
      "mc_product_id y = mc_product_id x"
    and ok: "system_ok d" and w: "committed w = d" "work w = d" and px: "movement_problem x d = None"
    and f: "fresh e 18 w" and thr: "int4 (low_stock_alert_threshold_default e)"
    and n: "int4 (stock_in (inventories d) (mc_product_id x) s - mc_quantity x + mc_quantity y)"
  obtains iv w2 where "overtaken e x y w = evaluate_stock_level e iv w2" "fresh e 1 w2" "work w2 = committed w2"
    "inv_pair iv = (mc_product_id x, s)" "inv_quantity iv = stock_in (inventories d) (mc_product_id x) s - mc_quantity x"
    "applicable_threshold e iv = low_stock_alert_threshold_default e" "system_ok (committed w2)" "int4 (inv_quantity iv)"
    "mc_product_id x \<in> set (ids (products (committed w2)))" "s \<in> set (ids (warehouses (committed w2)))"
    "stock_in (inventories (committed w2)) (mc_product_id x) s =
      stock_in (inventories d) (mc_product_id x) s - mc_quantity x + mc_quantity y"
proof -
  have ok': "constraints (work w)" "stock_nonneg (work w)" using ok w by (simp_all add: system_ok_def)
  from movement_transaction_returns [OF x(1,2) ok'(1) fresh_mono [OF f] ok'(2), of None] px w
  obtain affected m w1 where t: "movement_transaction e x None w = (Inr (affected, m), w1)"
    and r: "recorded x None affected w w1 m" and dr1: "draws e 3 w w1" by auto
  have mc: "movement_committed x None d (committed w1)" using recorded_committed [OF r] by (simp add: w)
  have w1: "committed w1 = work w1" "constraints (work w1)" using r by (auto simp: recorded_def)
  have ok1: "system_ok (committed w1)"
    using ok movement_committed_stock(4-6) [OF mc] movement_committed_ledger [OF mc] movement_committed_nonneg [OF mc x(1)]
    by (simp add: system_ok_def)
  obtain i where aff: "affected = [i]"
    and row: "\<exists>r \<in> set (inventories (work w1)). entity_id r = i \<and> inv_pair r = (mc_product_id x, s)"
    using recorded_rows [OF r] x(3,4) by (auto simp: touched_def list_all2_Cons2)
  obtain iv where h: "held inventories_table i w1 = (Inr iv, w1)" and iv: "inv_pair iv = (mc_product_id x, s)"
      "inv_quantity iv = stock_in (inventories (work w1)) (mc_product_id x) s" "iv \<in> set (inventories (work w1))"
    using held_affected [OF row w1(2)] by metis
  have "fresh e 15 w1" by (rule fresh_draws [OF _ dr1]) (use f in simp)
  then have f1: "fresh e 15 w1" .
  have py: "movement_problem y (committed w1) = None"
    by (rule receipt_follows [OF x(1,3,4) y(3-5) px mc n])
  have c1: "constraints (committed w1)" "stock_nonneg (committed w1)" "one_active (committed w1)"
    using ok1 by (simp_all add: system_ok_def)
  have "fresh e 12 w1" by (rule fresh_mono [OF f1]) simp
  from one_request_returns [OF y(1,2) c1(1) this c1(2,3) thr py w1(1) [symmetric]]
  obtain m2 w2 where req: "one_request e y w1 = (Inr m2, w2)" and dr2: "draws e 14 w1 w2"
    and work: "work w2 = committed w2" and mc2: "movement_committed y None (committed w1) (committed w2)"
    by blast
  show thesis
  proof (rule that)
    show "overtaken e x y w = evaluate_stock_level e iv w2"
      using t h req by (simp add: overtaken_def aff)
    show "fresh e 1 w2" by (rule fresh_draws [OF _ dr2]) (use f1 in simp)
    show "system_ok (committed w2)"
      using ok1 movement_committed_stock(4-6) [OF mc2] movement_committed_ledger [OF mc2] movement_committed_nonneg [OF mc2 y(1)]
      by (simp add: system_ok_def)
    show "inv_quantity iv = stock_in (inventories d) (mc_product_id x) s - mc_quantity x"
      using movement_committed_stock(1) [OF mc] effect_out_in(1) [OF x(3,4) y(3-5)] iv(2) w1 by simp
    then show "stock_in (inventories (committed w2)) (mc_product_id x) s =
        stock_in (inventories d) (mc_product_id x) s - mc_quantity x + mc_quantity y"
      using movement_committed_stock(1) [OF mc2] effect_out_in(2) [OF x(3,4) y(3-5)] iv(2) w1 by simp
    show "applicable_threshold e iv = low_stock_alert_threshold_default e"
      using ok1 iv(3) w1 by (auto simp: system_ok_def own_thresholds_def applicable_threshold_def split: option.splits)
    show "int4 (inv_quantity iv)" by (rule int4_quantity [OF w1(2) iv(3)])
    show "mc_product_id x \<in> set (ids (products (committed w2)))" "s \<in> set (ids (warehouses (committed w2)))"
    proof -
      have "inv_product_id iv \<in> set (ids (products (work w1)))" "inv_warehouse_id iv \<in> set (ids (warehouses (work w1)))"
        using w1(2) iv(3) unfolding constraints_def inventories_ok_def by blast+
      then show "mc_product_id x \<in> set (ids (products (committed w2)))" "s \<in> set (ids (warehouses (committed w2)))"
        using iv(1) w1(1) movement_committed_tables [OF mc2] by simp_all
    qed
  qed (use work iv in simp_all)
qed

end
