(* ===== verification/Example.thy ===== *)
theory Example
  imports Api Isolation
begin

text \<open>
  A small concrete state the properties are instantiated at: two warehouses, one product
  with 20 units in the first of them, received by one movement; a default threshold of 10;
  a publisher that records what it is given and a broker that accepts every task.
\<close>

definition demo_deps :: "domain_event list deps" where
  "demo_deps = \<lparr>low_stock_alert_threshold_default = 10, uuid4 = of_nat, clock = int,
     scan_order = (\<lambda>k n. [0..<n]), ilike = (\<lambda>s p. True), event_publish = (\<lambda>ev x. x @ [ev]),
     task_delay = (\<lambda>i x. (True, x))\<rparr>"

definition demo_db :: db where
  "demo_db = \<lparr>
     warehouses = [\<lparr>entity_id = 1, created_at = 0, updated_at = 0, wh_name = ''North'', wh_code = ''N'',
         wh_address = None, wh_is_active = True\<rparr>,
       \<lparr>entity_id = 2, created_at = 0, updated_at = 0, wh_name = ''South'', wh_code = ''S'',
         wh_address = None, wh_is_active = True\<rparr>],
     products = [\<lparr>entity_id = 3, created_at = 0, updated_at = 0, prod_sku = ''B-1'', prod_name = ''Bolt'',
         prod_description = None, prod_price = 250, prod_is_active = True\<rparr>],
     inventories = [\<lparr>entity_id = 4, created_at = 0, updated_at = 0, inv_product_id = 3,
         inv_warehouse_id = 1, inv_quantity = 20, inv_low_stock_threshold = None\<rparr>],
     movements = [\<lparr>entity_id = 5, created_at = 0, updated_at = 0, mov_product_id = 3, mov_type = IN,
         mov_quantity = 20, mov_source_warehouse_id = None, mov_destination_warehouse_id = Some 1,
         mov_reason = None, mov_performed_by = None\<rparr>],
     alerts = [], users = []\<rparr>"

definition demo_world :: "domain_event list world" where
  "demo_world = \<lparr>committed = demo_db, work = demo_db, tx_time = 9, row_locks = [], tick = 10, outside = []\<rparr>"

definition demo_transfer :: movement_create where
  "demo_transfer = \<lparr>mc_product_id = 3, mc_movement_type = TRANSFER, mc_quantity = 12,
     mc_source_warehouse_id = Some 1, mc_destination_warehouse_id = Some 2, mc_reason = None\<rparr>"

lemma demo_constraints: "constraints demo_db"
  by code_simp

lemma demo_invariants: "system_ok demo_db"
proof -
  have "ledger_ok demo_db" by (auto simp: ledger_ok_def demo_db_def movement_effect_def)
  moreover have "stock_nonneg demo_db" by (auto simp: stock_nonneg_def demo_db_def)
  moreover have "one_active demo_db" by (simp add: one_active_def active_alerts_def demo_db_def)
  moreover have "own_thresholds demo_db = {}" by (simp add: own_thresholds_def demo_db_def)
  ultimately show ?thesis using demo_constraints by (simp add: system_ok_def)
qed

lemma demo_readable: "rows_readable demo_db"
  by code_simp

lemma demo_fair: "fair_scan demo_deps"
  by (simp add: fair_scan_def demo_deps_def)

lemma demo_stable: "stable_scan demo_deps"
  by (simp add: stable_scan_def demo_deps_def)

lemma demo_transfer_ok: "movement_create_ok demo_transfer"
  by code_simp

lemma demo_ticks: "{10..<21} = {10, 11, 12, 13, 14, 15, 16, 17, 18, 19, 20 :: nat}"
  unfolding set_upt [symmetric] by (simp add: upt_rec)

lemma demo_fresh: "fresh demo_deps 11 demo_world"
  by (simp add: fresh_def demo_world_def demo_deps_def demo_db_def all_ids_def demo_ticks inj_on_def)

lemma demo_storable: "storable demo_transfer"
  by code_simp

lemma demo_threshold: "int4 (low_stock_alert_threshold_default demo_deps)"
  by code_simp

definition demo_depot :: warehouse_create where
  "demo_depot = \<lparr>wc_name = ''Depot'', wc_code = ''D'', wc_address = None\<rparr>"

text \<open>A history from the empty database: a warehouse, a product, and stock received.\<close>

definition demo_start :: "domain_event list world" where
  "demo_start = \<lparr>committed = empty_db, work = empty_db, tx_time = 0, row_locks = [], tick = 0,
     outside = []\<rparr>"

definition demo_history :: "domain_event list world" where
  "demo_history = snd (serve demo_deps (RecordMovement
       \<lparr>mc_product_id = 4, mc_movement_type = IN, mc_quantity = 5, mc_source_warehouse_id = None,
        mc_destination_warehouse_id = Some 1, mc_reason = Some ''first delivery''\<rparr>)
     (snd (serve demo_deps (CreateProduct \<lparr>pc_sku = ''B-1'', pc_name = ''Bolt'',
        pc_description = None, pc_price = Decimal 250 2\<rparr>)
     (snd (serve demo_deps (CreateWarehouse \<lparr>wc_name = ''North'', wc_code = ''N'',
        wc_address = None\<rparr>) demo_start)))))"

lemma demo_history_steps: "(system_step demo_deps)\<^sup>*\<^sup>* demo_start demo_history"
  unfolding demo_history_def by (intro serve_steps rtranclp.rtrancl_refl)

text \<open>The inventory record of the state above, alerts of its pair, and a superuser.\<close>

definition demo_row :: inventory where
  "demo_row = \<lparr>entity_id = 4, created_at = 0, updated_at = 0, inv_product_id = 3,
     inv_warehouse_id = 1, inv_quantity = 20, inv_low_stock_threshold = None\<rparr>"

definition demo_alert :: "uuid \<Rightarrow> alert" where
  "demo_alert i = \<lparr>entity_id = i, created_at = 0, updated_at = 0, al_product_id = 3,
     al_warehouse_id = 1, al_alert_type = LOW_STOCK, al_status = ACTIVE, al_threshold = 10,
     al_quantity_at_trigger = 8, al_resolved_at = None\<rparr>"

definition demo_boss :: user where
  "demo_boss = \<lparr>entity_id = 9, created_at = 0, updated_at = 0, us_email = ''boss@local'',
     us_hashed_password = ''hash'', us_full_name = None, us_is_active = True, us_is_superuser = True\<rparr>"

text \<open>Two transfers of 12 units at once: the second waits for the first, then finds 8 left.\<close>

lemma demo_fresh_14: "fresh demo_deps 14 demo_world"
proof -
  have "{10..<24} = {10, 11, 12, 13, 14, 15, 16, 17, 18, 19, 20, 21, 22, 23 :: nat}"
    unfolding set_upt [symmetric] by (simp add: upt_rec)
  then show ?thesis
    by (simp add: fresh_def demo_world_def demo_deps_def demo_db_def all_ids_def inj_on_def)
qed

definition demo_race :: concurrent where
  "demo_race = run_schedule demo_db [0, 0, 0, 1, 1, 1, 0, 0, 0, 1, 0, 1] (started demo_db [demo_transfer, demo_transfer])"

lemma demo_program: "movement_program demo_transfer =
    [FindProduct 3, FindWarehouse 1, Take 3 1 12, FindWarehouse 2, Put 3 2 12]"
proof -
  have "(1 :: uuid) \<le> 2" by code_simp
  then show ?thesis
    by (simp add: movement_program_def removal_def receipt_def demo_transfer_def lock_order_cases Let_def)
qed

lemma demo_stock: "stock_map demo_db (3, 1) = Some 20" "stock_map demo_db (3, 2) = None"
  by (simp_all add: stock_map_def demo_db_def)

lemmas demo_steps = advance_def ending_def write_row_def found_def rolled_back_def locked_elsewhere_def
  started_def opened_def demo_program demo_stock demo_storable Let_def int4_def

lemma demo_tables: "set (ids (products demo_db)) = {3}" "set (ids (warehouses demo_db)) = {1, 2}"
  by (simp_all add: demo_db_def)

lemma demo_race_trail: "trail demo_race = [demo_transfer] \<and> stock demo_race (3, 1) = Some 8 \<and> stock demo_race (3, 2) = Some 12"
  unfolding demo_race_def by (simp add: demo_steps demo_tables map_add_def upt_rec)

end
