(* ===== verification/Reports.thy ===== *)
theory Reports
  imports Acceptance
begin

text \<open>
  ReportService (app/services/report.py) and the report schemas. Each query is a LEFT JOIN of
  the warehouses with the inventories (and products), grouped by warehouse and ordered by
  name; \<open>collation\<close> is the database's collation key. The lemmas show that grouping loses
  nothing: the totals are those of the whole inventory table.

  Values of money are counted in hundredths. Python adds Decimals in a context of 28
  digits, written out as \<open>round28\<close>.
\<close>

section \<open>Definitions\<close>

record warehouse_stock_summary =
  ss_warehouse_id :: uuid
  ss_warehouse_name :: string
  ss_distinct_products :: int
  ss_total_quantity :: int
  ss_low_stock_count :: int
  ss_out_of_stock_count :: int

record inventory_summary_report =
  sr_generated_at :: int
  sr_total_warehouses :: int
  sr_total_stock_quantity :: int
  sr_low_stock_count :: int
  sr_out_of_stock_count :: int
  sr_by_warehouse :: "warehouse_stock_summary list"

record warehouse_valuation =
  wv_warehouse_id :: uuid
  wv_warehouse_name :: string
  wv_total_value :: int

record inventory_valuation_report =
  vr_generated_at :: int
  vr_total_value :: int
  vr_by_warehouse :: "warehouse_valuation list"

definition stock_rows :: "db \<Rightarrow> warehouse \<Rightarrow> inventory list" where
  "stock_rows d wa = filter (\<lambda>r. inv_warehouse_id r = entity_id wa) (inventories d)"

definition count_rows :: "('r \<Rightarrow> bool) \<Rightarrow> 'r list \<Rightarrow> int" where
  "count_rows p rs = int (length (filter p rs))"

definition summary_row :: "'x deps \<Rightarrow> db \<Rightarrow> warehouse \<Rightarrow> warehouse_stock_summary" where
  "summary_row e d wa =
     \<lparr>ss_warehouse_id = entity_id wa, ss_warehouse_name = wh_name wa,
      ss_distinct_products = count_rows (\<lambda>_. True) (stock_rows d wa),
      ss_total_quantity = sum_list (map inv_quantity (stock_rows d wa)),
      ss_low_stock_count =
        count_rows (\<lambda>r. inv_quantity r \<le> applicable_threshold e r) (stock_rows d wa),
      ss_out_of_stock_count = count_rows (\<lambda>r. inv_quantity r = 0) (stock_rows d wa)\<rparr>"

text \<open>SELECT ... GROUP BY id, name ORDER BY name: one row per warehouse.\<close>

definition grouped_by_warehouse ::
  "'x deps \<Rightarrow> (string \<Rightarrow> string) \<Rightarrow> (db \<Rightarrow> warehouse \<Rightarrow> 'a) \<Rightarrow> ('x, 'a list) service" where
  "grouped_by_warehouse e collation row = (\<lambda>w.
     (Inr (map (row (work w))
        (sort_key (\<lambda>wa. collation (wh_name wa)) (scan e (tick w) (warehouses (work w))))),
      w\<lparr>tick := Suc (tick w)\<rparr>))"

definition generate_inventory_summary ::
  "'x deps \<Rightarrow> (string \<Rightarrow> string) \<Rightarrow> ('x, inventory_summary_report) service" where
  "generate_inventory_summary e collation =
     andthen (grouped_by_warehouse e collation (summary_row e)) (\<lambda>by_warehouse.
     andthen (utc_now e) (\<lambda>now. ret
       \<lparr>sr_generated_at = now, sr_total_warehouses = int (length by_warehouse),
        sr_total_stock_quantity = sum_list (map ss_total_quantity by_warehouse),
        sr_low_stock_count = sum_list (map ss_low_stock_count by_warehouse),
        sr_out_of_stock_count = sum_list (map ss_out_of_stock_count by_warehouse),
        sr_by_warehouse = by_warehouse\<rparr>))"

text \<open>The joined product's price; an unmatched row has the value NULL, which SUM skips.\<close>

definition row_value :: "db \<Rightarrow> inventory \<Rightarrow> int" where
  "row_value d r = (case find (\<lambda>p. entity_id p = inv_product_id r) (products d) of
     None \<Rightarrow> 0 | Some p \<Rightarrow> inv_quantity r * prod_price p)"

definition valuation_row :: "db \<Rightarrow> warehouse \<Rightarrow> warehouse_valuation" where
  "valuation_row d wa = \<lparr>wv_warehouse_id = entity_id wa, wv_warehouse_name = wh_name wa,
     wv_total_value = sum_list (map (row_value d) (stock_rows d wa))\<rparr>"

definition round28 :: "int \<Rightarrow> int" where
  "round28 c =
     (if \<bar>c\<bar> < 10 ^ 28 then c
      else let u = 10 ^ (length (nat_str (nat \<bar>c\<bar>)) - 28); q = c div u; r = c mod u
           in if 2 * r < u \<or> 2 * r = u \<and> even q then q * u else (q + 1) * u)"

definition sum_decimals :: "int list \<Rightarrow> int" where
  "sum_decimals xs = foldl (\<lambda>s x. round28 (s + x)) 0 xs"

definition generate_valuation_report ::
  "'x deps \<Rightarrow> (string \<Rightarrow> string) \<Rightarrow> ('x, inventory_valuation_report) service" where
  "generate_valuation_report e collation =
     andthen (grouped_by_warehouse e collation valuation_row) (\<lambda>by_warehouse.
     andthen (utc_now e) (\<lambda>now. ret
       \<lparr>vr_generated_at = now, vr_total_value = sum_decimals (map wv_total_value by_warehouse),
        vr_by_warehouse = by_warehouse\<rparr>))"

section \<open>Grouping loses nothing\<close>

lemma sum_list_perm: "mset xs = mset ys \<Longrightarrow> sum_list (map f xs) = sum_list (map (f :: _ \<Rightarrow> int) ys)"
  by (metis mset_map sum_mset_sum_list)

lemma sum_list_filter_split:
  fixes g :: "'r \<Rightarrow> int"
  assumes "\<And>r. r \<in> set rs \<Longrightarrow> \<not> (P r \<and> Q r)"
  shows "sum_list (map g (filter (\<lambda>r. P r \<or> Q r) rs)) =
    sum_list (map g (filter P rs)) + sum_list (map g (filter Q rs))"
  using assms by (induction rs) auto

lemma sum_by_key:
  fixes g :: "'r \<Rightarrow> int"
  assumes "distinct (map key ws)"
  shows "(\<Sum>w\<leftarrow>ws. sum_list (map g (filter (\<lambda>r. f r = key w) rs))) =
    sum_list (map g (filter (\<lambda>r. f r \<in> key ` set ws) rs))"
  using assms
proof (induction ws)
  case (Cons w ws)
  then have no: "key w \<notin> key ` set ws" by auto
  have "sum_list (map g (filter (\<lambda>r. f r \<in> key ` set (w # ws)) rs)) =
      sum_list (map g (filter (\<lambda>r. f r = key w \<or> f r \<in> key ` set ws) rs))"
    by (rule arg_cong [where f = "\<lambda>xs. sum_list (map g xs)"], rule filter_cong) auto
  also have "\<dots> = sum_list (map g (filter (\<lambda>r. f r = key w) rs)) +
      sum_list (map g (filter (\<lambda>r. f r \<in> key ` set ws) rs))"
    by (rule sum_list_filter_split) (use no in auto)
  finally show ?case using Cons by simp
qed simp

lemma sum_by_warehouse:
  fixes g :: "inventory \<Rightarrow> int"
  assumes ok: "constraints d" and ws: "mset ws = mset (warehouses d)"
  shows "(\<Sum>wa\<leftarrow>ws. sum_list (map g (stock_rows d wa))) = sum_list (map g (inventories d))"
proof -
  have "distinct (map entity_id (warehouses d))" using ok by (simp add: constraint_defs ids_def)
  moreover have "mset (map entity_id ws) = mset (map entity_id (warehouses d))" by (simp add: ws)
  ultimately have dist: "distinct (map entity_id ws)" by (metis mset_eq_imp_distinct_iff)
  have all: "\<forall>r \<in> set (inventories d). inv_warehouse_id r \<in> entity_id ` set ws"
    using ok mset_eq_setD [OF ws] by (simp add: constraint_defs set_ids)
  show ?thesis
    using sum_by_key [OF dist, of g inv_warehouse_id "inventories d"] all
    by (simp add: stock_rows_def filter_id_conv)
qed

lemma count_rows_sum: "count_rows P rs = sum_list (map (\<lambda>r. if P r then 1 else 0) rs)"
  by (induction rs) (auto simp: count_rows_def)

lemma count_by_warehouse:
  "constraints d \<Longrightarrow> mset ws = mset (warehouses d) \<Longrightarrow>
     (\<Sum>wa\<leftarrow>ws. count_rows P (stock_rows d wa)) = count_rows P (inventories d)"
  unfolding count_rows_sum by (rule sum_by_warehouse)

lemma grouped_rows:
  assumes "fair_scan e"
  shows "mset (sort_key (\<lambda>wa. collation (wh_name wa)) (scan e k (warehouses d))) = mset (warehouses d)"
  by (simp add: mset_scan [OF assms])

definition listed :: "'x deps \<Rightarrow> (string \<Rightarrow> string) \<Rightarrow> 'x world \<Rightarrow> warehouse list" where
  "listed e collation w =
     sort_key (\<lambda>wa. collation (wh_name wa)) (scan e (tick w) (warehouses (work w)))"

lemma mset_listed: "fair_scan e \<Longrightarrow> mset (listed e collation w) = mset (warehouses (work w))"
  by (simp add: listed_def mset_scan)

lemma length_listed: "fair_scan e \<Longrightarrow> length (listed e collation w) = length (warehouses (work w))"
  by (metis mset_listed size_mset)

lemma low_stock_wanted: "inv_quantity r \<le> applicable_threshold e r \<longleftrightarrow> wanted e r \<noteq> None"
  by (simp add: wanted_def wanted_alert_def)

lemma summary_run:
  assumes fair: "fair_scan e" and ok: "constraints (work w)"
  shows "generate_inventory_summary e collation w =
    (Inr \<lparr>sr_generated_at = clock e (Suc (tick w)),
       sr_total_warehouses = int (length (warehouses (work w))),
       sr_total_stock_quantity = sum_list (map inv_quantity (inventories (work w))),
       sr_low_stock_count = count_rows (\<lambda>r. wanted e r \<noteq> None) (inventories (work w)),
       sr_out_of_stock_count = count_rows (\<lambda>r. inv_quantity r = 0) (inventories (work w)),
       sr_by_warehouse = map (summary_row e (work w)) (listed e collation w)\<rparr>,
     w\<lparr>tick := Suc (Suc (tick w))\<rparr>)"
proof -
  note ws = mset_listed [OF fair, of collation w]
  have "sum_list (map ss_total_quantity (map (summary_row e (work w)) (listed e collation w))) =
      sum_list (map inv_quantity (inventories (work w)))"
    using sum_by_warehouse [OF ok ws, of inv_quantity] by (simp add: comp_def summary_row_def)
  moreover have "sum_list (map ss_low_stock_count (map (summary_row e (work w)) (listed e collation w))) =
      count_rows (\<lambda>r. wanted e r \<noteq> None) (inventories (work w))"
    using count_by_warehouse [OF ok ws, of "\<lambda>r. wanted e r \<noteq> None"]
    by (simp add: comp_def summary_row_def low_stock_wanted)
  moreover have "sum_list (map ss_out_of_stock_count (map (summary_row e (work w)) (listed e collation w))) =
      count_rows (\<lambda>r. inv_quantity r = 0) (inventories (work w))"
    using count_by_warehouse [OF ok ws, of "\<lambda>r. inv_quantity r = 0"]
    by (simp add: comp_def summary_row_def)
  ultimately show ?thesis
    by (simp add: generate_inventory_summary_def grouped_by_warehouse_def andthen_def
        length_listed [OF fair] flip: listed_def)
qed

section \<open>Valuation\<close>

lemma foldl_exact:
  assumes "\<And>x. x \<in> set xs \<Longrightarrow> 0 \<le> x" and "0 \<le> s" and "s + sum_list xs < 10 ^ 28"
  shows "foldl (\<lambda>s x. round28 (s + x)) s xs = s + sum_list xs"
  using assms
proof (induction xs arbitrary: s)
  case (Cons x xs)
  have "0 \<le> sum_list xs" using Cons.prems(1) by (intro sum_list_nonneg) simp
  then have "round28 (s + x) = s + x" using Cons.prems by (simp add: round28_def)
  then show ?case using Cons by simp
qed simp

text \<open>The value of the whole stock: quantity times unit price, over every inventory row.\<close>

definition stock_value :: "db \<Rightarrow> int" where
  "stock_value d = sum_list (map (row_value d) (inventories d))"

lemma row_value_found:
  assumes "constraints d" and "r \<in> set (inventories d)"
  obtains p where "p \<in> set (products d)" "entity_id p = inv_product_id r"
    "row_value d r = inv_quantity r * prod_price p"
proof -
  have "inv_product_id r \<in> set (ids (products d))" using assms by (simp add: constraint_defs)
  then obtain p where f: "find (\<lambda>p. entity_id p = inv_product_id r) (products d) = Some p"
    using find_by_id_None by (cases "find (\<lambda>p. entity_id p = inv_product_id r) (products d)") auto
  then have "p \<in> set (products d)" "entity_id p = inv_product_id r" by (auto dest: find_SomeD)
  with that [of p] f show thesis by (simp add: row_value_def)
qed

lemma valuation_run:
  assumes fair: "fair_scan e" and ok: "constraints (work w)"
    and nonneg: "\<forall>r \<in> set (inventories (work w)). 0 \<le> row_value (work w) r"
    and small: "stock_value (work w) < 10 ^ 28"
  shows "generate_valuation_report e collation w =
    (Inr \<lparr>vr_generated_at = clock e (Suc (tick w)), vr_total_value = stock_value (work w),
       vr_by_warehouse = map (valuation_row (work w)) (listed e collation w)\<rparr>,
     w\<lparr>tick := Suc (Suc (tick w))\<rparr>)"
proof -
  note ws = mset_listed [OF fair, of collation w]
  let ?vs = "map wv_total_value (map (valuation_row (work w)) (listed e collation w))"
  have sum: "sum_list ?vs = stock_value (work w)"
    using sum_by_warehouse [OF ok ws, of "row_value (work w)"]
    by (simp add: comp_def valuation_row_def stock_value_def)
  have "0 \<le> v" if "v \<in> set ?vs" for v
    using that nonneg by (auto simp: valuation_row_def stock_rows_def intro!: sum_list_nonneg)
  then have "sum_decimals ?vs = stock_value (work w)"
    using foldl_exact [of ?vs 0] small unfolding sum_decimals_def sum by simp
  then show ?thesis
    by (simp add: generate_valuation_report_def grouped_by_warehouse_def andthen_def flip: listed_def)
qed

end
