(* ===== verification/Publisher.thy ===== *)
theory Publisher
  imports Events
begin

text \<open>
  The in-process event publisher (app/events/publisher.py) and the contract of EventPublisher
  (app/events/base.py). A handler is a value of any type; \<open>run\<close> says what calling it with
  an event does to the rest of the process and whether it raised. Handlers act one after the
  other here, in the order they subscribed; the theory Gather interleaves them.
\<close>

section \<open>Definitions\<close>

type_synonym 'h publisher = "string \<rightharpoonup> 'h list"

definition new_publisher :: "'h publisher" where
  "new_publisher = Map.empty"

text \<open>The table of handlers is a defaultdict(list).\<close>

definition subscribe :: "string \<Rightarrow> 'h \<Rightarrow> 'h publisher \<Rightarrow> 'h publisher" where
  "subscribe t h p = p(t \<mapsto> (case p t of None \<Rightarrow> [] | Some hs \<Rightarrow> hs) @ [h])"

definition handlers_of :: "'h publisher \<Rightarrow> domain_event \<Rightarrow> 'h list" where
  "handlers_of p ev = (case p (event_type ev) of None \<Rightarrow> [] | Some hs \<Rightarrow> hs)"

text \<open>
  Every handler is called with the event; the ones that raised are logged, in order. Nothing
  is raised to the caller.
\<close>

fun call_handlers ::
  "('h \<Rightarrow> domain_event \<Rightarrow> 's \<Rightarrow> bool \<times> 's) \<Rightarrow> 'h list \<Rightarrow> domain_event \<Rightarrow> 's \<Rightarrow> 'h list \<times> 's" where
  "call_handlers run [] ev s = ([], s)"
| "call_handlers run (h # hs) ev s =
     (case run h ev s of (failed, s1) \<Rightarrow>
      case call_handlers run hs ev s1 of (log, s2) \<Rightarrow> ((if failed then h # log else log), s2))"

definition publish_event ::
  "('h \<Rightarrow> domain_event \<Rightarrow> 's \<Rightarrow> bool \<times> 's) \<Rightarrow> 'h publisher \<Rightarrow> domain_event \<Rightarrow> 's \<Rightarrow> 'h list \<times> 's" where
  "publish_event run p ev s =
     (let handlers = handlers_of p ev in
      if handlers = [] then ([], s) else call_handlers run handlers ev s)"

lemma count_list_distinct: "distinct ts \<Longrightarrow> count_list ts t = (if t \<in> set ts then 1 else 0)"
  by (induction ts) auto

section \<open>The contract\<close>

text \<open>
  What a subscriber may rely on: it is delivered exactly the events of the types it
  subscribed to, each once per subscription, after the subscribers before it.
\<close>

locale event_bus =
  fixes sub :: "string \<Rightarrow> 'h \<Rightarrow> 'p \<Rightarrow> 'p" and delivers :: "'p \<Rightarrow> domain_event \<Rightarrow> 'h list"
  assumes same_type: "event_type ev = t \<Longrightarrow> delivers (sub t h p) ev = delivers p ev @ [h]"
    and other_type: "event_type ev \<noteq> t \<Longrightarrow> delivers (sub t h p) ev = delivers p ev"
begin

lemma delivers_fold: "delivers (fold (\<lambda>t. sub t h) ts p) ev =
    delivers p ev @ replicate (count_list ts (event_type ev)) h"
proof (induction ts arbitrary: p)
  case Nil
  then show ?case by simp
next
  case (Cons t ts)
  have "delivers (fold (\<lambda>t. sub t h) (t # ts) p) ev = delivers (fold (\<lambda>t. sub t h) ts (sub t h p)) ev"
    by simp
  also have "\<dots> = delivers (sub t h p) ev @ replicate (count_list ts (event_type ev)) h"
    by (rule Cons.IH)
  finally show ?case by (cases "event_type ev = t") (simp_all add: same_type other_type)
qed

lemma delivers_once: "distinct ts \<Longrightarrow> event_type ev \<in> set ts \<Longrightarrow>
    delivers (fold (\<lambda>t. sub t h) ts p) ev = delivers p ev @ [h]"
  by (simp add: delivers_fold count_list_distinct)

lemma delivers_never: "event_type ev \<notin> set ts \<Longrightarrow> delivers (fold (\<lambda>t. sub t h) ts p) ev = delivers p ev"
  by (simp add: delivers_fold)

end

interpretation in_process: event_bus subscribe handlers_of
  by unfold_locales (auto simp: subscribe_def handlers_of_def split: option.splits)

section \<open>Failing handlers are isolated\<close>

text \<open>The effects are those of all the handlers, whether or not some of them raised.\<close>

lemma call_handlers_state:
  "snd (call_handlers run hs ev s) = fold (\<lambda>h s. snd (run h ev s)) hs s"
proof (induction hs arbitrary: s)
  case (Cons h hs)
  from Cons [of "snd (run h ev s)"] show ?case by (simp add: split_def)
qed simp

lemma call_handlers_log: "set (fst (call_handlers run hs ev s)) \<subseteq> set hs"
proof (induction hs arbitrary: s)
  case (Cons h hs)
  from Cons [of "snd (run h ev s)"] show ?case by (auto simp: split_def)
qed simp

lemma publish_event_state:
  "snd (publish_event run p ev s) = fold (\<lambda>h s. snd (run h ev s)) (handlers_of p ev) s"
  by (simp add: publish_event_def Let_def call_handlers_state)

end
