(* ===== verification/WebSockets.thy ===== *)
theory WebSockets
  imports Publisher
begin

text \<open>
  Real-time notifications: the connection manager (app/websockets/manager.py), the listener
  that turns domain events into broadcasts (app/websockets/listeners.py), the Redis fan-out
  that every process relays to its own clients (app/websockets/pubsub.py) and the heartbeat
  job (app/core/scheduler.py).

  A Python set is a list here, in an iteration order of no significance. A client is a
  value of any type; \<open>ok c\<close> says whether sending to it works. Redis carries a published
  text to every process; json.dumps and json.loads are parameters.
\<close>

section \<open>ConnectionManager\<close>

type_synonym 'c connections = "string \<rightharpoonup> 'c list"

definition GLOBAL_CHANNEL :: string where
  "GLOBAL_CHANNEL = ''global''"

definition no_connections :: "'c connections" where
  "no_connections = Map.empty"

definition on_channel :: "'c connections \<Rightarrow> string \<Rightarrow> 'c list" where
  "on_channel conns ch = (case conns ch of None \<Rightarrow> [] | Some cs \<Rightarrow> cs)"

definition connect :: "'c \<Rightarrow> string \<Rightarrow> 'c connections \<Rightarrow> 'c connections" where
  "connect ws ch conns = conns(ch \<mapsto> List.insert ws (on_channel conns ch))"

definition disconnect :: "'c \<Rightarrow> string \<Rightarrow> 'c connections \<Rightarrow> 'c connections" where
  "disconnect ws ch conns =
     (case conns ch of
        None \<Rightarrow> conns
      | Some cs \<Rightarrow> (let cs' = removeAll ws cs in
          if cs' = [] then conns(ch := None) else conns(ch \<mapsto> cs')))"

text \<open>
  A broadcast computes its targets up front, sends to each, and drops the ones it could not
  reach from the channels it was addressed to. Between the two parts other tasks may run,
  so they are separate definitions; \<open>broadcast\<close> is one right after the other.
\<close>

definition with_global :: "string list \<Rightarrow> string list" where
  "with_global channels = List.insert GLOBAL_CHANNEL channels"

definition broadcast_targets :: "string list \<Rightarrow> 'c connections \<Rightarrow> 'c list" where
  "broadcast_targets channels conns = remdups (concat (map (on_channel conns) (with_global channels)))"

definition drop_stale :: "'c list \<Rightarrow> string list \<Rightarrow> 'c connections \<Rightarrow> 'c connections" where
  "drop_stale stale channels conns =
     fold (\<lambda>c. fold (disconnect c) (with_global channels)) stale conns"

definition broadcast ::
  "('c \<Rightarrow> bool) \<Rightarrow> string list \<Rightarrow> 'c connections \<Rightarrow> 'c list \<times> 'c connections" where
  "broadcast ok channels conns =
     (let targets = broadcast_targets channels conns;
          stale = filter (\<lambda>c. \<not> ok c) targets
      in (filter ok targets, drop_stale stale channels conns))"

text \<open>The heartbeat job broadcasts with the default channel.\<close>

definition broadcast_heartbeat :: "('c \<Rightarrow> bool) \<Rightarrow> 'c connections \<Rightarrow> 'c list \<times> 'c connections" where
  "broadcast_heartbeat ok conns = broadcast ok [GLOBAL_CHANNEL] conns"

definition websocket_endpoint ::
  "'c \<Rightarrow> string \<Rightarrow> ('c connections \<Rightarrow> 'c connections) \<Rightarrow> 'c connections \<Rightarrow> 'c connections" where
  "websocket_endpoint ws ch meanwhile conns = disconnect ws ch (meanwhile (connect ws ch conns))"

section \<open>The event listener\<close>

datatype json = JStr string | JInt int

definition broadcast_event_types :: "string list" where
  "broadcast_event_types =
     [''inventory.stock_received'', ''inventory.stock_removed'', ''inventory.stock_transferred'',
      ''inventory.low_stock_detected'', ''inventory.out_of_stock_detected'']"

definition channels_for :: "domain_event \<Rightarrow> string list" where
  "channels_for ev = (case body ev of
     StockTransferredEvent p s d q \<Rightarrow> remdups [uuid_str s, uuid_str d]
   | StockReceivedEvent p wh q r \<Rightarrow> [uuid_str wh]
   | StockRemovedEvent p wh q r \<Rightarrow> [uuid_str wh]
   | LowStockDetectedEvent p wh q t \<Rightarrow> [uuid_str wh]
   | OutOfStockDetectedEvent p wh \<Rightarrow> [uuid_str wh])"

primrec payload_fields :: "event_body \<Rightarrow> (string \<times> json) list" where
  "payload_fields (StockReceivedEvent p wh q r) =
     [(''product_id'', JStr (uuid_str p)), (''warehouse_id'', JStr (uuid_str wh)),
      (''quantity'', JInt q), (''resulting_quantity'', JInt r)]"
| "payload_fields (StockRemovedEvent p wh q r) =
     [(''product_id'', JStr (uuid_str p)), (''warehouse_id'', JStr (uuid_str wh)),
      (''quantity'', JInt q), (''resulting_quantity'', JInt r)]"
| "payload_fields (StockTransferredEvent p s d q) =
     [(''product_id'', JStr (uuid_str p)), (''source_warehouse_id'', JStr (uuid_str s)),
      (''destination_warehouse_id'', JStr (uuid_str d)), (''quantity'', JInt q)]"
| "payload_fields (LowStockDetectedEvent p wh q t) =
     [(''product_id'', JStr (uuid_str p)), (''warehouse_id'', JStr (uuid_str wh)),
      (''quantity'', JInt q), (''threshold'', JInt t)]"
| "payload_fields (OutOfStockDetectedEvent p wh) =
     [(''product_id'', JStr (uuid_str p)), (''warehouse_id'', JStr (uuid_str wh))]"

definition serialize_event :: "(int \<Rightarrow> string) \<Rightarrow> domain_event \<Rightarrow> (string \<times> json) list" where
  "serialize_event isoformat ev = (''event_type'', JStr (event_type ev)) #
     (''event_id'', JStr (uuid_str (event_id ev))) #
     (''occurred_at'', JStr (isoformat (occurred_at ev))) # payload_fields (body ev)"

definition register_websocket_listeners :: "'h \<Rightarrow> 'h publisher \<Rightarrow> 'h publisher" where
  "register_websocket_listeners broadcast_event p =
     fold (\<lambda>t. subscribe t broadcast_event) broadcast_event_types p"

section \<open>The Redis fan-out\<close>

type_synonym envelope = "(string \<times> json) list \<times> string list"

text \<open>
  The text published for an event, or a RedisError: the state is what was published so far.
\<close>

definition redis_publish ::
  "(envelope \<Rightarrow> string) \<Rightarrow> bool \<Rightarrow> envelope \<Rightarrow> string list \<Rightarrow> bool \<times> string list" where
  "redis_publish dumps up env published =
     (if up then (False, published @ [dumps env]) else (True, published))"

definition broadcast_event ::
  "(int \<Rightarrow> string) \<Rightarrow> (envelope \<Rightarrow> string) \<Rightarrow> bool \<Rightarrow> domain_event \<Rightarrow> string list \<Rightarrow> bool \<times> string list" where
  "broadcast_event isoformat dumps up ev published =
     redis_publish dumps up (serialize_event isoformat ev, channels_for ev) published"

record redis_message =
  raw_type :: string
  raw_data :: string

text \<open>
  One turn of \<open>relay_to_local_clients\<close>: what is delivered to which clients, and the
  connections afterwards. \<open>loads\<close> gives None where the text is not an envelope; that
  exception is logged.
\<close>

definition relay_message ::
  "(string \<Rightarrow> envelope option) \<Rightarrow> ('c \<Rightarrow> bool) \<Rightarrow> redis_message \<Rightarrow> 'c connections \<Rightarrow>
     ('c list \<times> (string \<times> json) list) list \<times> 'c connections" where
  "relay_message loads ok raw conns =
     (if raw_type raw \<noteq> ''message'' then ([], conns)
      else case loads (raw_data raw) of
        None \<Rightarrow> ([], conns)
      | Some (message, channels) \<Rightarrow>
          (case broadcast ok channels conns of (delivered, conns') \<Rightarrow> ([(delivered, message)], conns')))"

fun relay_to_local_clients ::
  "(string \<Rightarrow> envelope option) \<Rightarrow> ('c \<Rightarrow> bool) \<Rightarrow> redis_message list \<Rightarrow> 'c connections \<Rightarrow>
     ('c list \<times> (string \<times> json) list) list \<times> 'c connections" where
  "relay_to_local_clients loads ok [] conns = ([], conns)"
| "relay_to_local_clients loads ok (raw # raws) conns =
     (case relay_message loads ok raw conns of (sent, conns1) \<Rightarrow>
      case relay_to_local_clients loads ok raws conns1 of (sent', conns2) \<Rightarrow> (sent @ sent', conns2))"

section \<open>Connections\<close>

definition connections_ok :: "'c connections \<Rightarrow> bool" where
  "connections_ok conns \<longleftrightarrow> (\<forall>ch cs. conns ch = Some cs \<longrightarrow> cs \<noteq> [] \<and> distinct cs)"

lemma connections_okI: "(\<And>ch cs. conns ch = Some cs \<Longrightarrow> cs \<noteq> [] \<and> distinct cs) \<Longrightarrow> connections_ok conns"
  by (simp add: connections_ok_def)

lemma connections_ok_empty [simp]: "connections_ok no_connections"
  by (simp add: connections_ok_def no_connections_def)

lemma list_insert_not_Nil [simp]: "List.insert x xs \<noteq> []"
  by (auto simp: List.insert_def)

lemma on_no_connections [simp]: "on_channel no_connections ch = []"
  by (simp add: on_channel_def no_connections_def)

lemma uuid_not_global [simp]: "uuid_str u \<noteq> GLOBAL_CHANNEL" "GLOBAL_CHANNEL \<noteq> uuid_str u"
proof -
  have "length GLOBAL_CHANNEL \<noteq> length (uuid_str u)"
    by (simp add: GLOBAL_CHANNEL_def uuid_str_def dashed_def)
  then show "uuid_str u \<noteq> GLOBAL_CHANNEL" "GLOBAL_CHANNEL \<noteq> uuid_str u" by metis+
qed

lemma connections_ok_connect: "connections_ok conns \<Longrightarrow> connections_ok (connect ws ch conns)"
  by (auto simp: connections_ok_def connect_def on_channel_def split: option.splits)

lemma connections_ok_disconnect: "connections_ok conns \<Longrightarrow> connections_ok (disconnect ws ch conns)"
  by (auto simp: connections_ok_def disconnect_def Let_def distinct_removeAll split: option.splits if_splits)

lemma on_channel_connect [simp]:
  "set (on_channel (connect ws ch conns) ch') =
     (if ch' = ch then insert ws (set (on_channel conns ch)) else set (on_channel conns ch'))"
  by (cases "conns ch") (auto simp: connect_def on_channel_def)

lemma on_channel_disconnect [simp]:
  "set (on_channel (disconnect ws ch conns) ch') =
     set (on_channel conns ch') - (if ch' = ch then {ws} else {})"
proof (cases "conns ch")
  case None
  then show ?thesis by (simp add: disconnect_def on_channel_def)
next
  case (Some cs)
  have "set (removeAll ws cs) = set cs - {ws}" by simp
  then show ?thesis
    by (cases "removeAll ws cs = []") (auto simp: Some disconnect_def on_channel_def Let_def)
qed

lemma fold_disconnect_channels:
  "set (on_channel (fold (disconnect ws) chs conns) ch) =
     set (on_channel conns ch) - (if ch \<in> set chs then {ws} else {})"
  by (induction chs arbitrary: conns) auto

lemma connections_ok_fold: "connections_ok conns \<Longrightarrow> connections_ok (fold (disconnect ws) chs conns)"
  by (induction chs arbitrary: conns) (auto intro: connections_ok_disconnect)

lemma drop_stale_members:
  "set (on_channel (drop_stale stale channels conns) ch) =
     set (on_channel conns ch) -
     (if ch = GLOBAL_CHANNEL \<or> ch \<in> set channels then set stale else {})"
proof (induction stale arbitrary: conns)
  case (Cons c cs)
  have "drop_stale (c # cs) channels conns =
      drop_stale cs channels (fold (disconnect c) (with_global channels) conns)"
    by (simp add: drop_stale_def)
  with Cons show ?case by (auto simp: fold_disconnect_channels with_global_def)
qed (simp add: drop_stale_def)

lemma connections_ok_drop: "connections_ok conns \<Longrightarrow> connections_ok (drop_stale stale channels conns)"
  by (induction stale arbitrary: conns) (auto simp: drop_stale_def intro: connections_ok_fold)

lemma set_broadcast_targets: "set (broadcast_targets channels conns) =
    set (on_channel conns GLOBAL_CHANNEL) \<union> (\<Union>ch \<in> set channels. set (on_channel conns ch))"
  by (auto simp: broadcast_targets_def with_global_def)

lemma broadcast_delivers:
  assumes "broadcast ok channels conns = (delivered, conns')"
  shows "distinct delivered"
    and "set delivered = {c. ok c \<and> (c \<in> set (on_channel conns GLOBAL_CHANNEL) \<or>
       (\<exists>ch \<in> set channels. c \<in> set (on_channel conns ch)))}"
    and "set (on_channel conns' ch) = {c \<in> set (on_channel conns ch).
       ok c \<or> ch \<noteq> GLOBAL_CHANNEL \<and> ch \<notin> set channels}"
    and "connections_ok conns \<Longrightarrow> connections_ok conns'"
proof -
  have d: "delivered = filter ok (broadcast_targets channels conns)"
    and c: "conns' = drop_stale (filter (\<lambda>c. \<not> ok c) (broadcast_targets channels conns)) channels conns"
    using assms by (simp_all add: broadcast_def Let_def)
  show "distinct delivered" by (simp add: d broadcast_targets_def)
  show "set delivered = {c. ok c \<and> (c \<in> set (on_channel conns GLOBAL_CHANNEL) \<or>
       (\<exists>ch \<in> set channels. c \<in> set (on_channel conns ch)))}"
    by (auto simp: d set_broadcast_targets)
  show "set (on_channel conns' ch) = {c \<in> set (on_channel conns ch).
       ok c \<or> ch \<noteq> GLOBAL_CHANNEL \<and> ch \<notin> set channels}"
    unfolding c drop_stale_members by (auto simp: set_broadcast_targets)
  show "connections_ok conns \<Longrightarrow> connections_ok conns'"
    unfolding c by (rule connections_ok_drop)
qed

text \<open>What the tasks of the event loop do to the connections, one step at a time.\<close>

inductive manager_step :: "'c connections \<Rightarrow> 'c connections \<Rightarrow> bool" where
  connected: "manager_step conns (connect ws ch conns)"
| disconnected: "manager_step conns (disconnect ws ch conns)"
| stale_dropped: "manager_step conns (drop_stale stale channels conns)"

lemma manager_step_ok: "manager_step conns conns' \<Longrightarrow> connections_ok conns \<Longrightarrow> connections_ok conns'"
  by (induction rule: manager_step.induct)
    (auto intro: connections_ok_connect connections_ok_disconnect connections_ok_drop)

lemma manager_steps_ok: "manager_step\<^sup>*\<^sup>* conns conns' \<Longrightarrow> connections_ok conns \<Longrightarrow> connections_ok conns'"
  by (induction rule: rtranclp_induct) (auto intro: manager_step_ok)

section \<open>From an event to the clients\<close>

lemma event_types_distinct: "distinct broadcast_event_types"
  by (simp add: broadcast_event_types_def)

lemma event_type_listed: "event_type ev \<in> set broadcast_event_types"
  by (cases "body ev") (simp_all add: event_type_def broadcast_event_types_def)

lemma listener_delivered_once:
  "handlers_of (register_websocket_listeners h p) ev = handlers_of p ev @ [h]"
  unfolding register_websocket_listeners_def
  by (rule in_process.delivers_once [OF event_types_distinct event_type_listed])

lemma relay_skips_bad:
  "raw_type raw \<noteq> ''message'' \<or> loads (raw_data raw) = None \<Longrightarrow>
     relay_to_local_clients loads ok (raw # raws) conns = relay_to_local_clients loads ok raws conns"
  by (auto simp: relay_message_def split: prod.splits)

lemma relay_published:
  assumes "loads (dumps env) = Some env" and "env = (message, channels)"
  shows "relay_message loads ok \<lparr>raw_type = ''message'', raw_data = dumps env\<rparr> conns =
    (case broadcast ok channels conns of (delivered, conns') \<Rightarrow> ([(delivered, message)], conns'))"
  using assms by (simp add: relay_message_def)

lemma payload_fields_inject:
  "body_event_type b = body_event_type b' \<Longrightarrow> payload_fields b = payload_fields b' \<Longrightarrow> b = b'"
  by (cases b; cases b') simp_all

lemma serialize_event_inject:
  assumes "inj isoformat" and "serialize_event isoformat ev = serialize_event isoformat ev'"
  shows "ev = ev'"
proof -
  have "body ev = body ev'"
    by (rule payload_fields_inject) (use assms(2) in \<open>simp_all add: serialize_event_def event_type_def\<close>)
  moreover have "occurred_at ev = occurred_at ev'" "event_id ev = event_id ev'"
    using assms by (auto simp: serialize_event_def dest: injD)
  ultimately show ?thesis by simp
qed

definition well_formed :: "(string \<Rightarrow> envelope option) \<Rightarrow> redis_message \<Rightarrow> bool" where
  "well_formed loads raw \<longleftrightarrow> raw_type raw = ''message'' \<and> loads (raw_data raw) \<noteq> None"

lemma relay_filter:
  "relay_to_local_clients loads ok raws conns = relay_to_local_clients loads ok (filter (well_formed loads) raws) conns"
proof (induction raws arbitrary: conns)
  case (Cons raw raws)
  show ?case
  proof (cases "well_formed loads raw")
    case True
    with Cons show ?thesis by simp
  next
    case False
    then have "relay_to_local_clients loads ok (raw # raws) conns = relay_to_local_clients loads ok raws conns"
      by (intro relay_skips_bad) (simp only: well_formed_def, blast)
    with Cons False show ?thesis by simp
  qed
qed simp

end
