(* ===== verification/ParseUuid.thy ===== *)
theory ParseUuid
  imports Identifiers
begin

text \<open>
  Reading a UUID from text: Python's \<open>uuid.UUID\<close>, written out with the int(..., 16) it ends
  in. It reads what \<open>str\<close> of a UUID prints (\<open>UUID_str\<close>); a Celery task and the token check
  rest on that.
\<close>

section \<open>uuid.UUID\<close>

text \<open>str.replace(old, '') and str.strip('{}').\<close>

fun remove_all :: "string \<Rightarrow> string \<Rightarrow> string" where
  "remove_all old [] = []"
| "remove_all old (c # cs) =
     (if old \<noteq> [] \<and> take (length old) (c # cs) = old then remove_all old (drop (length old) (c # cs))
      else c # remove_all old cs)"

definition strip_chars :: "char list \<Rightarrow> string \<Rightarrow> string" where
  "strip_chars ds s = rev (dropWhile (\<lambda>c. c \<in> set ds) (rev (dropWhile (\<lambda>c. c \<in> set ds) s)))"

definition hex_value :: "char \<Rightarrow> nat option" where
  "hex_value c = (let n = of_char c in
     if 48 \<le> n \<and> n \<le> 57 then Some (n - 48)
     else if 97 \<le> n \<and> n \<le> 102 then Some (n - 87)
     else if 65 \<le> n \<and> n \<le> 70 then Some (n - 55)
     else None)"

text \<open>
  int(s, 16) on the digits: single underscores may separate them. Then the white space, the
  sign and the 0x prefix int takes before them.
\<close>

fun hex_number :: "nat \<Rightarrow> string \<Rightarrow> nat option" where
  "hex_number acc [] = Some acc"
| "hex_number acc (c # cs) =
     (case hex_value c of
        Some v \<Rightarrow> hex_number (16 * acc + v) cs
      | None \<Rightarrow> (case cs of
          d # ds \<Rightarrow> if c = CHR ''_'' then
              (case hex_value d of Some v \<Rightarrow> hex_number (16 * acc + v) ds | None \<Rightarrow> None) else None
        | [] \<Rightarrow> None))"

definition white :: "char list" where
  "white = [CHR '' '', CHR 0x09, CHR 0x0A, CHR 0x0B, CHR 0x0C, CHR 0x0D, CHR 0x1C, CHR 0x1D, CHR 0x1E,
     CHR 0x1F, CHR 0x85, CHR 0xA0]"

definition number :: "string \<Rightarrow> nat option" where
  "number s = (case s of
     [] \<Rightarrow> None | c # cs \<Rightarrow> if hex_value c = None then None else hex_number 0 s)"

definition unprefixed :: "string \<Rightarrow> nat option" where
  "unprefixed s =
     (if take 2 s = ''0x'' \<or> take 2 s = ''0X'' then
        (if take 1 (drop 2 s) = ''_'' then number (drop 3 s) else number (drop 2 s))
      else number s)"

definition int16 :: "string \<Rightarrow> int option" where
  "int16 s = (case strip_chars white s of
     [] \<Rightarrow> None
   | c # cs \<Rightarrow>
       if c = CHR ''+'' then map_option int (unprefixed cs)
       else if c = CHR ''-'' then map_option (\<lambda>n. - int n) (unprefixed cs)
       else map_option int (unprefixed (c # cs)))"

text \<open>uuid.UUID(text); None is its ValueError.\<close>

definition UUID :: "string \<Rightarrow> uuid option" where
  "UUID s =
     (let hex = remove_all ''-'' (strip_chars ''{}'' (remove_all ''uuid:'' (remove_all ''urn:'' s))) in
      if length hex \<noteq> 32 then None
      else (case int16 hex of None \<Rightarrow> None
        | Some n \<Rightarrow> if 0 \<le> n \<and> n < 2 ^ 128 then Some (of_int n) else None))"

lemma hex_value_digit: "n < 16 \<Longrightarrow> hex_value (digit_char n) = Some n"
  by (auto simp: hex_value_def of_char_digit_char Let_def)

lemma hex_number_append:
  "(\<And>c. c \<in> set cs \<Longrightarrow> hex_value c \<noteq> None) \<Longrightarrow> hex_number acc (cs @ ds) =
     (case hex_number acc cs of None \<Rightarrow> None | Some a \<Rightarrow> hex_number a ds)"
proof (induction cs arbitrary: acc)
  case (Cons c cs)
  then obtain v where "hex_value c = Some v" by fastforce
  with Cons show ?case by simp
qed simp

lemma hex_digits_values: "c \<in> set (hex_digits k n) \<Longrightarrow> hex_value c \<noteq> None"
  by (induction k arbitrary: n) (auto simp: hex_value_digit)

lemma hex_number_digits: "n < 16 ^ k \<Longrightarrow> hex_number 0 (hex_digits k n) = Some n"
proof (induction k arbitrary: n)
  case (Suc k)
  then have "n div 16 < 16 ^ k" by (simp add: less_mult_imp_div_less mult.commute)
  with Suc.IH show ?case
    by (simp add: hex_number_append hex_digits_values hex_value_digit)
qed simp

lemma hex_char_facts:
  assumes "hex_value c \<noteq> None"
  shows "c \<notin> set white" "c \<noteq> CHR ''-''" "c \<noteq> CHR ''+''" "c \<noteq> CHR '':''" "c \<notin> set ''{}''" "c \<noteq> CHR ''x''"
    "c \<noteq> CHR ''X''"
  using assms by (auto simp: hex_value_def white_def)

lemma strip_chars_id: "(\<And>c. c \<in> set s \<Longrightarrow> c \<notin> set ds) \<Longrightarrow> strip_chars ds s = s"
proof -
  assume a: "\<And>c. c \<in> set s \<Longrightarrow> c \<notin> set ds"
  then have "dropWhile (\<lambda>c. c \<in> set ds) s = s" by (cases s) auto
  moreover have "dropWhile (\<lambda>c. c \<in> set ds) (rev s) = rev s" using a by (cases "rev s") (auto simp: rev_eq_Cons_iff)
  ultimately show ?thesis by (simp add: strip_chars_def)
qed

lemma remove_all_absent: "c \<in> set old \<Longrightarrow> c \<notin> set s \<Longrightarrow> remove_all old s = s"
proof (induction s)
  case (Cons d s)
  have "take (length old) (d # s) \<noteq> old" using Cons.prems by (metis in_set_takeD)
  with Cons show ?case by simp
qed simp

lemma remove_dash: "remove_all ''-'' s = filter (\<lambda>c. c \<noteq> CHR ''-'') s"
  by (induction s) auto

lemma filter_dashed:
  assumes "CHR ''-'' \<notin> set h" "length h = 32"
  shows "filter (\<lambda>c. c \<noteq> CHR ''-'') (dashed h) = h"
proof -
  have "filter (\<lambda>c. c \<noteq> CHR ''-'') (take i (drop j h)) = take i (drop j h)" for i j
    using assms(1) by (auto simp: filter_id_conv dest!: in_set_takeD in_set_dropD)
  from this [of _ 0] this [of "length h"] this
  have "filter (\<lambda>c. c \<noteq> CHR ''-'') (dashed h) =
      take 8 h @ take 4 (drop 8 h) @ take 4 (drop 12 h) @ take 4 (drop 16 h) @ drop 20 h"
    by (simp add: dashed_def)
  also have "\<dots> = h"
    using append_take_drop_id [of 8 h] append_take_drop_id [of 4 "drop 8 h"]
      append_take_drop_id [of 4 "drop 12 h"] append_take_drop_id [of 4 "drop 16 h"] by simp
  finally show ?thesis .
qed


lemma UUID_str: "UUID (uuid_str u) = Some u"
proof -
  let ?h = "hex_digits 32 (unat u)"
  have hex: "c \<in> set ?h \<Longrightarrow> hex_value c \<noteq> None" for c by (rule hex_digits_values)
  have chars: "c \<in> set (dashed ?h) \<Longrightarrow> hex_value c \<noteq> None \<or> c = CHR ''-''" for c
    using hex by (auto simp: dashed_def dest!: in_set_takeD in_set_dropD)
  have no_colon: "CHR '':'' \<notin> set (dashed ?h)" using chars hex_char_facts(4) by blast
  have "remove_all ''urn:'' (dashed ?h) = dashed ?h" "remove_all ''uuid:'' (dashed ?h) = dashed ?h"
    by (rule remove_all_absent [OF _ no_colon]; simp)+
  moreover have "strip_chars ''{}'' (dashed ?h) = dashed ?h"
    by (rule strip_chars_id) (use chars hex_char_facts(5) in auto)
  moreover have "remove_all ''-'' (dashed ?h) = ?h"
    unfolding remove_dash by (rule filter_dashed) (use hex hex_char_facts(2) in auto)
  moreover have "int16 ?h = Some (int (unat u))"
  proof -
    have s: "strip_chars white ?h = ?h"
      by (rule strip_chars_id) (use hex hex_char_facts(1) in blast)
    have "unat u < 16 ^ 32" using unsigned_less [of u] by simp
    then have num: "hex_number 0 ?h = Some (unat u)" by (rule hex_number_digits)
    obtain c cs where h: "?h = c # cs" using length_hex_digits [of 32 "unat u"] by (cases ?h) auto
    have c: "hex_value c \<noteq> None" by (rule hex) (simp add: h)
    have "CHR ''x'' \<notin> set ?h" "CHR ''X'' \<notin> set ?h" using hex hex_char_facts(6,7) by blast+
    then have "take 2 ?h \<noteq> ''0x''" "take 2 ?h \<noteq> ''0X''" by (metis in_set_takeD list.set_intros)+
    then have "unprefixed ?h = number ?h" by (simp add: unprefixed_def)
    also have "\<dots> = Some (unat u)" using num c unfolding h number_def by simp
    finally show ?thesis using s hex_char_facts(2,3) [OF c] unfolding int16_def h by simp
  qed
  moreover have "unat u < 2 ^ 128" using unsigned_less [of u] by simp
  then have "int (unat u) < 2 ^ 128" by (simp only: of_nat_less_numeral_power_cancel_iff)
  moreover have "of_int (int (unat u)) = u" by simp
  ultimately show ?thesis
    unfolding UUID_def uuid_str_def Let_def by (simp del: of_int_of_nat_eq)
qed

end
