(* ===== verification/Auth.thy ===== *)
theory Auth
  imports Repositories ParseUuid
begin

text \<open>
  Passwords, access tokens and the authentication dependencies (app/core/security.py,
  app/api/deps.py). bcrypt and PyJWT are parameters, in \<open>security\<close>; times and spans are in
  microseconds. No route uses these dependencies yet.

  The lemmas give each dependency's answer as a function of the user the token names.
\<close>

section \<open>Passwords and tokens\<close>

text \<open>
  A payload is a JSON object, and \<open>payload.get("sub")\<close> what it has under "sub": nothing or
  null, a string, or a value of another type (a number, a boolean, an array, an object);
  PyJWT 2.9 does not check which.
\<close>

datatype subject_claim = NoSubject | Subject string | OtherSubject

record claims =
  claim_sub :: subject_claim
  claim_exp :: int

record security =
  secret_key :: string
  algorithm :: string
  access_token_expire_minutes :: int
  jwt_encode :: "claims \<Rightarrow> string \<Rightarrow> string \<Rightarrow> string"
  jwt_decode :: "int \<Rightarrow> string \<Rightarrow> string \<Rightarrow> string list \<Rightarrow> claims option"
  pwd_hash :: "nat \<Rightarrow> string \<Rightarrow> string"
  pwd_verify :: "string \<Rightarrow> string \<Rightarrow> bool"

definition minutes :: "int \<Rightarrow> int" where
  "minutes n = n * 60 * 10 ^ 6"

text \<open>A hash is salted, so each call may give another one.\<close>

definition hash_password :: "security \<Rightarrow> string \<Rightarrow> ('x, string) service" where
  "hash_password s password = (\<lambda>w. (Inr (pwd_hash s (tick w) password), w\<lparr>tick := Suc (tick w)\<rparr>))"

definition verify_password :: "security \<Rightarrow> string \<Rightarrow> string \<Rightarrow> bool" where
  "verify_password s plain hashed = pwd_verify s plain hashed"

text \<open>\<open>expires_delta or ...\<close>: a span of zero is false, so it counts as not given.\<close>

definition token_lifetime :: "security \<Rightarrow> int option \<Rightarrow> int" where
  "token_lifetime s expires_delta = (case expires_delta of
     Some d \<Rightarrow> if d \<noteq> 0 then d else minutes (access_token_expire_minutes s)
   | None \<Rightarrow> minutes (access_token_expire_minutes s))"

definition create_access_token ::
  "'x deps \<Rightarrow> security \<Rightarrow> string \<Rightarrow> int option \<Rightarrow> ('x, string) service" where
  "create_access_token e s subject expires_delta = andthen (utc_now e) (\<lambda>now.
     ret (jwt_encode s \<lparr>claim_sub = Subject subject, claim_exp = now + token_lifetime s expires_delta\<rparr>
       (secret_key s) (algorithm s)))"

text \<open>jwt.decode reads the clock itself; None is a PyJWTError.\<close>

definition decode_access_token :: "'x deps \<Rightarrow> security \<Rightarrow> string \<Rightarrow> ('x, claims option) service" where
  "decode_access_token e s token = andthen (utc_now e) (\<lambda>now.
     ret (jwt_decode s now token (secret_key s) [algorithm s]))"

section \<open>The dependencies\<close>

datatype auth_error = HTTPException int string | Other exc

definition credentials_exception :: auth_error where
  "credentials_exception = HTTPException 401 ''Could not validate credentials.''"

text \<open>try: ... except: raise another exception.\<close>

definition reraise :: "('e \<Rightarrow> 'f) \<Rightarrow> ('w, 'e, 'a) prog \<Rightarrow> ('w, 'f, 'a) prog" where
  "reraise h f = (\<lambda>w. case f w of (Inl x, w') \<Rightarrow> (Inl (h x), w') | (Inr a, w') \<Rightarrow> (Inr a, w'))"

definition no_such_user :: "exc \<Rightarrow> auth_error" where
  "no_such_user x = (case x of App (NotFoundError m) \<Rightarrow> credentials_exception | _ \<Rightarrow> Other x)"

type_synonym ('x, 'a) dependency = "('x world, auth_error, 'a) prog"

text \<open>
  uuid.UUID takes the string apart with str.replace, so a subject of another type is an
  AttributeError there, which no \<open>except\<close> of the dependency names.
\<close>

definition get_current_user :: "'x deps \<Rightarrow> security \<Rightarrow> string \<Rightarrow> ('x, user) dependency" where
  "get_current_user e s token =
     andthen (reraise Other (decode_access_token e s token)) (\<lambda>decoded.
     case decoded of None \<Rightarrow> raise credentials_exception
     | Some payload \<Rightarrow> (case claim_sub payload of
         NoSubject \<Rightarrow> raise credentials_exception
       | OtherSubject \<Rightarrow> raise (Other AttributeError)
       | Subject subject \<Rightarrow> (case UUID subject of
           None \<Rightarrow> raise credentials_exception
         | Some user_id \<Rightarrow> reraise no_such_user (get_by_id_or_raise users_table user_id))))"

definition get_current_active_user :: "'x deps \<Rightarrow> security \<Rightarrow> string \<Rightarrow> ('x, user) dependency" where
  "get_current_active_user e s token = andthen (get_current_user e s token) (\<lambda>current_user.
     if \<not> us_is_active current_user then raise (HTTPException 403 ''Inactive user account.'')
     else ret current_user)"

definition get_current_superuser :: "'x deps \<Rightarrow> security \<Rightarrow> string \<Rightarrow> ('x, user) dependency" where
  "get_current_superuser e s token = andthen (get_current_active_user e s token) (\<lambda>current_user.
     if \<not> us_is_superuser current_user then raise (HTTPException 403 ''Superuser privileges required.'')
     else ret current_user)"

section \<open>Whom a token names\<close>

definition subject_text :: "claims \<Rightarrow> string option" where
  "subject_text payload = (case claim_sub payload of Subject t \<Rightarrow> Some t | _ \<Rightarrow> None)"

definition named_user :: "security \<Rightarrow> int \<Rightarrow> string \<Rightarrow> db \<Rightarrow> user option" where
  "named_user s now token d =
     Option.bind (jwt_decode s now token (secret_key s) [algorithm s]) (\<lambda>payload.
     Option.bind (subject_text payload) (\<lambda>subject.
     Option.bind (UUID subject) (\<lambda>i. find (\<lambda>r. entity_id r = i) (users d))))"

text \<open>A valid token whose subject is not a string.\<close>

definition odd_subject :: "security \<Rightarrow> int \<Rightarrow> string \<Rightarrow> bool" where
  "odd_subject s now token \<longleftrightarrow> (case jwt_decode s now token (secret_key s) [algorithm s] of
     None \<Rightarrow> False | Some payload \<Rightarrow> claim_sub payload = OtherSubject)"

lemma get_current_user_run: "get_current_user e s token w =
    (if odd_subject s (clock e (tick w)) token then Inl (Other AttributeError)
     else case named_user s (clock e (tick w)) token (work w) of
       None \<Rightarrow> Inl credentials_exception | Some r \<Rightarrow> Inr r, w\<lparr>tick := Suc (tick w)\<rparr>)"
  by (auto simp: get_current_user_def named_user_def decode_access_token_def reraise_def andthen_def
      get_by_id_or_raise_run users_table_def no_such_user_def not_found_def odd_subject_def subject_text_def
      split: option.splits bind_splits subject_claim.splits)

lemma get_current_active_user_run: "get_current_active_user e s token w =
    (if odd_subject s (clock e (tick w)) token then Inl (Other AttributeError)
     else case named_user s (clock e (tick w)) token (work w) of
       None \<Rightarrow> Inl credentials_exception
     | Some r \<Rightarrow> if us_is_active r then Inr r else Inl (HTTPException 403 ''Inactive user account.''),
     w\<lparr>tick := Suc (tick w)\<rparr>)"
  by (simp add: get_current_active_user_def andthen_def get_current_user_run split: option.splits)

lemma get_current_superuser_run: "get_current_superuser e s token w =
    (if odd_subject s (clock e (tick w)) token then Inl (Other AttributeError)
     else case named_user s (clock e (tick w)) token (work w) of
       None \<Rightarrow> Inl credentials_exception
     | Some r \<Rightarrow> if \<not> us_is_active r then Inl (HTTPException 403 ''Inactive user account.'')
         else if \<not> us_is_superuser r then Inl (HTTPException 403 ''Superuser privileges required.'')
         else Inr r,
     w\<lparr>tick := Suc (tick w)\<rparr>)"
  by (simp add: get_current_superuser_def andthen_def get_current_active_user_run split: option.splits)

text \<open>
  What PyJWT documents of a token it made: until the second it expires in, decoding it with
  the same key and algorithm gives its subject.
\<close>

definition reads_own_tokens :: "security \<Rightarrow> bool" where
  "reads_own_tokens s \<longleftrightarrow> (\<forall>c now. now + 10 ^ 6 \<le> claim_exp c \<longrightarrow>
     map_option claim_sub (jwt_decode s now (jwt_encode s c (secret_key s) (algorithm s))
       (secret_key s) [algorithm s]) = Some (claim_sub c))"

lemma named_user_of_token:
  assumes jwt: "reads_own_tokens s"
    and tok: "create_access_token e s (uuid_str (entity_id r)) delta w = (Inr token, w')"
    and now: "now + 10 ^ 6 \<le> clock e (tick w) + token_lifetime s delta"
    and r: "r \<in> set (users d)" and ok: "constraints d"
  shows "named_user s now token d = Some r \<and> \<not> odd_subject s now token"
proof -
  let ?c = "\<lparr>claim_sub = Subject (uuid_str (entity_id r)), claim_exp = clock e (tick w) + token_lifetime s delta\<rparr>"
  have t: "token = jwt_encode s ?c (secret_key s) (algorithm s)"
    using tok by (simp add: create_access_token_def andthen_def)
  have "map_option claim_sub (jwt_decode s now token (secret_key s) [algorithm s]) = Some (claim_sub ?c)"
    using jwt now unfolding reads_own_tokens_def t by (metis claims.select_convs(2))
  then obtain c where "jwt_decode s now token (secret_key s) [algorithm s] = Some c"
    "claim_sub c = Subject (uuid_str (entity_id r))" by auto
  moreover have "find (\<lambda>u. entity_id u = entity_id r) (users d) = Some r"
    using users_store.find_row [of r d] r ok by (simp add: users_table_def)
  ultimately show ?thesis by (simp add: named_user_def odd_subject_def subject_text_def UUID_str)
qed

end
