(* ===== verification/Cache.thy ===== *)
theory Cache
  imports Reports
begin

text \<open>
  The response cache (app/core/cache.py) and the report endpoints it wraps
  (app/api/v1/endpoints/reports.py). Redis is a parameter: a client that gets and sets keys
  on a state of its own, either of which can fail with a RedisError. sha256 and JSON are
  parameters as well. The state of a cached endpoint is the endpoint's with Redis's.

  The lemmas: what Redis documents of SET with EX (\<open>ttl_store\<close>) makes every answer either
  computed by this call or younger than the time to live; the two report endpoints share one
  Redis, and a history of both is a history of each, because their keys differ.
\<close>

section \<open>The decorator\<close>

record 'r redis_client =
  redis_get :: "string \<Rightarrow> 'r \<Rightarrow> (unit + string option) \<times> 'r"
  redis_set :: "string \<Rightarrow> string \<Rightarrow> int \<Rightarrow> 'r \<Rightarrow> (unit + unit) \<times> 'r"

text \<open>How a value is serialised: model_dump_json and model_validate_json.\<close>

record ('e, 'a) model_json =
  model_dump_json :: "'a \<Rightarrow> string"
  model_validate_json :: "string \<Rightarrow> 'e + 'a"

definition EXCLUDED_KWARGS :: "string set" where
  "EXCLUDED_KWARGS = {''db'', ''redis'', ''current_user''}"

definition build_cache_key ::
  "((string \<times> string) list \<Rightarrow> string) \<Rightarrow> string \<Rightarrow> (string \<times> string) list \<Rightarrow> string" where
  "build_cache_key digest prefix kwargs =
     (let relevant = filter (\<lambda>(key, value). key \<notin> EXCLUDED_KWARGS) kwargs in
      if relevant = [] then ''cache:'' @ prefix
      else ''cache:'' @ prefix @ '':'' @ digest relevant)"

definition uncached :: "('w, 'e, 'a) prog \<Rightarrow> ('w \<times> 'r, 'e, 'a) prog" where
  "uncached func = (\<lambda>(w, r). case func w of (res, w') \<Rightarrow> (res, (w', r)))"

definition cache_response ::
  "('e, 'a) model_json \<Rightarrow> ((string \<times> string) list \<Rightarrow> string) \<Rightarrow> string \<Rightarrow> int \<Rightarrow> ('w, 'e, 'a) prog \<Rightarrow>
     'r redis_client option \<Rightarrow> (string \<times> string) list \<Rightarrow> ('w \<times> 'r, 'e, 'a) prog" where
  "cache_response json digest key_prefix ttl_seconds func client kwargs = (case client of
     None \<Rightarrow> uncached func
   | Some redis \<Rightarrow>
       (let cache_key = build_cache_key digest key_prefix kwargs in
        (\<lambda>(w, r). case redis_get redis cache_key r of
           (Inl _, r1) \<Rightarrow> uncached func (w, r1)
         | (Inr (Some cached), r1) \<Rightarrow> (model_validate_json json cached, (w, r1))
         | (Inr None, r1) \<Rightarrow> (case func w of
             (Inl x, w1) \<Rightarrow> (Inl x, (w1, r1))
           | (Inr result, w1) \<Rightarrow>
               (case redis_set redis cache_key (model_dump_json json result) ttl_seconds r1 of
                  (_, r2) \<Rightarrow> (Inr result, (w1, r2)))))))"

section \<open>The report endpoints\<close>

definition REPORT_CACHE_TTL_SECONDS :: int where
  "REPORT_CACHE_TTL_SECONDS = 60"

text \<open>Both endpoints take only injected arguments.\<close>

definition report_kwargs :: "(string \<times> string) list" where
  "report_kwargs = [(''db'', ''''), (''redis'', '''')]"

definition get_inventory_summary ::
  "'x deps \<Rightarrow> (string \<Rightarrow> string) \<Rightarrow> (exc, inventory_summary_report) model_json \<Rightarrow>
     ((string \<times> string) list \<Rightarrow> string) \<Rightarrow> 'r redis_client \<Rightarrow>
     ('x world \<times> 'r, exc, inventory_summary_report) prog" where
  "get_inventory_summary e collation json digest redis =
     cache_response json digest ''reports:inventory-summary'' REPORT_CACHE_TTL_SECONDS
       (generate_inventory_summary e collation) (Some redis) report_kwargs"

definition get_valuation_report ::
  "'x deps \<Rightarrow> (string \<Rightarrow> string) \<Rightarrow> (exc, inventory_valuation_report) model_json \<Rightarrow>
     ((string \<times> string) list \<Rightarrow> string) \<Rightarrow> 'r redis_client \<Rightarrow>
     ('x world \<times> 'r, exc, inventory_valuation_report) prog" where
  "get_valuation_report e collation json digest redis =
     cache_response json digest ''reports:valuation'' REPORT_CACHE_TTL_SECONDS
       (generate_valuation_report e collation) (Some redis) report_kwargs"

lemma report_keys:
  "build_cache_key digest ''reports:inventory-summary'' report_kwargs = ''cache:reports:inventory-summary''"
  "build_cache_key digest ''reports:valuation'' report_kwargs = ''cache:reports:valuation''"
  by (simp_all add: build_cache_key_def report_kwargs_def EXCLUDED_KWARGS_def)

section \<open>What Redis promises\<close>

text \<open>
  \<open>now\<close> is Redis's clock in seconds, \<open>writes\<close> the SETs it has carried out: key, value, EX and
  the time. GET answers with a value written to the key less than its EX ago; a SET that
  raised may or may not have been carried out. (That it is the latest such value is not
  needed.)
\<close>

definition ttl_store ::
  "'r redis_client \<Rightarrow> ('r \<Rightarrow> int) \<Rightarrow> ('r \<Rightarrow> (string \<times> string \<times> int \<times> int) set) \<Rightarrow> bool" where
  "ttl_store redis now writes \<longleftrightarrow>
     (\<forall>k r res r'. redis_get redis k r = (res, r') \<longrightarrow> now r \<le> now r' \<and> writes r' = writes r \<and>
        (\<forall>v. res = Inr (Some v) \<longrightarrow> (\<exists>ex t. (k, v, ex, t) \<in> writes r \<and> now r' < t + ex))) \<and>
     (\<forall>k v ex r res r'. redis_set redis k v ex r = (res, r') \<longrightarrow> now r \<le> now r' \<and>
        writes r' \<subseteq> insert (k, v, ex, now r') (writes r))"

lemma ttl_store_get:
  "ttl_store redis now writes \<Longrightarrow> redis_get redis k r = (res, r') \<Longrightarrow>
     now r \<le> now r' \<and> writes r' = writes r \<and>
     (\<forall>v. res = Inr (Some v) \<longrightarrow> (\<exists>ex t. (k, v, ex, t) \<in> writes r \<and> now r' < t + ex))"
  unfolding ttl_store_def by blast

lemma ttl_store_set:
  "ttl_store redis now writes \<Longrightarrow> redis_set redis k v ex r = (res, r') \<Longrightarrow>
     now r \<le> now r' \<and> writes r' \<subseteq> insert (k, v, ex, now r') (writes r)"
  unfolding ttl_store_def by blast

text \<open>
  A history of one cached operation: it is called, or something else happens that writes
  nothing to its key. \<open>computed\<close> collects the results of the wrapped function with the time
  each was stored.
\<close>

inductive cached_calls ::
  "('w, 'e, 'a) prog \<Rightarrow> ('w \<times> 'r, 'e, 'a) prog \<Rightarrow> string \<Rightarrow> ('r \<Rightarrow> int) \<Rightarrow>
     ('r \<Rightarrow> (string \<times> string \<times> int \<times> int) set) \<Rightarrow> 'w \<times> 'r \<Rightarrow> (int \<times> 'a) set \<Rightarrow> bool"
  for func endpoint key now writes where
  started: "\<forall>v ex t. (key, v, ex, t) \<notin> writes r \<Longrightarrow> cached_calls func endpoint key now writes (w, r) {}"
| elsewhere: "cached_calls func endpoint key now writes (w, r) computed \<Longrightarrow> now r \<le> now r' \<Longrightarrow>
     \<forall>v ex t. (key, v, ex, t) \<in> writes r' \<longrightarrow> (key, v, ex, t) \<in> writes r \<Longrightarrow>
     cached_calls func endpoint key now writes (w', r') computed"
| called: "cached_calls func endpoint key now writes (w, r) computed \<Longrightarrow>
     endpoint (w, r) = (res, (w', r')) \<Longrightarrow>
     cached_calls func endpoint key now writes (w', r')
       (computed \<union> {(now r', a) | a. \<exists>w1. func w = (Inr a, w1)})"

definition stored_ok ::
  "('e, 'a) model_json \<Rightarrow> string \<Rightarrow> int \<Rightarrow> (string \<times> string \<times> int \<times> int) set \<Rightarrow> (int \<times> 'a) set \<Rightarrow> bool" where
  "stored_ok json key ttl ws computed \<longleftrightarrow>
     (\<forall>v ex t. (key, v, ex, t) \<in> ws \<longrightarrow> ex = ttl \<and> (\<exists>a. (t, a) \<in> computed \<and> v = model_dump_json json a))"

lemma stored_ok_mono: "stored_ok json key ttl ws computed \<Longrightarrow> computed \<subseteq> computed' \<Longrightarrow>
    stored_ok json key ttl ws computed'"
  unfolding stored_ok_def by blast

text \<open>One call, on every branch.\<close>

lemma cache_response_cases:
  assumes run: "cache_response json digest prefix ttl func (Some redis) kwargs (w, r) = (res, (w', r'))"
    and key: "build_cache_key digest prefix kwargs = key"
  obtains (down) x r1 where "redis_get redis key r = (Inl x, r1)" "func w = (res, w')" "r' = r1"
  | (hit) cached where "redis_get redis key r = (Inr (Some cached), r')" "w' = w"
      "res = model_validate_json json cached"
  | (failed) x where "redis_get redis key r = (Inr None, r')" "func w = (Inl x, w')" "res = Inl x"
  | (miss) a r1 st where "redis_get redis key r = (Inr None, r1)" "func w = (Inr a, w')" "res = Inr a"
      "redis_set redis key (model_dump_json json a) ttl r1 = (st, r')"
  using run key
  by (auto simp: cache_response_def uncached_def Let_def split: prod.splits sum.splits option.splits)

lemma cached_calls_stored:
  assumes "cached_calls func endpoint key now writes s computed"
    and "ttl_store redis now writes"
    and "endpoint = cache_response json digest prefix ttl func (Some redis) kwargs"
    and "build_cache_key digest prefix kwargs = key"
  shows "stored_ok json key ttl (writes (snd s)) computed"
  using assms
proof (induction rule: cached_calls.induct)
  case (started r w)
  then show ?case by (simp add: stored_ok_def)
next
  case (elsewhere w r computed r' w')
  then have "stored_ok json key ttl (writes r) computed" by simp
  with elsewhere.hyps(3) show ?case unfolding stored_ok_def snd_conv by blast
next
  case (called w r computed res w' r')
  note ttl = \<open>ttl_store redis now writes\<close>
  have old: "stored_ok json key ttl (writes r) computed" using called by simp
  have run: "cache_response json digest prefix ttl func (Some redis) kwargs (w, r) = (res, (w', r'))"
    using called by simp
  from run called.prems(3) show ?case
  proof (cases rule: cache_response_cases)
    case (miss a r1 st)
    have "writes r' \<subseteq> insert (key, model_dump_json json a, ttl, now r') (writes r)"
      using ttl_store_set [OF ttl miss(4)] ttl_store_get [OF ttl miss(1)] by simp
    with old miss(2) show ?thesis unfolding stored_ok_def snd_conv by blast
  qed (use old ttl_store_get [OF ttl] in \<open>auto intro: stored_ok_mono\<close>)
qed


text \<open>The answer of a call after such a history.\<close>

lemma cached_answer:
  assumes calls: "cached_calls func endpoint key now writes (w, r) computed"
    and ttl: "ttl_store redis now writes"
    and endpoint: "endpoint = cache_response json digest prefix ttl func (Some redis) kwargs"
    and key: "build_cache_key digest prefix kwargs = key"
    and json: "\<And>t b. (t, b) \<in> computed \<Longrightarrow> model_validate_json json (model_dump_json json b) = Inr b"
    and run: "endpoint (w, r) = (res, (w', r'))"
  shows "(\<exists>w1. func w = (res, w1)) \<or> (\<exists>t a. res = Inr a \<and> (t, a) \<in> computed \<and> now r' < t + ttl)"
  using run [unfolded endpoint] key
proof (cases rule: cache_response_cases)
  case (hit cached)
  then obtain ex t where "(key, cached, ex, t) \<in> writes r" "now r' < t + ex"
    using ttl_store_get [OF ttl hit(1)] by blast
  moreover have "stored_ok json key ttl (writes r) computed"
    using cached_calls_stored [OF calls ttl endpoint key] by simp
  ultimately obtain a where "(t, a) \<in> computed" "cached = model_dump_json json a" "now r' < t + ttl"
    unfolding stored_ok_def by blast
  with json hit(3) show ?thesis by auto
qed auto

text \<open>When Redis cannot be read, the endpoint is the function it wraps.\<close>

lemma cache_down:
  assumes "fst (redis_get redis key r) = Inl x"
    and "cache_response json digest prefix ttl func (Some redis) kwargs (w, r) = (res, (w', r'))"
    and "build_cache_key digest prefix kwargs = key"
  shows "res = fst (func w)"
  using assms
  by (auto simp: cache_response_def uncached_def Let_def split: prod.splits sum.splits option.splits)

section \<open>Both endpoints on one Redis\<close>

text \<open>
  A history of the two report endpoints: either is called, or something else happens that
  writes neither key. \<open>cs\<close> and \<open>cv\<close> collect what their services answered.
\<close>

inductive report_calls ::
  "'x deps \<Rightarrow> (string \<Rightarrow> string) \<Rightarrow> (exc, inventory_summary_report) model_json \<Rightarrow>
     (exc, inventory_valuation_report) model_json \<Rightarrow> ((string \<times> string) list \<Rightarrow> string) \<Rightarrow>
     'r redis_client \<Rightarrow> ('r \<Rightarrow> int) \<Rightarrow> ('r \<Rightarrow> (string \<times> string \<times> int \<times> int) set) \<Rightarrow>
     'x world \<times> 'r \<Rightarrow> (int \<times> inventory_summary_report) set \<Rightarrow>
     (int \<times> inventory_valuation_report) set \<Rightarrow> bool"
  for e collation js jv digest redis now writes where
  started: "\<forall>k v ex t. (k, v, ex, t) \<in> writes r \<longrightarrow>
       k \<noteq> ''cache:reports:inventory-summary'' \<and> k \<noteq> ''cache:reports:valuation'' \<Longrightarrow>
     report_calls e collation js jv digest redis now writes (w, r) {} {}"
| elsewhere: "report_calls e collation js jv digest redis now writes (w, r) cs cv \<Longrightarrow> now r \<le> now r' \<Longrightarrow>
     \<forall>k v ex t. (k, v, ex, t) \<in> writes r' - writes r \<longrightarrow>
       k \<noteq> ''cache:reports:inventory-summary'' \<and> k \<noteq> ''cache:reports:valuation'' \<Longrightarrow>
     report_calls e collation js jv digest redis now writes (w', r') cs cv"
| summary: "report_calls e collation js jv digest redis now writes (w, r) cs cv \<Longrightarrow>
     get_inventory_summary e collation js digest redis (w, r) = (res, (w', r')) \<Longrightarrow>
     report_calls e collation js jv digest redis now writes (w', r')
       (cs \<union> {(now r', a) | a. \<exists>w1. generate_inventory_summary e collation w = (Inr a, w1)}) cv"
| valuation: "report_calls e collation js jv digest redis now writes (w, r) cs cv \<Longrightarrow>
     get_valuation_report e collation jv digest redis (w, r) = (res, (w', r')) \<Longrightarrow>
     report_calls e collation js jv digest redis now writes (w', r') cs
       (cv \<union> {(now r', a) | a. \<exists>w1. generate_valuation_report e collation w = (Inr a, w1)})"

text \<open>A call writes to its own key only.\<close>

lemma cache_response_frame:
  assumes ttl: "ttl_store redis now writes"
    and run: "cache_response json digest prefix ttl func (Some redis) kwargs (w, r) = (res, (w', r'))"
    and key: "build_cache_key digest prefix kwargs = key"
  shows "now r \<le> now r' \<and> (\<forall>k v ex t. (k, v, ex, t) \<in> writes r' \<longrightarrow> k = key \<or> (k, v, ex, t) \<in> writes r)"
  using run key
proof (cases rule: cache_response_cases)
  case (miss a r1 st)
  with ttl_store_get [OF ttl miss(1)] ttl_store_set [OF ttl miss(4)] show ?thesis by auto
qed (use ttl_store_get [OF ttl] in \<open>auto dest: ttl_store_get [OF ttl]\<close>)

lemma report_calls_each:
  assumes "report_calls e collation js jv digest redis now writes s cs cv"
    and ttl: "ttl_store redis now writes"
  shows "cached_calls (generate_inventory_summary e collation)
      (get_inventory_summary e collation js digest redis) ''cache:reports:inventory-summary'' now writes s cs"
    and "cached_calls (generate_valuation_report e collation)
      (get_valuation_report e collation jv digest redis) ''cache:reports:valuation'' now writes s cv"
  using assms(1)
proof (induction rule: report_calls.induct)
  case (started r w)
  { case 1
    from started show ?case by (intro cached_calls.started) blast }
  { case 2
    from started show ?case by (intro cached_calls.started) blast }
next
  case (elsewhere w r cs cv r' w')
  { case 1
    show ?case by (rule cached_calls.elsewhere [OF elsewhere.IH(1) elsewhere.hyps(2)]) (use elsewhere.hyps(3) in blast) }
  { case 2
    show ?case by (rule cached_calls.elsewhere [OF elsewhere.IH(2) elsewhere.hyps(2)]) (use elsewhere.hyps(3) in blast) }
next
  case (summary w r cs cv res w' r')
  note frame = cache_response_frame [OF ttl summary.hyps(2) [unfolded get_inventory_summary_def] report_keys(1)]
  { case 1
    show ?case by (rule cached_calls.called [OF summary.IH(1) summary.hyps(2)]) }
  { case 2
    have "\<forall>v ex t. (''cache:reports:valuation'', v, ex, t) \<in> writes r' \<longrightarrow>
        (''cache:reports:valuation'', v, ex, t) \<in> writes r"
      using frame by fastforce
    with frame show ?case by (blast intro: cached_calls.elsewhere [OF summary.IH(2)]) }
next
  case (valuation w r cs cv res w' r')
  note frame = cache_response_frame [OF ttl valuation.hyps(2) [unfolded get_valuation_report_def] report_keys(2)]
  { case 1
    have "\<forall>v ex t. (''cache:reports:inventory-summary'', v, ex, t) \<in> writes r' \<longrightarrow>
        (''cache:reports:inventory-summary'', v, ex, t) \<in> writes r"
      using frame by fastforce
    with frame show ?case by (blast intro: cached_calls.elsewhere [OF valuation.IH(1)]) }
  { case 2
    show ?case by (rule cached_calls.called [OF valuation.IH(2) valuation.hyps(2)]) }
qed

text \<open>The answer of either endpoint after such a history.\<close>

lemma report_answers:
  assumes calls: "report_calls e collation js jv digest redis now writes (w, r) cs cv"
    and ttl: "ttl_store redis now writes"
    and js: "\<forall>(t, b) \<in> cs. model_validate_json js (model_dump_json js b) = Inr b"
    and jv: "\<forall>(t, b) \<in> cv. model_validate_json jv (model_dump_json jv b) = Inr b"
  shows "get_inventory_summary e collation js digest redis (w, r) = (res, (w', r')) \<Longrightarrow>
      res = fst (generate_inventory_summary e collation w) \<or>
      (\<exists>t a. res = Inr a \<and> (t, a) \<in> cs \<and> now r' < t + 60)"
    and "get_valuation_report e collation jv digest redis (w, r) = (res', (w'', r'')) \<Longrightarrow>
      res' = fst (generate_valuation_report e collation w) \<or>
      (\<exists>t a. res' = Inr a \<and> (t, a) \<in> cv \<and> now r'' < t + 60)"
  using cached_answer [OF report_calls_each(1) [OF calls ttl] ttl get_inventory_summary_def report_keys(1), of res w' r']
    cached_answer [OF report_calls_each(2) [OF calls ttl] ttl get_valuation_report_def report_keys(2), of res' w'' r'']
    js jv
  by (fastforce simp: REPORT_CACHE_TTL_SECONDS_def)+

end
