(* ===== verification/FileSystem.thy ===== *)
theory FileSystem
  imports Prelude
begin

text \<open>
  The file system as far as the export task uses it (os.mkdir, pathlib.Path.mkdir with parents
  and exist_ok, open for writing). A path is the list of its names with the innermost first;
  the empty path is the directory paths start from. \<open>may p\<close> says whether the operating system
  lets the process create \<open>p\<close>, and \<open>room p\<close> how many characters it takes into the file \<open>p\<close>
  before a write, or the flush of the close, fails (\<open>None\<close>: as many as are written).

  The lemmas: entries keep forming a tree, what exists is kept, and the directory exists
  afterwards unless a regular file or a refusal is in the way; a file whose writing fails is
  left with what the disk took of it.
\<close>

type_synonym path = "string list"

datatype node = Directory | Regular string

type_synonym files = "path \<rightharpoonup> node"

text \<open>The subclasses of OSError, and the OSError of a full disk, an exceeded quota or a failing device.\<close>

datatype os_error = FileNotFoundError | NotADirectoryError | FileExistsError | IsADirectoryError |
  PermissionError | NoSpaceError

definition is_dir :: "files \<Rightarrow> path \<Rightarrow> bool" where
  "is_dir fs p \<longleftrightarrow> p = [] \<or> fs p = Some Directory"

text \<open>Resolving a directory: the outermost name that is missing or not a directory decides.\<close>

primrec resolve_dir :: "files \<Rightarrow> path \<Rightarrow> os_error option" where
  "resolve_dir fs [] = None"
| "resolve_dir fs (n # q) = (case resolve_dir fs q of
     Some x \<Rightarrow> Some x
   | None \<Rightarrow> (case fs (n # q) of None \<Rightarrow> Some FileNotFoundError
       | Some Directory \<Rightarrow> None | Some (Regular t) \<Rightarrow> Some NotADirectoryError))"

fun os_mkdir :: "(path \<Rightarrow> bool) \<Rightarrow> path \<Rightarrow> (files, os_error, unit) prog" where
  "os_mkdir may [] fs = (Inl FileExistsError, fs)"
| "os_mkdir may (n # q) fs = (case resolve_dir fs q of
     Some x \<Rightarrow> (Inl x, fs)
   | None \<Rightarrow> if fs (n # q) \<noteq> None then (Inl FileExistsError, fs)
       else if \<not> may (n # q) then (Inl PermissionError, fs)
       else (Inr (), fs(n # q \<mapsto> Directory)))"

text \<open>Path.mkdir: without parents, and with them.\<close>

definition mkdir_exist_ok :: "(path \<Rightarrow> bool) \<Rightarrow> path \<Rightarrow> (files, os_error, unit) prog" where
  "mkdir_exist_ok may p fs = (case os_mkdir may p fs of
     (Inr u, fs1) \<Rightarrow> (Inr u, fs1)
   | (Inl x, fs1) \<Rightarrow> if x \<noteq> FileNotFoundError \<and> is_dir fs1 p then (Inr (), fs1) else (Inl x, fs1))"

primrec mkdir_parents :: "(path \<Rightarrow> bool) \<Rightarrow> path \<Rightarrow> (files, os_error, unit) prog" where
  "mkdir_parents may [] fs = mkdir_exist_ok may [] fs"
| "mkdir_parents may (n # q) fs = (case os_mkdir may (n # q) fs of
     (Inr u, fs1) \<Rightarrow> (Inr u, fs1)
   | (Inl x, fs1) \<Rightarrow>
       if x = FileNotFoundError then (case mkdir_parents may q fs1 of
           (Inl y, fs2) \<Rightarrow> (Inl y, fs2)
         | (Inr u, fs2) \<Rightarrow> mkdir_exist_ok may (n # q) fs2)
       else if is_dir fs1 (n # q) then (Inr (), fs1) else (Inl x, fs1))"

text \<open>
  open(path, "w") creates the file or empties it; the writes and the close follow, and the
  with statement closes the file when one of them raises.
\<close>

fun open_for_writing :: "(path \<Rightarrow> bool) \<Rightarrow> path \<Rightarrow> (files, os_error, unit) prog" where
  "open_for_writing may [] fs = (Inl IsADirectoryError, fs)"
| "open_for_writing may (n # q) fs = (case resolve_dir fs q of
     Some x \<Rightarrow> (Inl x, fs)
   | None \<Rightarrow> if fs (n # q) = Some Directory then (Inl IsADirectoryError, fs)
       else if \<not> may (n # q) then (Inl PermissionError, fs)
       else (Inr (), fs(n # q \<mapsto> Regular [])))"

definition write_and_close :: "(path \<Rightarrow> nat option) \<Rightarrow> path \<Rightarrow> string \<Rightarrow> (files, os_error, unit) prog" where
  "write_and_close room p text fs = (case room p of
     Some k \<Rightarrow> if k < length text then (Inl NoSpaceError, fs(p \<mapsto> Regular (take k text)))
       else (Inr (), fs(p \<mapsto> Regular text))
   | None \<Rightarrow> (Inr (), fs(p \<mapsto> Regular text)))"

definition write_text ::
  "(path \<Rightarrow> bool) \<Rightarrow> (path \<Rightarrow> nat option) \<Rightarrow> path \<Rightarrow> string \<Rightarrow> (files, os_error, unit) prog" where
  "write_text may room p text = andthen (open_for_writing may p) (\<lambda>_. write_and_close room p text)"

section \<open>The entries form a tree\<close>

definition tree_ok :: "files \<Rightarrow> bool" where
  "tree_ok fs \<longleftrightarrow> (\<forall>n q. fs (n # q) \<noteq> None \<longrightarrow> is_dir fs q)"

lemma tree_okD: "tree_ok fs \<Longrightarrow> fs (n # q) = Some x \<Longrightarrow> is_dir fs q"
  unfolding tree_ok_def by blast

lemma is_dir_resolves: "tree_ok fs \<Longrightarrow> resolve_dir fs p = None \<longleftrightarrow> is_dir fs p"
proof (induction p)
  case (Cons n q)
  then show ?case
    by (auto simp: is_dir_def tree_ok_def split: option.splits node.splits)
qed (simp add: is_dir_def)

lemma tree_ok_add:
  assumes "tree_ok fs" and "is_dir fs q" and "node = Directory \<or> fs (n # q) \<noteq> Some Directory"
  shows "tree_ok (fs(n # q \<mapsto> node))"
  unfolding tree_ok_def
proof (intro allI impI)
  fix m r assume r: "(fs(n # q \<mapsto> node)) (m # r) \<noteq> None"
  show "is_dir (fs(n # q \<mapsto> node)) r"
  proof (cases "m # r = n # q")
    case True
    with assms(2) show ?thesis by (simp add: is_dir_def)
  next
    case False
    with r have "fs (m # r) \<noteq> None" by (simp only: fun_upd_apply if_False simp_thms)
    with assms(1) have "is_dir fs r" unfolding tree_ok_def by blast
    with assms(3) show ?thesis by (auto simp: is_dir_def)
  qed
qed

text \<open>What making a directory leaves: everything that was there, beside it and its parents.\<close>

definition adds_dirs :: "path \<Rightarrow> files \<Rightarrow> files \<Rightarrow> bool" where
  "adds_dirs dir fs fs' \<longleftrightarrow>
     (\<forall>p. fs' p = fs p \<or> fs p = None \<and> fs' p = Some Directory \<and> (\<exists>r. dir = r @ p))"

lemma adds_dirs_refl [simp]: "adds_dirs dir fs fs"
  by (simp add: adds_dirs_def)

lemma adds_dirs_trans:
  assumes "adds_dirs q a b" and "adds_dirs (n # q) b c"
  shows "adds_dirs (n # q) a c"
  unfolding adds_dirs_def
proof
  fix p
  from assms(1) have b: "b p = a p \<or> a p = None \<and> b p = Some Directory \<and> (\<exists>r. q = r @ p)"
    by (simp add: adds_dirs_def)
  from assms(2) have c: "c p = b p \<or> b p = None \<and> c p = Some Directory \<and> (\<exists>r. n # q = r @ p)"
    by (simp add: adds_dirs_def)
  have "\<exists>r. n # q = r @ p" if "\<exists>r. q = r @ p"
    using that by (metis append_Cons)
  with b c show "c p = a p \<or> a p = None \<and> c p = Some Directory \<and> (\<exists>r. n # q = r @ p)" by auto
qed

text \<open>The outcome of an operation that should make \<open>p\<close> a directory.\<close>

definition made_dir :: "path \<Rightarrow> files \<Rightarrow> (os_error + unit) \<times> files \<Rightarrow> bool" where
  "made_dir p fs = (\<lambda>(res, fs'). tree_ok fs' \<and> adds_dirs p fs fs' \<and>
     (case res of Inr u \<Rightarrow> is_dir fs' p | Inl x \<Rightarrow> True))"

lemma made_dirD:
  assumes "made_dir p fs y" and "y = (res, fs')"
  shows "tree_ok fs'" and "adds_dirs p fs fs'" and "res = Inr () \<Longrightarrow> is_dir fs' p"
  using assms by (simp_all add: made_dir_def)

lemma os_mkdir_made: "tree_ok fs \<Longrightarrow> made_dir p fs (os_mkdir may p fs)"
proof (cases p)
  case (Cons n q)
  assume ok: "tree_ok fs"
  show ?thesis
  proof (cases "resolve_dir fs q = None \<and> fs (n # q) = None \<and> may (n # q)")
    case True
    then have "tree_ok (fs(n # q \<mapsto> Directory))" using ok tree_ok_add is_dir_resolves by blast
    with True Cons show ?thesis by (auto simp: made_dir_def adds_dirs_def is_dir_def)
  next
    case False
    with ok Cons show ?thesis by (auto simp: made_dir_def split: option.splits)
  qed
qed (simp add: made_dir_def)

lemma mkdir_exist_ok_made:
  assumes "tree_ok fs"
  shows "made_dir p fs (mkdir_exist_ok may p fs)"
  using os_mkdir_made [OF assms, of p may] unfolding mkdir_exist_ok_def made_dir_def
  by (auto split: prod.splits sum.splits)

lemma os_mkdir_not_found: "fst (os_mkdir may p fs) = Inl x \<Longrightarrow> snd (os_mkdir may p fs) = fs"
  by (cases p) (auto split: option.splits if_splits)

lemma mkdir_parents_step:
  "mkdir_parents may (n # q) fs =
     (if fst (os_mkdir may (n # q) fs) = Inl FileNotFoundError then
        (case mkdir_parents may q fs of (Inl y, fs2) \<Rightarrow> (Inl y, fs2)
         | (Inr u, fs2) \<Rightarrow> mkdir_exist_ok may (n # q) fs2)
      else mkdir_exist_ok may (n # q) fs)"
  using os_mkdir_not_found [of may "n # q" fs]
  by (cases "os_mkdir may (n # q) fs")
    (auto simp: mkdir_exist_ok_def simp del: os_mkdir.simps split: sum.splits)

declare mkdir_parents.simps(2) [simp del]

lemma mkdir_parents_made: "tree_ok fs \<Longrightarrow> made_dir p fs (mkdir_parents may p fs)"
proof (induction p arbitrary: fs)
  case Nil
  then show ?case by (simp add: mkdir_exist_ok_made)
next
  case (Cons n q)
  obtain r fs2 where p: "mkdir_parents may q fs = (r, fs2)" by fastforce
  note q = made_dirD(1,2) [OF Cons.IH [OF Cons.prems] p]
  have "adds_dirs (n # q) fs fs2" using adds_dirs_trans [OF q(2) adds_dirs_refl] .
  moreover have "made_dir (n # q) fs (mkdir_exist_ok may (n # q) fs2)"
    using mkdir_exist_ok_made [OF q(1), of "n # q" may] adds_dirs_trans [OF q(2)]
    by (auto simp: made_dir_def split: prod.splits)
  ultimately show ?case
    using p q mkdir_exist_ok_made [OF Cons.prems, of "n # q" may]
    unfolding mkdir_parents_step by (auto simp: made_dir_def split: sum.splits)
qed

section \<open>When a directory can be made\<close>

text \<open>Every name on the way is a directory, or is missing and may be created.\<close>

primrec clear_way :: "(path \<Rightarrow> bool) \<Rightarrow> files \<Rightarrow> path \<Rightarrow> bool" where
  "clear_way may fs [] \<longleftrightarrow> True"
| "clear_way may fs (n # q) \<longleftrightarrow> (is_dir fs (n # q) \<or> fs (n # q) = None \<and> may (n # q)) \<and> clear_way may fs q"

lemma is_dir_clear: "tree_ok fs \<Longrightarrow> is_dir fs p \<Longrightarrow> clear_way may fs p"
  by (induction p) (auto simp: tree_ok_def is_dir_def)

lemma adds_dirs_beyond: "adds_dirs q fs fs' \<Longrightarrow> fs' (n # q) = fs (n # q)"
proof -
  have "\<not> (\<exists>r. q = r @ n # q)" by (auto dest: arg_cong [where f = length])
  then show "adds_dirs q fs fs' \<Longrightarrow> fs' (n # q) = fs (n # q)" unfolding adds_dirs_def by blast
qed

lemma resolve_dir_errors:
  "resolve_dir fs p = Some x \<Longrightarrow> x = FileNotFoundError \<or> x = NotADirectoryError"
  by (induction p) (auto split: option.splits node.splits)

lemma blocked_way: "resolve_dir fs p = Some NotADirectoryError \<Longrightarrow> \<not> clear_way may fs p"
  by (induction p) (auto simp: is_dir_def split: option.splits node.splits)

text \<open>One level, when its parent is a directory.\<close>

lemma mkdir_exist_ok_iff:
  assumes "tree_ok fs" and "is_dir fs q"
  shows "fst (mkdir_exist_ok may (n # q) fs) = Inr () \<longleftrightarrow>
    is_dir fs (n # q) \<or> fs (n # q) = None \<and> may (n # q)"
    and "fst (os_mkdir may (n # q) fs) \<noteq> Inl FileNotFoundError"
proof -
  have "resolve_dir fs q = None" using assms is_dir_resolves by blast
  then show "fst (mkdir_exist_ok may (n # q) fs) = Inr () \<longleftrightarrow>
      is_dir fs (n # q) \<or> fs (n # q) = None \<and> may (n # q)"
    and "fst (os_mkdir may (n # q) fs) \<noteq> Inl FileNotFoundError"
    by (auto simp: mkdir_exist_ok_def is_dir_def)
qed

lemma mkdir_parents_iff: "tree_ok fs \<Longrightarrow> fst (mkdir_parents may p fs) = Inr () \<longleftrightarrow> clear_way may fs p"
proof (induction p arbitrary: fs)
  case Nil
  then show ?case by (simp add: mkdir_exist_ok_def is_dir_def)
next
  case (Cons n q)
  note tree = Cons.prems
  show ?case
  proof (cases "resolve_dir fs q")
    case None
    then have dir: "is_dir fs q" using is_dir_resolves tree by blast
    then show ?thesis
      using mkdir_exist_ok_iff [OF tree dir, where may = may and n = n] is_dir_clear [OF tree dir, of may]
      by (simp add: mkdir_parents_step del: os_mkdir.simps)
  next
    case (Some x)
    then have "\<not> is_dir fs q" using is_dir_resolves [OF tree] by (metis option.distinct(1))
    then have none: "fs (n # q) = None" "\<not> is_dir fs (n # q)"
      using tree_okD [OF tree, of n q] by (cases "fs (n # q)"; auto simp: is_dir_def)+
    obtain r fs2 where p: "mkdir_parents may q fs = (r, fs2)" by fastforce
    note made = made_dirD [OF mkdir_parents_made [OF tree] p]
    have "fs2 (n # q) = None" using adds_dirs_beyond [OF made(2)] none(1) by simp
    moreover have "r = Inr () \<longleftrightarrow> clear_way may fs q" using Cons.IH [OF tree] p by simp
    moreover have "x = NotADirectoryError \<Longrightarrow> \<not> clear_way may fs q" using blocked_way Some by blast
    ultimately show ?thesis
      using Some none p made resolve_dir_errors [OF Some] mkdir_exist_ok_iff(1) [OF made(1), where may = may and n = n and q = q]
      by (cases r) (auto simp: mkdir_parents_step mkdir_exist_ok_def is_dir_def)
  qed
qed

section \<open>Writing a new file\<close>

lemma open_for_writing_cases:
  "open_for_writing may p fs = (Inl x, fs') \<Longrightarrow> fs' = fs \<and> x \<noteq> NoSpaceError"
  "open_for_writing may p fs = (Inr u, fs') \<Longrightarrow> fs' = fs(p \<mapsto> Regular []) \<and> fs p \<noteq> Some Directory"
  by (cases p; auto split: option.splits if_splits dest: resolve_dir_errors)+

text \<open>The file is written, or it could not be opened, or it is left with a part of the text.\<close>

lemma write_text_cases:
  assumes "tree_ok fs" and "is_dir fs q" and "write_text may room (n # q) text fs = (res, fs')"
  obtains (written_out) "res = Inr ()" "fs' = fs(n # q \<mapsto> Regular text)" "tree_ok fs'"
  | (not_opened) x where "res = Inl x" "x \<noteq> NoSpaceError" "fs' = fs" "tree_ok fs'"
  | (cut_short) k where "res = Inl NoSpaceError" "k < length text" "fs' = fs(n # q \<mapsto> Regular (take k text))"
      "tree_ok fs'"
proof (cases "open_for_writing may (n # q) fs")
  case (Pair r fs1)
  show thesis
  proof (cases r)
    case (Inl x)
    with Pair assms(3) have "res = Inl x" "fs' = fs1" by (simp_all add: write_text_def)
    with Inl Pair open_for_writing_cases(1) assms(1) show thesis by (metis not_opened)
  next
    case (Inr u)
    with Pair have 1: "fs1 = fs(n # q \<mapsto> Regular [])" "fs (n # q) \<noteq> Some Directory"
      using open_for_writing_cases(2) by blast+
    have tree: "tree_ok (fs(n # q \<mapsto> Regular t))" for t
      using tree_ok_add [OF assms(1,2)] 1(2) by blast
    from Pair Inr assms(3) have w: "write_and_close room (n # q) text fs1 = (res, fs')"
      by (simp add: write_text_def)
    show thesis
    proof (cases "\<exists>k. room (n # q) = Some k \<and> k < length text")
      case True
      then obtain k where k: "room (n # q) = Some k" "k < length text" by blast
      show thesis
        by (rule cut_short [of k]) (use w k 1(1) tree in \<open>auto simp: write_and_close_def\<close>)
    next
      case False
      with w 1(1) have "res = Inr ()" "fs' = fs(n # q \<mapsto> Regular text)"
        by (auto simp: write_and_close_def split: option.splits if_splits)
      with tree show thesis by (auto intro: written_out)
    qed
  qed
qed

lemma write_text_succeeds:
  assumes "tree_ok fs" and "is_dir fs q" and "fs (n # q) \<noteq> Some Directory" and "may (n # q)"
    and "case room (n # q) of None \<Rightarrow> True | Some k \<Rightarrow> length text \<le> k"
  shows "fst (write_text may room (n # q) text fs) = Inr ()"
proof -
  have "resolve_dir fs q = None" using assms(1,2) is_dir_resolves by blast
  with assms(3-5) show ?thesis
    by (auto simp: write_text_def andthen_def write_and_close_def split: option.splits)
qed

end
