(* ===== verification/CsvReports.thy ===== *)
theory CsvReports
  imports Reports FileSystem
begin

text \<open>
  The CSV export task (app/tasks/reports.py): a report is computed in a session of its own
  and written by csv.writer, in the excel dialect it defaults to, to a new file whose name
  ends in a random UUID, in a directory that is made when it is missing. \<open>csv_read\<close> is RFC
  4180 read as a function; the lemmas say that it gets back the rows that were written,
  whatever their text, and what a failing export leaves: directories, or, when the disk fills
  up, a file with the beginning of the text.
\<close>

section \<open>csv.writer\<close>

definition comma :: char where "comma = CHR '',''"
definition quote :: char where "quote = CHR 0x22"
definition CR :: char where "CR = CHR 0x0D"
definition LF :: char where "LF = CHR 0x0A"

lemmas csv_chars = comma_def quote_def CR_def LF_def

text \<open>QUOTE_MINIMAL with doublequote.\<close>

definition needs_quotes :: "string \<Rightarrow> bool" where
  "needs_quotes f \<longleftrightarrow> comma \<in> set f \<or> quote \<in> set f \<or> CR \<in> set f \<or> LF \<in> set f"

definition doubled :: "string \<Rightarrow> string" where
  "doubled f = concat (map (\<lambda>c. if c = quote then [quote, quote] else [c]) f)"

definition csv_field :: "string \<Rightarrow> string" where
  "csv_field f = (if needs_quotes f then quote # doubled f @ [quote] else f)"

text \<open>A row with more than one field (a lone empty field would be quoted as well).\<close>

fun csv_fields :: "string list \<Rightarrow> string" where
  "csv_fields [] = []"
| "csv_fields [f] = csv_field f"
| "csv_fields (f # g # fs) = csv_field f @ comma # csv_fields (g # fs)"

definition writerow :: "string list \<Rightarrow> string" where
  "writerow fs = csv_fields fs @ [CR, LF]"

section \<open>The task\<close>

datatype report_kind = INVENTORY_SUMMARY | VALUATION

primrec kind_value :: "report_kind \<Rightarrow> string" where
  "kind_value INVENTORY_SUMMARY = ''inventory_summary''"
| "kind_value VALUATION = ''valuation''"

text \<open>\<open>ReportKind(text)\<close>; None is its ValueError.\<close>

definition ReportKind :: "string \<Rightarrow> report_kind option" where
  "ReportKind s = (if s = ''inventory_summary'' then Some INVENTORY_SUMMARY
     else if s = ''valuation'' then Some VALUATION else None)"

text \<open>The rows of the two files. \<open>decimal_str\<close> prints an amount given in hundredths.\<close>

definition inventory_summary_rows :: "inventory_summary_report \<Rightarrow> string list list" where
  "inventory_summary_rows report =
     [''warehouse_id'', ''warehouse_name'', ''distinct_products'', ''total_quantity'',
      ''low_stock_count'', ''out_of_stock_count''] #
     map (\<lambda>row. [uuid_str (ss_warehouse_id row), ss_warehouse_name row,
       int_str (ss_distinct_products row), int_str (ss_total_quantity row),
       int_str (ss_low_stock_count row), int_str (ss_out_of_stock_count row)]) (sr_by_warehouse report)"

definition valuation_rows :: "(int \<Rightarrow> string) \<Rightarrow> inventory_valuation_report \<Rightarrow> string list list" where
  "valuation_rows decimal_str report =
     [''warehouse_id'', ''warehouse_name'', ''total_value''] #
     map (\<lambda>row. [uuid_str (wv_warehouse_id row), wv_warehouse_name row,
       decimal_str (wv_total_value row)]) (vr_by_warehouse report)"

text \<open>
  The task's state is the world with the file system; it raises what the report raises or an
  OSError.
\<close>

datatype export_error = ServiceError exc | FileError os_error

type_synonym ('x, 'a) export = "('x world \<times> files, export_error, 'a) prog"

definition on_world :: "('x, 'a) service \<Rightarrow> ('x, 'a) export" where
  "on_world f = (\<lambda>(w, fs). case f w of (res, w') \<Rightarrow> (map_sum ServiceError id res, (w', fs)))"

definition on_files :: "(files, os_error, 'a) prog \<Rightarrow> ('x, 'a) export" where
  "on_files f = (\<lambda>(w, fs). case f fs of (res, fs') \<Rightarrow> (map_sum FileError id res, (w, fs')))"

text \<open>\<open>dir\<close> is the Path of the setting reports_storage_dir, \<open>may\<close> and \<open>room\<close> as in FileSystem.\<close>

definition reports_dir :: "(path \<Rightarrow> bool) \<Rightarrow> path \<Rightarrow> (files, os_error, path) prog" where
  "reports_dir may dir = andthen (mkdir_parents may dir) (\<lambda>_. ret dir)"

definition csv_name :: "string \<Rightarrow> uuid \<Rightarrow> string" where
  "csv_name prefix u = prefix @ ''_'' @ hex_digits 32 (unat u) @ ''.csv''"

text \<open>What both functions do: the directory, then the name, then the file.\<close>

definition write_csv ::
  "'x deps \<Rightarrow> (path \<Rightarrow> bool) \<Rightarrow> (path \<Rightarrow> nat option) \<Rightarrow> path \<Rightarrow> string \<Rightarrow> string list list \<Rightarrow> ('x, path) export" where
  "write_csv e may room dir prefix recs =
     andthen (on_files (reports_dir may dir)) (\<lambda>directory.
     andthen (on_world (draw_uuid e)) (\<lambda>u.
     andthen (on_files (write_text may room (csv_name prefix u # directory) (concat (map writerow recs)))) (\<lambda>_.
       ret (csv_name prefix u # directory))))"

definition write_inventory_summary_csv ::
  "'x deps \<Rightarrow> (path \<Rightarrow> bool) \<Rightarrow> (path \<Rightarrow> nat option) \<Rightarrow> path \<Rightarrow> inventory_summary_report \<Rightarrow> ('x, path) export" where
  "write_inventory_summary_csv e may room dir report =
     write_csv e may room dir ''inventory_summary'' (inventory_summary_rows report)"

definition write_valuation_csv ::
  "'x deps \<Rightarrow> (int \<Rightarrow> string) \<Rightarrow> (path \<Rightarrow> bool) \<Rightarrow> (path \<Rightarrow> nat option) \<Rightarrow> path \<Rightarrow> inventory_valuation_report \<Rightarrow> ('x, path) export" where
  "write_valuation_csv e decimal_str may room dir report =
     write_csv e may room dir ''valuation'' (valuation_rows decimal_str report)"

text \<open>str of a Path.\<close>

fun path_str :: "path \<Rightarrow> string" where
  "path_str [] = ''.''"
| "path_str [n] = n"
| "path_str (n # m # q) = path_str (m # q) @ ''/'' @ n"

definition in_task_session :: "'x deps \<Rightarrow> ('x, 'a) export \<Rightarrow> ('x, 'a) export" where
  "in_task_session e f = (\<lambda>(w, fs). case f (begin_session e w, fs) of
     (r, (w', fs')) \<Rightarrow> (r, (close_session w', fs')))"

definition generate_report_csv_async ::
  "'x deps \<Rightarrow> (string \<Rightarrow> string) \<Rightarrow> (int \<Rightarrow> string) \<Rightarrow> (path \<Rightarrow> bool) \<Rightarrow> (path \<Rightarrow> nat option) \<Rightarrow> path \<Rightarrow> report_kind \<Rightarrow>
     ('x, string \<times> string) export" where
  "generate_report_csv_async e collation decimal_str may room dir kind =
     andthen (in_task_session e (case kind of
          INVENTORY_SUMMARY \<Rightarrow> andthen (on_world (generate_inventory_summary e collation))
            (write_inventory_summary_csv e may room dir)
        | VALUATION \<Rightarrow> andthen (on_world (generate_valuation_report e collation))
            (write_valuation_csv e decimal_str may room dir)))
       (\<lambda>p. ret (kind_value kind, path_str p))"

definition generate_report_csv ::
  "'x deps \<Rightarrow> (string \<Rightarrow> string) \<Rightarrow> (int \<Rightarrow> string) \<Rightarrow> (path \<Rightarrow> bool) \<Rightarrow> (path \<Rightarrow> nat option) \<Rightarrow> path \<Rightarrow> string \<Rightarrow>
     ('x, string \<times> string) export option" where
  "generate_report_csv e collation decimal_str may room dir text =
     map_option (generate_report_csv_async e collation decimal_str may room dir) (ReportKind text)"

section \<open>Reading it back\<close>

text \<open>
  The reader's state: inside a quoted field or not, the field so far, the row so far and the
  rows before it. After a quote inside a quoted field either another quote follows (one
  quote of text) or the field ends.
\<close>

fun csv_scan :: "bool \<Rightarrow> string \<Rightarrow> string list \<Rightarrow> string list list \<Rightarrow> string \<Rightarrow> string list list" where
  "csv_scan q f r rs [] = rs"
| "csv_scan True f r rs (c # cs) =
     (if c = quote then
        (case cs of
           d # ds \<Rightarrow> if d = quote then csv_scan True (f @ [quote]) r rs ds else csv_scan False f r rs cs
         | [] \<Rightarrow> rs)
      else csv_scan True (f @ [c]) r rs cs)"
| "csv_scan False f r rs (c # cs) =
     (if c = quote then csv_scan True f r rs cs
      else if c = comma then csv_scan False [] (r @ [f]) rs cs
      else if c = CR \<and> take 1 cs = [LF] then csv_scan False [] [] (rs @ [r @ [f]]) (drop 1 cs)
      else csv_scan False (f @ [c]) r rs cs)"

definition csv_read :: "string \<Rightarrow> string list list" where
  "csv_read text = csv_scan False [] [] [] text"

lemma scan_quoted:
  "cs = [] \<or> hd cs \<noteq> quote \<Longrightarrow>
     csv_scan True f r rs (doubled g @ quote # cs) = csv_scan False (f @ g) r rs cs"
proof (induction g arbitrary: f)
  case Nil
  then show ?case by (cases cs) (simp_all add: doubled_def)
next
  case (Cons c g)
  then show ?case by (simp add: doubled_def)
qed

lemma scan_plain:
  "comma \<notin> set g \<Longrightarrow> quote \<notin> set g \<Longrightarrow> CR \<notin> set g \<Longrightarrow>
     csv_scan False f r rs (g @ cs) = csv_scan False (f @ g) r rs cs"
  by (induction g arbitrary: f) auto

lemma scan_field:
  assumes "cs = [] \<or> hd cs \<noteq> quote"
  shows "csv_scan False [] r rs (csv_field f @ cs) = csv_scan False f r rs cs"
proof (cases "needs_quotes f")
  case True
  then show ?thesis using scan_quoted [OF assms, of "[]" r rs f] by (simp add: csv_field_def)
next
  case False
  then show ?thesis using scan_plain [of f "[]" r rs cs] by (simp add: csv_field_def needs_quotes_def)
qed

lemma scan_row: "fs \<noteq> [] \<Longrightarrow>
    csv_scan False [] r rs (writerow fs @ cs) = csv_scan False [] [] (rs @ [r @ fs]) cs"
proof (induction fs arbitrary: r rule: csv_fields.induct)
  case (2 f)
  then show ?case by (simp add: writerow_def scan_field csv_chars)
next
  case (3 f g fs)
  have "csv_scan False [] r rs (writerow (f # g # fs) @ cs) =
      csv_scan False [] (r @ [f]) rs (writerow (g # fs) @ cs)"
    by (simp add: writerow_def scan_field csv_chars)
  with 3 show ?case by simp
qed simp

lemma scan_recs: "[] \<notin> set recs \<Longrightarrow>
    csv_scan False [] [] rs (concat (map writerow recs)) = rs @ recs"
proof (induction recs arbitrary: rs)
  case (Cons fs recs)
  then have "fs \<noteq> []" "[] \<notin> set recs" by auto
  with Cons.IH scan_row [of fs "[]" rs "concat (map writerow recs)"] show ?case by simp
qed simp

lemma csv_read_written: "[] \<notin> set recs \<Longrightarrow> csv_read (concat (map writerow recs)) = recs"
  by (simp add: csv_read_def scan_recs)

lemma rows_not_empty [simp]:
  "[] \<notin> set (inventory_summary_rows report)" "[] \<notin> set (valuation_rows decimal_str report')"
  by (auto simp: inventory_summary_rows_def valuation_rows_def)

lemma no_commit_grouped [no_commit_rules]: "no_commit (grouped_by_warehouse e collation g)"
  by (rule no_commitI) (auto simp: grouped_by_warehouse_def)

lemma no_commit_reports [no_commit_rules]:
  "no_commit (generate_inventory_summary e collation)"
  "no_commit (generate_valuation_report e collation)"
  unfolding generate_inventory_summary_def generate_valuation_report_def
  by (intro no_commit_rules)+

section \<open>What an export leaves\<close>

text \<open>\<open>exported text fs p fs'\<close>: directories were made on the way to \<open>p\<close>, then \<open>p\<close> written.\<close>

definition exported :: "string \<Rightarrow> files \<Rightarrow> path \<Rightarrow> files \<Rightarrow> bool" where
  "exported text fs p fs' \<longleftrightarrow> (\<exists>n dir fs1. p = n # dir \<and> adds_dirs dir fs fs1 \<and> is_dir fs1 dir \<and>
     fs' = fs1(p \<mapsto> Regular text))"

lemma exported_reads: "exported text fs p fs' \<Longrightarrow> fs' p = Some (Regular text)"
  by (auto simp: exported_def)

lemma exported_frame: "exported text fs p fs' \<Longrightarrow> q \<noteq> p \<Longrightarrow> fs q \<noteq> None \<Longrightarrow> fs' q = fs q"
  unfolding exported_def adds_dirs_def by (metis fun_upd_other)

lemma reports_dir_cases:
  assumes "tree_ok fs" and "reports_dir may dir fs = (res, fs1)"
  shows "tree_ok fs1" "adds_dirs dir fs fs1" "(res = Inr dir \<and> is_dir fs1 dir) \<or> (\<exists>x. res = Inl x)"
    "(\<exists>x. res = Inl x) \<longleftrightarrow> \<not> clear_way may fs dir"
proof -
  obtain r where m: "mkdir_parents may dir fs = (r, fs1)" "res = map_sum id (\<lambda>_. dir) r"
    using assms(2) by (auto simp: reports_dir_def andthen_def split: prod.splits sum.splits)
  note made = made_dirD [OF mkdir_parents_made [OF assms(1)] m(1)]
  then show "tree_ok fs1" "adds_dirs dir fs fs1"
    and "(res = Inr dir \<and> is_dir fs1 dir) \<or> (\<exists>x. res = Inl x)" by (cases r; simp add: m(2))+
  show "(\<exists>x. res = Inl x) \<longleftrightarrow> \<not> clear_way may fs dir"
    using mkdir_parents_iff [OF assms(1), of may dir] m by (cases r) auto
qed

text \<open>
  \<open>left_by_failure text prefix dir y fs fs'\<close>: what an export that failed with \<open>y\<close> leaves.
\<close>

definition left_by_failure ::
  "string \<Rightarrow> string \<Rightarrow> path \<Rightarrow> os_error \<Rightarrow> files \<Rightarrow> files \<Rightarrow> bool" where
  "left_by_failure text prefix dir y fs fs' \<longleftrightarrow>
     (if y = NoSpaceError then \<exists>u k. k < length text \<and> exported (take k text) fs (csv_name prefix u # dir) fs'
      else adds_dirs dir fs fs')"

lemma os_mkdir_space: "fst (os_mkdir may p fs) \<noteq> Inl NoSpaceError"
  by (cases p) (auto split: option.splits dest: resolve_dir_errors)

lemma mkdir_space: "fst (mkdir_exist_ok may p fs) \<noteq> Inl NoSpaceError" "fst (mkdir_parents may p fs) \<noteq> Inl NoSpaceError"
proof -
  show 1: "fst (mkdir_exist_ok may p fs) \<noteq> Inl NoSpaceError" for p fs
    using os_mkdir_space [of may p fs] by (auto simp: mkdir_exist_ok_def split: prod.splits sum.splits)
  show "fst (mkdir_parents may p fs) \<noteq> Inl NoSpaceError"
  proof (induction p arbitrary: fs)
    case (Cons n q)
    from Cons.IH [of fs] show ?case
      by (auto simp: mkdir_parents_step 1 split: prod.splits sum.splits)
  qed (simp add: 1)
qed

lemma reports_dir_space: "reports_dir may dir fs = (Inl x, fs1) \<Longrightarrow> x \<noteq> NoSpaceError"
  using mkdir_space(2) [of may dir fs] by (auto simp: reports_dir_def andthen_def ret_def split: prod.splits sum.splits)

lemma write_csv_cases:
  assumes "tree_ok fs" and "write_csv e may room dir prefix recs (w, fs) = (res, (w', fs'))"
  shows "committed w' = committed w \<and> tree_ok fs' \<and> (case res of
     Inr p \<Rightarrow> (\<exists>u. p = csv_name prefix u # dir) \<and> exported (concat (map writerow recs)) fs p fs'
   | Inl x \<Rightarrow> (\<exists>y. x = FileError y \<and> left_by_failure (concat (map writerow recs)) prefix dir y fs fs'))"
proof -
  obtain r fs1 where m: "reports_dir may dir fs = (r, fs1)" by fastforce
  note made = reports_dir_cases(1-3) [OF assms(1) m]
  show ?thesis
  proof (cases r)
    case (Inl x)
    with m have "x \<noteq> NoSpaceError" using reports_dir_space by blast
    with assms(2) m made Inl show ?thesis
      by (auto simp: write_csv_def andthen_def on_files_def left_by_failure_def)
  next
    case (Inr d)
    let ?u = "uuid4 e (tick w)"
    let ?n = "csv_name prefix ?u"
    let ?text = "concat (map writerow recs)"
    obtain r2 fs2 where t: "write_text may room (?n # dir) ?text fs1 = (r2, fs2)" by fastforce
    from Inr made have dir: "is_dir fs1 dir" "d = dir" by auto
    have res: "res = map_sum FileError (\<lambda>_. ?n # dir) r2" "fs' = fs2" "committed w' = committed w"
      using assms(2) m Inr dir t by (cases r2; auto simp: write_csv_def andthen_def on_files_def on_world_def ret_def)+
    have out: "exported s fs (?n # dir) (fs1(?n # dir \<mapsto> Regular s))" for s
      using made(2) dir(1) by (auto simp: exported_def)
    show ?thesis
    proof (rule write_text_cases [OF made(1) dir(1) t])
      assume "r2 = Inr ()" "fs2 = fs1(?n # dir \<mapsto> Regular ?text)" "tree_ok fs2"
      with res out show ?thesis by auto
    next
      fix x assume "r2 = Inl x" "x \<noteq> NoSpaceError" "fs2 = fs1" "tree_ok fs2"
      with res made show ?thesis by (simp add: left_by_failure_def)
    next
      fix k assume "r2 = Inl NoSpaceError" "k < length ?text"
        "fs2 = fs1(?n # dir \<mapsto> Regular (take k ?text))" "tree_ok fs2"
      with res out [of "take k ?text"] show ?thesis by (simp add: left_by_failure_def) blast
    qed
  qed
qed

text \<open>An export succeeds unless something is in the way of its directory or of its file.\<close>

definition room_for :: "(path \<Rightarrow> bool) \<Rightarrow> (path \<Rightarrow> nat option) \<Rightarrow> path \<Rightarrow> files \<Rightarrow> bool" where
  "room_for may room dir fs \<longleftrightarrow> clear_way may fs dir \<and>
     (\<forall>n. fs (n # dir) \<noteq> Some Directory \<and> may (n # dir) \<and> room (n # dir) = None)"

lemma write_csv_succeeds:
  assumes "tree_ok fs" and "room_for may room dir fs"
  shows "\<exists>p. fst (write_csv e may room dir prefix recs (w, fs)) = Inr p"
proof -
  obtain r fs1 where m: "reports_dir may dir fs = (r, fs1)" by fastforce
  note made = reports_dir_cases [OF assms(1) m]
  with assms(2) have dir: "r = Inr dir" "is_dir fs1 dir" by (auto simp: room_for_def)
  let ?n = "csv_name prefix (uuid4 e (tick w))"
  have "fs1 (?n # dir) = fs (?n # dir)" using adds_dirs_beyond made(2) by blast
  then have "fst (write_text may room (?n # dir) (concat (map writerow recs)) fs1) = Inr ()"
    using write_text_succeeds [OF made(1) dir(2)] assms(2) by (simp add: room_for_def)
  with m dir show ?thesis
    by (auto simp: write_csv_def andthen_def on_files_def on_world_def ret_def split: prod.splits)
qed

text \<open>The task, with \<open>report\<close> for either report and \<open>records\<close> for its rows.\<close>

lemma export_session_cases:
  assumes "tree_ok fs" and "no_commit report"
    and "in_task_session e (andthen (on_world report) (\<lambda>r. write_csv e may room dir prefix (records r))) (w, fs) =
      (res, (w', fs'))"
  shows "committed w' = committed w \<and> tree_ok fs' \<and> (case res of
     Inr p \<Rightarrow> \<exists>r w1 u. report (begin_session e w) = (Inr r, w1) \<and> p = csv_name prefix u # dir \<and>
       exported (concat (map writerow (records r))) fs p fs'
   | Inl (FileError y) \<Rightarrow> \<exists>r w1. report (begin_session e w) = (Inr r, w1) \<and>
       left_by_failure (concat (map writerow (records r))) prefix dir y fs fs'
   | Inl (ServiceError x) \<Rightarrow> fs' = fs \<and> fst (report (begin_session e w)) = Inl x)"
proof -
  obtain r w1 where r: "report (begin_session e w) = (r, w1)" by fastforce
  with assms(2) have c: "committed w1 = committed w" by (auto dest: no_commitD simp: begin_session_def)
  show ?thesis
  proof (cases r)
    case (Inl x)
    with assms r c show ?thesis
      by (auto simp: in_task_session_def andthen_def on_world_def close_session_def)
  next
    case (Inr a)
    obtain q w2 fs2 where t: "write_csv e may room dir prefix (records a) (w1, fs) = (q, (w2, fs2))"
      using prod_cases3 by blast
    note write_csv_cases [OF assms(1) t]
    with assms(3) r c Inr t show ?thesis
      by (cases q) (auto simp: in_task_session_def andthen_def on_world_def close_session_def)
  qed
qed

text \<open>Reading the file back.\<close>

definition report_rows ::
  "'x deps \<Rightarrow> (string \<Rightarrow> string) \<Rightarrow> (int \<Rightarrow> string) \<Rightarrow> report_kind \<Rightarrow> ('x, string list list) service" where
  "report_rows e collation decimal_str kind = (case kind of
     INVENTORY_SUMMARY \<Rightarrow> andthen (generate_inventory_summary e collation) (\<lambda>r. ret (inventory_summary_rows r))
   | VALUATION \<Rightarrow> andthen (generate_valuation_report e collation) (\<lambda>r. ret (valuation_rows decimal_str r)))"

lemma csv_export_cases:
  assumes "tree_ok fs"
    and "generate_report_csv_async e collation decimal_str may room dir kind (w, fs) = (res, (w', fs'))"
  shows "committed w' = committed w \<and> tree_ok fs' \<and> (case res of
     Inr (k, path) \<Rightarrow> k = kind_value kind \<and> (\<exists>u text. path = path_str (csv_name k u # dir) \<and>
       exported text fs (csv_name k u # dir) fs' \<and>
       fst (report_rows e collation decimal_str kind (begin_session e w)) = Inr (csv_read text))
   | Inl (FileError y) \<Rightarrow> \<exists>text. left_by_failure text (kind_value kind) dir y fs fs' \<and>
       fst (report_rows e collation decimal_str kind (begin_session e w)) = Inr (csv_read text)
   | Inl (ServiceError x) \<Rightarrow> fs' = fs \<and> fst (report_rows e collation decimal_str kind (begin_session e w)) = Inl x)"
proof (cases kind)
  case INVENTORY_SUMMARY
  obtain q w2 fs2 where s: "in_task_session e (andthen (on_world (generate_inventory_summary e collation))
      (\<lambda>r. write_csv e may room dir (kind_value kind) (inventory_summary_rows r))) (w, fs) = (q, (w2, fs2))"
    using prod_cases3 by blast
  note made = export_session_cases [OF assms(1) no_commit_reports(1) s]
  have res: "res = map_sum id (\<lambda>p. (kind_value kind, path_str p)) q" "w' = w2" "fs' = fs2"
    using assms(2) s by (simp_all add: INVENTORY_SUMMARY generate_report_csv_async_def
        write_inventory_summary_csv_def [abs_def] andthen_def ret_def split: sum.splits)
  show ?thesis
  proof (cases q)
    case (Inr p)
    with made obtain r w1 u where r: "generate_inventory_summary e collation (begin_session e w) = (Inr r, w1)"
      "p = csv_name (kind_value kind) u # dir" "exported (concat (map writerow (inventory_summary_rows r))) fs p fs2" by auto
    let ?text = "concat (map writerow (inventory_summary_rows r))"
    have "fst (report_rows e collation decimal_str kind (begin_session e w)) = Inr (csv_read ?text)"
      using r(1) by (simp add: report_rows_def INVENTORY_SUMMARY andthen_def ret_def csv_read_written)
    with r(2,3) made Inr show ?thesis unfolding res by auto
  next
    case (Inl x)
    show ?thesis
    proof (cases x)
      case (ServiceError y)
      with made Inl show ?thesis
        unfolding res by (auto simp: report_rows_def INVENTORY_SUMMARY andthen_def split: prod.splits sum.splits)
    next
      case (FileError y)
      with made Inl obtain r w1 where r: "generate_inventory_summary e collation (begin_session e w) = (Inr r, w1)"
        "left_by_failure (concat (map writerow (inventory_summary_rows r))) (kind_value kind) dir y fs fs2" by auto
      have "fst (report_rows e collation decimal_str kind (begin_session e w)) =
          Inr (csv_read (concat (map writerow (inventory_summary_rows r))))"
        using r(1) by (simp add: report_rows_def INVENTORY_SUMMARY andthen_def ret_def csv_read_written)
      with r(2) made Inl FileError show ?thesis unfolding res by auto
    qed
  qed
next
  case VALUATION
  obtain q w2 fs2 where s: "in_task_session e (andthen (on_world (generate_valuation_report e collation))
      (\<lambda>r. write_csv e may room dir (kind_value kind) (valuation_rows decimal_str r))) (w, fs) = (q, (w2, fs2))"
    using prod_cases3 by blast
  note made = export_session_cases [OF assms(1) no_commit_reports(2) s]
  have res: "res = map_sum id (\<lambda>p. (kind_value kind, path_str p)) q" "w' = w2" "fs' = fs2"
    using assms(2) s by (simp_all add: VALUATION generate_report_csv_async_def
        write_valuation_csv_def [abs_def] andthen_def ret_def split: sum.splits)
  show ?thesis
  proof (cases q)
    case (Inr p)
    with made obtain r w1 u where r: "generate_valuation_report e collation (begin_session e w) = (Inr r, w1)"
      "p = csv_name (kind_value kind) u # dir" "exported (concat (map writerow (valuation_rows decimal_str r))) fs p fs2" by auto
    let ?text = "concat (map writerow (valuation_rows decimal_str r))"
    have "fst (report_rows e collation decimal_str kind (begin_session e w)) = Inr (csv_read ?text)"
      using r(1) by (simp add: report_rows_def VALUATION andthen_def ret_def csv_read_written)
    with r(2,3) made Inr show ?thesis unfolding res by auto
  next
    case (Inl x)
    show ?thesis
    proof (cases x)
      case (ServiceError y)
      with made Inl show ?thesis
        unfolding res by (auto simp: report_rows_def VALUATION andthen_def split: prod.splits sum.splits)
    next
      case (FileError y)
      with made Inl obtain r w1 where r: "generate_valuation_report e collation (begin_session e w) = (Inr r, w1)"
        "left_by_failure (concat (map writerow (valuation_rows decimal_str r))) (kind_value kind) dir y fs fs2" by auto
      have "fst (report_rows e collation decimal_str kind (begin_session e w)) =
          Inr (csv_read (concat (map writerow (valuation_rows decimal_str r))))"
        using r(1) by (simp add: report_rows_def VALUATION andthen_def ret_def csv_read_written)
      with r(2) made Inl FileError show ?thesis unfolding res by auto
    qed
  qed
qed

text \<open>The task succeeds when the report does and nothing is in the way.\<close>

lemma csv_export_succeeds:
  assumes "tree_ok fs" and "room_for may room dir fs"
    and "fst (report_rows e collation decimal_str kind (begin_session e w)) = Inr recs"
  shows "\<exists>p. fst (generate_report_csv_async e collation decimal_str may room dir kind (w, fs)) = Inr p"
proof -
  note succeeds = write_csv_succeeds [OF assms(1,2), where e = e]
  show ?thesis
  proof (cases kind)
    case INVENTORY_SUMMARY
    then obtain r w1 where r: "generate_inventory_summary e collation (begin_session e w) = (Inr r, w1)"
      using assms(3) by (auto simp: report_rows_def andthen_def split: prod.splits sum.splits)
    obtain p y where "write_csv e may room dir ''inventory_summary'' (inventory_summary_rows r) (w1, fs) = (Inr p, y)"
      using succeeds [of "''inventory_summary''" "inventory_summary_rows r" w1] by (metis fst_conv surj_pair)
    with r INVENTORY_SUMMARY show ?thesis
      by (auto simp: generate_report_csv_async_def in_task_session_def andthen_def on_world_def ret_def
          write_inventory_summary_csv_def split: prod.splits)
  next
    case VALUATION
    then obtain r w1 where r: "generate_valuation_report e collation (begin_session e w) = (Inr r, w1)"
      using assms(3) by (auto simp: report_rows_def andthen_def split: prod.splits sum.splits)
    obtain p y where "write_csv e may room dir ''valuation'' (valuation_rows decimal_str r) (w1, fs) = (Inr p, y)"
      using succeeds [of "''valuation''" "valuation_rows decimal_str r" w1] by (metis fst_conv surj_pair)
    with r VALUATION show ?thesis
      by (auto simp: generate_report_csv_async_def in_task_session_def andthen_def on_world_def ret_def
          write_valuation_csv_def split: prod.splits)
  qed
qed

end
