(* ===== verification/Notifications.thy ===== *)
theory Notifications
  imports AlertService ParseUuid
begin

text \<open>
  The alert mail task (app/tasks/notifications.py) and the mail utility (app/core/email.py).
  The SMTP server is a parameter that answers one command at a time; EmailMessage refuses a
  header of several lines, as its str.splitlines counts them.
\<close>

section \<open>send_email\<close>

record mail_message =
  mail_subject :: string
  mail_from :: string
  mail_to :: string
  mail_content :: string

datatype smtp_command =
    Connect string int
  | StartTLS
  | Login string string
  | SendMessage mail_message
  | Quit

record 'x mail_settings =
  smtp_host :: string
  smtp_port :: int
  smtp_user :: "string option"
  smtp_password :: "string option"
  smtp_use_tls :: bool
  smtp_from_email :: string
  smtp :: "smtp_command \<Rightarrow> 'x \<Rightarrow> bool \<times> 'x"

datatype task_error = Service exc | ValueError | SMTPException

type_synonym ('x, 'a) job = "('x world, task_error, 'a) prog"

definition line_break :: "char \<Rightarrow> bool" where
  "line_break c \<longleftrightarrow> c \<in> {CHR 0x0A, CHR 0x0B, CHR 0x0C, CHR 0x0D, CHR 0x1C, CHR 0x1D, CHR 0x1E, CHR 0x85}"

text \<open>len(s.splitlines()) > 1: a line break that is not the end, CR LF counting as one.\<close>

fun several_lines :: "string \<Rightarrow> bool" where
  "several_lines [] = False"
| "several_lines (c # cs) =
     (if \<not> line_break c then several_lines cs
      else if c = CHR 0x0D \<and> take 1 cs = [CHR 0x0A] then drop 1 cs \<noteq> [] else cs \<noteq> [])"

definition header :: "string \<Rightarrow> ('x, unit) job" where
  "header v = (if several_lines v then raise ValueError else ret ())"

definition command :: "'x mail_settings \<Rightarrow> smtp_command \<Rightarrow> ('x, unit) job" where
  "command s c = (\<lambda>w. case smtp s c (outside w) of (failed, x) \<Rightarrow>
     (if failed then Inl SMTPException else Inr (), w\<lparr>outside := x\<rparr>))"

text \<open>None and the empty string are both false.\<close>

definition given :: "string option \<Rightarrow> bool" where
  "given x \<longleftrightarrow> x \<noteq> None \<and> x \<noteq> Some []"

fun comma_separated :: "string list \<Rightarrow> string" where
  "comma_separated [] = []"
| "comma_separated [a] = a"
| "comma_separated (a # b # bs) = a @ '', '' @ comma_separated (b # bs)"

definition smtp_session :: "'x mail_settings \<Rightarrow> mail_message \<Rightarrow> smtp_command list" where
  "smtp_session s m = (if smtp_use_tls s then [StartTLS] else []) @
     (if given (smtp_user s) \<and> given (smtp_password s)
      then [Login (the (smtp_user s)) (the (smtp_password s))] else []) @ [SendMessage m]"

text \<open>
  Leaving the with block sends QUIT, also after an exception; a refusal of it is raised too.
\<close>

definition with_smtp :: "'x mail_settings \<Rightarrow> ('x, unit) job \<Rightarrow> ('x, unit) job" where
  "with_smtp s f = andthen (command s (Connect (smtp_host s) (smtp_port s))) (\<lambda>_ w.
     case f w of (r, w1) \<Rightarrow> (case command s Quit w1 of
         (Inl x, w2) \<Rightarrow> (Inl x, w2) | (Inr _, w2) \<Rightarrow> (r, w2)))"

definition send_email :: "'x mail_settings \<Rightarrow> string list \<Rightarrow> string \<Rightarrow> string \<Rightarrow> ('x, unit) job" where
  "send_email s to subject content =
     (if to = [] then ret ()
      else andthen (header subject) (\<lambda>_. andthen (header (smtp_from_email s)) (\<lambda>_.
        andthen (header (comma_separated to)) (\<lambda>_.
          let m = \<lparr>mail_subject = subject, mail_from = smtp_from_email s,
                   mail_to = comma_separated to, mail_content = content\<rparr>
          in with_smtp s (for_each (command s) (smtp_session s m))))))"

section \<open>send_low_stock_alert_email\<close>

definition build_subject :: "alert \<Rightarrow> string \<Rightarrow> string" where
  "build_subject alert product_name =
     ''[Inventory Alert] '' @ (if al_alert_type alert = OUT_OF_STOCK then ''OUT OF STOCK'' else ''Low Stock'')
     @ '': '' @ product_name"

primrec alert_type_value :: "alert_type \<Rightarrow> string" where
  "alert_type_value LOW_STOCK = ''low_stock''"
| "alert_type_value OUT_OF_STOCK = ''out_of_stock''"

definition line :: "string \<Rightarrow> string" where
  "line s = s @ [CHR 0x0A]"

definition build_body :: "(int \<Rightarrow> string) \<Rightarrow> alert \<Rightarrow> string \<Rightarrow> string \<Rightarrow> string" where
  "build_body isoformat alert product_name warehouse_name =
     line (''Product: '' @ product_name) @ line (''Warehouse: '' @ warehouse_name) @
     line (''Alert type: '' @ alert_type_value (al_alert_type alert)) @
     line (''Current quantity: '' @ int_str (al_quantity_at_trigger alert)) @
     line (''Threshold: '' @ int_str (al_threshold alert)) @
     line (''Triggered at: '' @ isoformat (created_at alert))"

definition alert_context ::
  "'x deps \<Rightarrow> uuid \<Rightarrow> ('x, alert \<times> product \<times> warehouse \<times> string list) service" where
  "alert_context e i = andthen (get_by_id_or_raise alerts_table i) (\<lambda>alert.
     andthen (get_by_id_or_raise products_table (al_product_id alert)) (\<lambda>product.
     andthen (get_by_id_or_raise warehouses_table (al_warehouse_id alert)) (\<lambda>warehouse.
     andthen (list_active_superusers e) (\<lambda>users.
       ret (alert, product, warehouse, map us_email users)))))"

definition as_job :: "('x, 'a) service \<Rightarrow> ('x, 'a) job" where
  "as_job f = (\<lambda>w. case f w of (Inl x, w') \<Rightarrow> (Inl (Service x), w') | (Inr a, w') \<Rightarrow> (Inr a, w'))"

definition send_low_stock_alert_email_async ::
  "'x deps \<Rightarrow> 'x mail_settings \<Rightarrow> (int \<Rightarrow> string) \<Rightarrow> uuid \<Rightarrow> ('x, unit) job" where
  "send_low_stock_alert_email_async e s isoformat alert_id =
     andthen (as_job (get_db e (alert_context e alert_id))) (\<lambda>(alert, product, warehouse, recipients).
       if recipients = [] then ret ()
       else send_email s recipients (build_subject alert (prod_name product))
         (build_body isoformat alert (prod_name product) (wh_name warehouse)))"

definition send_low_stock_alert_email ::
  "'x deps \<Rightarrow> 'x mail_settings \<Rightarrow> (int \<Rightarrow> string) \<Rightarrow> string \<Rightarrow> ('x, unit) job" where
  "send_low_stock_alert_email e s isoformat alert_id = (case UUID alert_id of
     None \<Rightarrow> raise ValueError
   | Some i \<Rightarrow> send_low_stock_alert_email_async e s isoformat i)"

text \<open>
  Celery runs the task again, up to \<open>max_retries\<close> times, when it raised (autoretry_for); the
  backoff between the attempts is only time.
\<close>

primrec retried :: "nat \<Rightarrow> ('x, 'a) job \<Rightarrow> ('x, 'a) job" where
  "retried 0 f = f"
| "retried (Suc n) f = (\<lambda>w. case f w of (Inl x, w') \<Rightarrow> retried n f w' | (Inr a, w') \<Rightarrow> (Inr a, w'))"

definition MAX_RETRIES :: nat where
  "MAX_RETRIES = 3"

definition notification_task ::
  "'x deps \<Rightarrow> 'x mail_settings \<Rightarrow> (int \<Rightarrow> string) \<Rightarrow> string \<Rightarrow> ('x, unit) job" where
  "notification_task e s isoformat alert_id =
     retried MAX_RETRIES (send_low_stock_alert_email e s isoformat alert_id)"

lemma retried_fails:
  assumes "\<And>w. I w \<Longrightarrow> \<exists>w'. f w = (Inl x, w') \<and> I w'" and "I w"
  shows "\<exists>w'. retried n f w = (Inl x, w') \<and> I w'"
  using assms(2)
proof (induction n arbitrary: w)
  case (Suc n)
  from assms(1) [OF Suc.prems] obtain w1 where w1: "f w = (Inl x, w1)" "I w1" by blast
  from Suc.IH [OF w1(2)] w1(1) show ?case by simp
qed (use assms(1) in simp)

section \<open>How the task runs\<close>

definition superuser_emails :: "db \<Rightarrow> string list" where
  "superuser_emails d = map us_email (filter (\<lambda>r. us_is_superuser r \<and> us_is_active r) (users d))"

lemma alert_context_run:
  assumes ok: "constraints (work w)" and fair: "fair_scan e"
    and a: "a \<in> set (alerts (work w))" and i: "entity_id a = i"
  shows "\<exists>p wa es w'. alert_context e i w = (Inr (a, p, wa, es), w') \<and>
    w' = w\<lparr>tick := tick w'\<rparr> \<and> p \<in> set (products (work w)) \<and> entity_id p = al_product_id a \<and>
    wa \<in> set (warehouses (work w)) \<and> entity_id wa = al_warehouse_id a \<and>
    mset es = mset (superuser_emails (work w))"
proof -
  have fa: "find (\<lambda>r. entity_id r = i) (alerts (work w)) = Some a"
    using alerts_store.find_row [of a "work w"] a ok i by (simp add: alerts_table_def)
  have "al_product_id a \<in> set (ids (products (work w)))" "al_warehouse_id a \<in> set (ids (warehouses (work w)))"
    using ok a by (auto simp: constraint_defs)
  then obtain p wa where p: "p \<in> set (products (work w))" "entity_id p = al_product_id a"
    and wa: "wa \<in> set (warehouses (work w))" "entity_id wa = al_warehouse_id a"
    by (auto simp: set_ids)
  have fp: "find (\<lambda>r. entity_id r = al_product_id a) (products (work w)) = Some p"
    using products_store.find_row [of p "work w"] p ok by (simp add: products_table_def)
  have fw: "find (\<lambda>r. entity_id r = al_warehouse_id a) (warehouses (work w)) = Some wa"
    using warehouses_store.find_row [of wa "work w"] wa ok by (simp add: warehouses_table_def)
  have "mset (map us_email (filter (\<lambda>r. us_is_superuser r \<and> us_is_active r) (scan e (tick w) (users (work w)))))
      = mset (superuser_emails (work w))"
    by (simp add: superuser_emails_def mset_scan [OF fair])
  with p wa show ?thesis
    by (simp add: alert_context_def andthen_def get_by_id_or_raise_run table_defs fa fp fw
        list_active_superusers_def)
qed

lemma command_run:
  "\<not> fst (smtp s c (outside w)) \<Longrightarrow>
     command s c w = (Inr (), w\<lparr>outside := snd (smtp s c (outside w))\<rparr>)"
  by (simp add: command_def split_def)

lemma for_each_commands:
  assumes "\<And>c x. c \<in> set cs \<Longrightarrow> \<not> fst (smtp s c x)"
  shows "for_each (command s) cs w =
    (Inr (), w\<lparr>outside := fold (\<lambda>c x. snd (smtp s c x)) cs (outside w)\<rparr>)"
  using assms by (induction cs arbitrary: w) (simp_all add: command_run)

text \<open>A server that may refuse connections, but then takes every command.\<close>

definition takes_mail :: "'x mail_settings \<Rightarrow> bool" where
  "takes_mail s \<longleftrightarrow> (\<forall>c x. (\<forall>h p. c \<noteq> Connect h p) \<longrightarrow> \<not> fst (smtp s c x))"

abbreviation greeting :: "'x mail_settings \<Rightarrow> smtp_command" where
  "greeting s \<equiv> Connect (smtp_host s) (smtp_port s)"

text \<open>It refuses the next \<open>k\<close> connections and accepts the one after them.\<close>

primrec refuses :: "'x mail_settings \<Rightarrow> nat \<Rightarrow> 'x \<Rightarrow> bool" where
  "refuses s 0 x = (\<not> fst (smtp s (greeting s) x))"
| "refuses s (Suc k) x = (fst (smtp s (greeting s) x) \<and> refuses s k (snd (smtp s (greeting s) x)))"

definition after_refusals :: "'x mail_settings \<Rightarrow> nat \<Rightarrow> 'x \<Rightarrow> 'x" where
  "after_refusals s k x = ((\<lambda>x. snd (smtp s (greeting s) x)) ^^ k) x"

lemma takes_session: "takes_mail s \<Longrightarrow> c \<in> set (smtp_session s m) \<Longrightarrow> \<not> fst (smtp s c x)"
  by (auto simp: takes_mail_def smtp_session_def split: if_splits)

text \<open>A mail that is accepted is one SMTP session with one message.\<close>

definition whole_session :: "'x mail_settings \<Rightarrow> mail_message \<Rightarrow> smtp_command list" where
  "whole_session s m = Connect (smtp_host s) (smtp_port s) # smtp_session s m @ [Quit]"

lemma send_email_run:
  assumes "takes_mail s" and "\<not> fst (smtp s (greeting s) (outside w))" and "to \<noteq> []" and "\<not> several_lines subject"
    and "\<not> several_lines (smtp_from_email s)" and "\<not> several_lines (comma_separated to)"
  shows "send_email s to subject content w =
    (Inr (), w\<lparr>outside := fold (\<lambda>c x. snd (smtp s c x))
      (whole_session s \<lparr>mail_subject = subject, mail_from = smtp_from_email s,
         mail_to = comma_separated to, mail_content = content\<rparr>) (outside w)\<rparr>)"
proof -
  have quit: "\<not> fst (smtp s Quit x)" for x using assms(1) by (simp add: takes_mail_def)
  show ?thesis
    using assms(2-)
    by (simp add: send_email_def header_def with_smtp_def whole_session_def command_run quit Let_def
        for_each_commands [OF takes_session [OF assms(1)]])
qed

lemma send_email_unreachable:
  assumes "fst (smtp s (greeting s) (outside w))" and "to \<noteq> []" and "\<not> several_lines subject"
    and "\<not> several_lines (smtp_from_email s)" and "\<not> several_lines (comma_separated to)"
  shows "send_email s to subject content w =
    (Inl SMTPException, w\<lparr>outside := snd (smtp s (greeting s) (outside w))\<rparr>)"
proof -
  have "command s (greeting s) w = (Inl SMTPException, w\<lparr>outside := snd (smtp s (greeting s) (outside w))\<rparr>)"
    using assms(1) by (simp add: command_def split_def)
  then show ?thesis using assms(2-) by (simp add: send_email_def header_def with_smtp_def Let_def)
qed

lemma send_email_refused:
  "to \<noteq> [] \<Longrightarrow> several_lines subject \<Longrightarrow> send_email s to subject content w = (Inl ValueError, w)"
  by (simp add: send_email_def header_def)

lemma several_lines_append: "several_lines s \<Longrightarrow> several_lines (t @ s)"
proof (induction t)
  case (Cons c t)
  then obtain d ds where "t @ s = d # ds" and "d = CHR 0x0A \<Longrightarrow> ds \<noteq> []"
    by (cases "t @ s") (auto simp: line_break_def split: if_splits)
  with Cons show ?case by auto
qed simp

definition one_line :: "string \<Rightarrow> bool" where
  "one_line s \<longleftrightarrow> list_all (\<lambda>c. \<not> line_break c) s"

lemma one_line_not_several: "one_line s \<Longrightarrow> \<not> several_lines s"
  by (induction s) (auto simp: one_line_def)

lemma one_line_append [simp]: "one_line (s @ t) \<longleftrightarrow> one_line s \<and> one_line t"
  by (simp add: one_line_def)

lemma one_line_subject: "one_line name \<Longrightarrow> one_line (build_subject a name)"
  by (auto simp: build_subject_def one_line_def line_break_def)

lemma one_line_joined: "\<forall>s \<in> set ss. one_line s \<Longrightarrow> one_line (comma_separated ss)"
  by (induction ss rule: comma_separated.induct) (auto simp: one_line_def line_break_def)

text \<open>One attempt, whatever the server does with its connection.\<close>

definition mail_about :: "db \<Rightarrow> 'x mail_settings \<Rightarrow> alert \<Rightarrow> 'x \<Rightarrow> 'x \<Rightarrow> bool" where
  "mail_about d s a x x' \<longleftrightarrow> (\<exists>m es p. x' = fold (\<lambda>c x. snd (smtp s c x)) (whole_session s m) x \<and>
     mset es = mset (superuser_emails d) \<and> mail_to m = comma_separated es \<and>
     p \<in> set (products d) \<and> entity_id p = al_product_id a \<and> mail_subject m = build_subject a (prod_name p))"

lemma mail_attempt:
  assumes "constraints (committed w)" and "fair_scan e" and "a \<in> set (alerts (committed w))"
    and s: "takes_mail s" "one_line (smtp_from_email s)"
    and "\<forall>p \<in> set (products (committed w)). one_line (prod_name p)"
    and "\<forall>address \<in> set (superuser_emails (committed w)). one_line address"
  shows "superuser_emails (committed w) = [] \<Longrightarrow>
      \<exists>w'. send_low_stock_alert_email e s isoformat (uuid_str (entity_id a)) w = (Inr (), w') \<and>
        committed w' = committed w \<and> outside w' = outside w"
    and "superuser_emails (committed w) \<noteq> [] \<Longrightarrow> fst (smtp s (greeting s) (outside w)) \<Longrightarrow>
      \<exists>w'. send_low_stock_alert_email e s isoformat (uuid_str (entity_id a)) w = (Inl SMTPException, w') \<and>
        committed w' = committed w \<and> outside w' = snd (smtp s (greeting s) (outside w))"
    and "superuser_emails (committed w) \<noteq> [] \<Longrightarrow> \<not> fst (smtp s (greeting s) (outside w)) \<Longrightarrow>
      \<exists>w'. send_low_stock_alert_email e s isoformat (uuid_str (entity_id a)) w = (Inr (), w') \<and>
        committed w' = committed w \<and> mail_about (committed w) s a (outside w) (outside w')"
proof -
  let ?b = "begin_session e w"
  obtain p wa es w1 where run: "alert_context e (entity_id a) ?b = (Inr (a, p, wa, es), w1)"
    and w1: "w1 = ?b\<lparr>tick := tick w1\<rparr>" and p: "p \<in> set (products (committed w))" "entity_id p = al_product_id a"
    and es: "mset es = mset (superuser_emails (committed w))"
    using alert_context_run [of ?b e a "entity_id a"] assms(1-3) by auto
  have out: "outside w1 = outside w" "committed w1 = committed w"
    by (subst w1, simp)+
  have job: "send_low_stock_alert_email e s isoformat (uuid_str (entity_id a)) w =
      (if es = [] then (Inr (), close_session w1) else send_email s es (build_subject a (prod_name p))
        (build_body isoformat a (prod_name p) (wh_name wa)) (close_session w1))"
    by (simp add: send_low_stock_alert_email_def UUID_str send_low_stock_alert_email_async_def andthen_def
        as_job_def get_db_run [of "alert_context e (entity_id a)", OF run])
  have "set es = set (superuser_emails (committed w))" by (rule mset_eq_setD [OF es])
  then have to: "\<not> several_lines (comma_separated es)"
    using assms(7) by (intro one_line_not_several one_line_joined) simp
  have subj: "\<not> several_lines (build_subject a (prod_name p))"
    using assms(6) p(1) by (intro one_line_not_several one_line_subject) blast
  note from' = one_line_not_several [OF s(2)]
  show "\<exists>w'. send_low_stock_alert_email e s isoformat (uuid_str (entity_id a)) w = (Inr (), w') \<and>
        committed w' = committed w \<and> outside w' = outside w" if "superuser_emails (committed w) = []"
    using that es job out by simp
  show "\<exists>w'. send_low_stock_alert_email e s isoformat (uuid_str (entity_id a)) w = (Inl SMTPException, w') \<and>
        committed w' = committed w \<and> outside w' = snd (smtp s (greeting s) (outside w))"
    if ne: "superuser_emails (committed w) \<noteq> []" and no: "fst (smtp s (greeting s) (outside w))"
  proof -
    have "es \<noteq> []" using ne es by auto
    with job send_email_unreachable [OF _ this subj from' to, of "close_session w1"] no out show ?thesis by simp
  qed
  show "\<exists>w'. send_low_stock_alert_email e s isoformat (uuid_str (entity_id a)) w = (Inr (), w') \<and>
        committed w' = committed w \<and> mail_about (committed w) s a (outside w) (outside w')"
    if ne: "superuser_emails (committed w) \<noteq> []" and no: "\<not> fst (smtp s (greeting s) (outside w))"
  proof -
    have nil: "es \<noteq> []" using ne es by auto
    have "\<not> fst (smtp s (greeting s) (outside (close_session w1)))" using no out by simp
    note mail = send_email_run [OF s(1) this nil subj from' to]
    from job nil out es p show ?thesis unfolding mail mail_about_def by (auto intro!: exI)
  qed
qed

lemma after_refusals_simps [simp]:
  "after_refusals s 0 x = x" "after_refusals s (Suc k) x = after_refusals s k (snd (smtp s (greeting s) x))"
  using funpow_swap1 [of "\<lambda>x. snd (smtp s (greeting s) x)" k x] by (simp_all add: after_refusals_def)

lemma retried_mail:
  assumes fair: "fair_scan e" and s: "takes_mail s" "one_line (smtp_from_email s)"
    and "refuses s k (outside w)" and "k \<le> n"
    and "constraints (committed w)" and "a \<in> set (alerts (committed w))"
    and "\<forall>p \<in> set (products (committed w)). one_line (prod_name p)"
    and "\<forall>address \<in> set (superuser_emails (committed w)). one_line address"
    and "superuser_emails (committed w) \<noteq> []"
  shows "\<exists>w'. retried n (send_low_stock_alert_email e s isoformat (uuid_str (entity_id a))) w = (Inr (), w') \<and>
    committed w' = committed w \<and> mail_about (committed w) s a (after_refusals s k (outside w)) (outside w')"
  using assms(4-)
proof (induction k arbitrary: n w)
  case 0
  from 0(1) have "\<not> fst (smtp s (greeting s) (outside w))" by simp
  from mail_attempt(3) [OF 0(3) fair 0(4) s 0(5,6,7) this, of isoformat]
  obtain w' where w': "send_low_stock_alert_email e s isoformat (uuid_str (entity_id a)) w = (Inr (), w')"
    "committed w' = committed w" "mail_about (committed w) s a (outside w) (outside w')" by blast
  then have "retried n (send_low_stock_alert_email e s isoformat (uuid_str (entity_id a))) w = (Inr (), w')"
    by (cases n) simp_all
  with w' show ?case by (intro exI [of _ w']) simp
next
  case (Suc k)
  from Suc.prems(2) obtain m where n: "n = Suc m" by (cases n) simp_all
  from Suc.prems(1) have no: "fst (smtp s (greeting s) (outside w))"
    and later: "refuses s k (snd (smtp s (greeting s) (outside w)))" by simp_all
  from mail_attempt(2) [OF Suc.prems(3) fair Suc.prems(4) s Suc.prems(5,6,7) no, of isoformat]
  obtain w1 where w1: "send_low_stock_alert_email e s isoformat (uuid_str (entity_id a)) w = (Inl SMTPException, w1)"
    "committed w1 = committed w" "outside w1 = snd (smtp s (greeting s) (outside w))" by blast
  have k: "k \<le> m" using Suc.prems(2) n by simp
  have "\<exists>w'. retried m (send_low_stock_alert_email e s isoformat (uuid_str (entity_id a))) w1 = (Inr (), w') \<and>
      committed w' = committed w1 \<and> mail_about (committed w1) s a (after_refusals s k (outside w1)) (outside w')"
    by (rule Suc.IH [OF _ k]) (unfold w1(2,3), (fact later Suc.prems)+)
  with w1 show ?case by (simp add: n)
qed

end
