(* ===== verification/Middleware.thy ===== *)
theory Middleware
  imports Api
begin

text \<open>
  The middleware around the routes (app/core/middleware.py, wired in app/main.py): a request
  id and an access log line, then security headers. Starlette puts the handler of
  AppException inside them and the handler of every other exception outside, so such an
  exception passes through both. Header names are lower case; CORS is a library.

  The lemma says that what the client gets is what \<open>serve\<close> answers, with the headers unless
  the exception passed.
\<close>

record http_response =
  http_body :: response
  http_headers :: "string \<rightharpoonup> string"

text \<open>A handler answers or lets an exception pass.\<close>

type_synonym ('x, 'a) handler = "'x world \<Rightarrow> (exc + 'a) \<times> 'x world"

record access_log =
  log_method :: string
  log_path :: string
  log_status :: int
  log_duration :: int
  log_request_id :: uuid

definition REQUEST_ID_HEADER :: string where
  "REQUEST_ID_HEADER = ''x-request-id''"

definition request_logging ::
  "'x deps \<Rightarrow> string \<Rightarrow> string \<Rightarrow> ('x, http_response) handler \<Rightarrow> ('x, http_response \<times> access_log) handler" where
  "request_logging e verb path call_next =
     andthen (draw_uuid e) (\<lambda>request_id.
     andthen (utc_now e) (\<lambda>start_time.
     andthen call_next (\<lambda>response.
     andthen (utc_now e) (\<lambda>end_time.
       ret (response\<lparr>http_headers := (http_headers response)(REQUEST_ID_HEADER \<mapsto> uuid_str request_id)\<rparr>,
         \<lparr>log_method = verb, log_path = path, log_status = resp_status (http_body response),
          log_duration = end_time - start_time, log_request_id = request_id\<rparr>)))))"

definition DOCS_PATHS :: "string set" where
  "DOCS_PATHS = {''/docs'', ''/redoc'', ''/openapi.json''}"

definition secured :: "string \<Rightarrow> (string \<rightharpoonup> string) \<Rightarrow> (string \<rightharpoonup> string)" where
  "secured path headers =
     (let hs = headers(''x-content-type-options'' \<mapsto> ''nosniff'', ''x-frame-options'' \<mapsto> ''DENY'',
        ''referrer-policy'' \<mapsto> ''no-referrer'',
        ''permissions-policy'' \<mapsto> ''geolocation=(), microphone=(), camera=()'')
      in if path \<notin> DOCS_PATHS
         then hs(''content-security-policy'' \<mapsto> ''default-src '' @ quoted ''none'' @ ''; frame-ancestors '' @ quoted ''none'') else hs)"

definition security_headers ::
  "string \<Rightarrow> ('x, http_response \<times> 'l) handler \<Rightarrow> ('x, http_response \<times> 'l) handler" where
  "security_headers path call_next = andthen call_next (\<lambda>(response, entry).
     ret (response\<lparr>http_headers := secured path (http_headers response)\<rparr>, entry))"

text \<open>
  The routes with validation and the handler of AppException: every other exception passes.
\<close>

definition routed :: "'x deps \<Rightarrow> request \<Rightarrow> ('x, http_response) handler" where
  "routed e req w =
     (let plain = (\<lambda>status content. \<lparr>http_body = \<lparr>resp_status = status, resp_content = content\<rparr>,
        http_headers = Map.empty\<rparr>) in
      if \<not> request_ok req then (Inr (plain 422 (ErrorBody ''validation'')), w)
      else case get_db e (route e req) w of
        (Inr c, w') \<Rightarrow> (Inr (plain (success_status req) c), w')
      | (Inl x, w') \<Rightarrow> (case x of
            App y \<Rightarrow> (let r = app_exception_handler y in
              (Inr (plain (status_code r) (ErrorBody (detail r))), w'))
          | _ \<Rightarrow> (Inl x, w')))"

text \<open>
  The outermost layer: with \<open>debug\<close> Starlette answers with a page that shows the traceback
  instead of calling the registered handler (its text is \<open>traceback\<close>).
\<close>

definition application ::
  "'x deps \<Rightarrow> bool \<Rightarrow> (exc \<Rightarrow> string) \<Rightarrow> string \<Rightarrow> string \<Rightarrow> request \<Rightarrow> 'x world \<Rightarrow>
     (http_response \<times> access_log option) \<times> 'x world" where
  "application e debug traceback verb path req w =
     (case security_headers path (request_logging e verb path (routed e req)) w of
        (Inr (response, entry), w') \<Rightarrow> ((response, Some entry), w')
      | (Inl x, w') \<Rightarrow>
          (let r = (if debug then \<lparr>status_code = 500, detail = traceback x\<rparr>
             else unhandled_exception_handler x)
           in ((\<lparr>http_body = \<lparr>resp_status = status_code r, resp_content = ErrorBody (detail r)\<rparr>,
               http_headers = Map.empty\<rparr>, None), w')))"

section \<open>What the client gets\<close>

definition passes :: "'x deps \<Rightarrow> request \<Rightarrow> 'x world \<Rightarrow> exc option" where
  "passes e req w = (if \<not> request_ok req then None else case fst (get_db e (route e req) w) of
      Inl x \<Rightarrow> (case x of App y \<Rightarrow> None | _ \<Rightarrow> Some x) | Inr c \<Rightarrow> None)"

lemma routed_serve: "routed e req w = (case passes e req w of
    None \<Rightarrow> Inr \<lparr>http_body = fst (serve e req w), http_headers = Map.empty\<rparr>
  | Some x \<Rightarrow> Inl x, snd (serve e req w))"
  by (auto simp: routed_def passes_def serve_def Let_def handle_exception.simps
      split: prod.splits sum.splits exc.splits)

lemma application_run:
  fixes w :: "'x world"
  defines "w0 \<equiv> w\<lparr>tick := Suc (Suc (tick w))\<rparr>"
  shows "fst (fst (application e debug traceback verb path req w)) =
    (case passes e req w0 of
       None \<Rightarrow> \<lparr>http_body = fst (serve e req w0), http_headers =
         secured path (Map.empty(REQUEST_ID_HEADER \<mapsto> uuid_str (uuid4 e (tick w))))\<rparr>
     | Some x \<Rightarrow> \<lparr>http_body = \<lparr>resp_status = 500, resp_content = ErrorBody
         (if debug then traceback x else ''An unexpected error occurred.'')\<rparr>, http_headers = Map.empty\<rparr>)"
    and "committed (snd (application e debug traceback verb path req w)) = committed (snd (serve e req w0))"
  by (simp_all add: application_def security_headers_def request_logging_def andthen_def routed_serve
      unhandled_exception_handler_def Let_def w0_def split: option.splits)

lemma passes_status: "passes e req w = Some x \<Longrightarrow> fst (serve e req w) =
    \<lparr>resp_status = 500, resp_content = ErrorBody ''An unexpected error occurred.''\<rparr>"
  by (auto simp: passes_def serve_def handle_exception.simps unhandled_exception_handler_def
      split: if_splits prod.splits sum.splits exc.splits)

end
