(* ===== verification/Monitoring.thy ===== *)
theory Monitoring
  imports Prelude
begin

text \<open>
  Task lifecycle signals (app/tasks/monitoring.py). The state is the table of start times,
  with the log written so far; perf_counter is drawn by the caller, in microseconds. The
  lemmas say that the table holds exactly the executions that are running, so it does not
  grow with the number of tasks executed.
\<close>

datatype log_line =
    TaskStarted "string option" string
  | TaskFinished "string option" string "int option"
  | TaskFailed "string option" string
  | TaskRetrying "string option" string

record monitor =
  start_times :: "string \<rightharpoonup> int"
  task_log :: "log_line list"

definition write_log :: "log_line \<Rightarrow> monitor \<Rightarrow> monitor" where
  "write_log l m = m\<lparr>task_log := task_log m @ [l]\<rparr>"

definition on_task_prerun :: "string option \<Rightarrow> string \<Rightarrow> int \<Rightarrow> monitor \<Rightarrow> monitor" where
  "on_task_prerun task_id name now m =
     write_log (TaskStarted task_id name)
       (case task_id of None \<Rightarrow> m | Some i \<Rightarrow> m\<lparr>start_times := (start_times m)(i \<mapsto> now)\<rparr>)"

text \<open>\<open>if start_time\<close> is false for 0 as well.\<close>

definition on_task_postrun :: "string option \<Rightarrow> string \<Rightarrow> int \<Rightarrow> monitor \<Rightarrow> monitor" where
  "on_task_postrun task_id state now m =
     (let start_time = Option.bind task_id (start_times m);
          duration = (case start_time of None \<Rightarrow> None | Some t \<Rightarrow> if t = 0 then None else Some (now - t))
      in write_log (TaskFinished task_id state duration)
           (case task_id of None \<Rightarrow> m | Some i \<Rightarrow> m\<lparr>start_times := (start_times m)(i := None)\<rparr>))"

definition on_task_failure :: "string option \<Rightarrow> string \<Rightarrow> monitor \<Rightarrow> monitor" where
  "on_task_failure task_id name m = write_log (TaskFailed task_id name) m"

definition on_task_retry :: "string option \<Rightarrow> string \<Rightarrow> monitor \<Rightarrow> monitor" where
  "on_task_retry task_id name m = write_log (TaskRetrying task_id name) m"

section \<open>The table of start times\<close>

datatype signal =
    Prerun "string option" string int
  | Postrun "string option" string int
  | Failure "string option" string
  | Retry "string option" string

fun receive :: "signal \<Rightarrow> monitor \<Rightarrow> monitor" where
  "receive (Prerun i n t) m = on_task_prerun i n t m"
| "receive (Postrun i s t) m = on_task_postrun i s t m"
| "receive (Failure i n) m = on_task_failure i n m"
| "receive (Retry i n) m = on_task_retry i n m"

text \<open>The executions that have begun and not ended.\<close>

fun running :: "signal \<Rightarrow> string set \<Rightarrow> string set" where
  "running (Prerun (Some i) n t) R = insert i R"
| "running (Postrun (Some i) s t) R = R - {i}"
| "running _ R = R"

lemma receive_dom: "dom (start_times (receive x m)) = running x (dom (start_times m))"
proof (cases x)
  case (Prerun i n t)
  then show ?thesis by (cases i) (auto simp: on_task_prerun_def write_log_def)
next
  case (Postrun i s t)
  then show ?thesis by (cases i) (auto simp: on_task_postrun_def write_log_def Let_def)
qed (simp_all add: on_task_failure_def on_task_retry_def write_log_def)

lemma receive_all_dom: "dom (start_times (fold receive xs m)) = fold running xs (dom (start_times m))"
  by (induction xs arbitrary: m) (simp_all add: receive_dom)

text \<open>One log line per signal.\<close>

lemma receive_log: "length (task_log (receive x m)) = Suc (length (task_log m))"
  by (cases x) (simp_all add: on_task_prerun_def on_task_postrun_def on_task_failure_def
    on_task_retry_def write_log_def Let_def split: option.splits)

end
