(* ===== verification/Startup.thy ===== *)
theory Startup
  imports WebSockets Notifications "HOL-Library.AList"
begin

text \<open>
  How the processes start and stop: the settings' validator (app/core/config.py), log lines
  (app/core/logging.py), what importing app/main.py and app/tasks/celery_app.py registers
  with the event publisher, the APScheduler job (app/core/scheduler.py), the lifespan of the
  API process (app/main.py), the Celery configuration, and the health check.
\<close>

section \<open>Settings\<close>

record settings =
  set_environment :: string
  set_debug :: bool
  set_api_v1_prefix :: string
  set_project_name :: string
  set_database_url :: string
  set_redis_url :: string
  set_celery_broker_url :: string
  set_celery_result_backend :: string
  set_secret_key :: string
  set_algorithm :: string
  set_access_token_expire_minutes :: int
  set_low_stock_alert_threshold_default :: int
  set_cors_allowed_origins :: "string list"
  set_smtp_host :: string
  set_smtp_port :: int
  set_smtp_user :: "string option"
  set_smtp_password :: "string option"
  set_smtp_use_tls :: bool
  set_smtp_from_email :: string
  set_reports_storage_dir :: string

text \<open>The defaults, given the five values that have none.\<close>

definition default_settings :: "string \<Rightarrow> string \<Rightarrow> string \<Rightarrow> string \<Rightarrow> string \<Rightarrow> settings" where
  "default_settings database_url redis_url broker_url result_backend secret_key =
     \<lparr>set_environment = ''development'', set_debug = True, set_api_v1_prefix = ''/api/v1'',
      set_project_name = ''Inventory Management API'', set_database_url = database_url,
      set_redis_url = redis_url, set_celery_broker_url = broker_url,
      set_celery_result_backend = result_backend, set_secret_key = secret_key,
      set_algorithm = ''HS256'', set_access_token_expire_minutes = 30,
      set_low_stock_alert_threshold_default = 10, set_cors_allowed_origins = [''http://localhost:3000''],
      set_smtp_host = ''localhost'', set_smtp_port = 1025, set_smtp_user = None,
      set_smtp_password = None, set_smtp_use_tls = False,
      set_smtp_from_email = ''alerts@inventory-management-api.local'',
      set_reports_storage_dir = ''storage/reports''\<rparr>"

text \<open>What \<open>send_email\<close> takes from them.\<close>

definition mail_settings_from :: "settings \<Rightarrow> (smtp_command \<Rightarrow> 'x \<Rightarrow> bool \<times> 'x) \<Rightarrow> 'x mail_settings" where
  "mail_settings_from s server = \<lparr>smtp_host = set_smtp_host s, smtp_port = set_smtp_port s,
     smtp_user = set_smtp_user s, smtp_password = set_smtp_password s, smtp_use_tls = set_smtp_use_tls s,
     smtp_from_email = set_smtp_from_email s, smtp = server\<rparr>"

text \<open>By default the sender is one line and the session neither encrypts nor logs in.\<close>

lemma default_mail_session:
  "let s = mail_settings_from (default_settings a b c d k) server
   in one_line (smtp_from_email s) \<and> smtp_session s m = [SendMessage m]"
  by (simp add: mail_settings_from_def default_settings_def smtp_session_def given_def one_line_def
      line_break_def Let_def)

section \<open>Allowed origins\<close>

text \<open>str.split(",") and str.strip of Latin-1 text.\<close>

fun split_on :: "char \<Rightarrow> string \<Rightarrow> string list" where
  "split_on c [] = [[]]"
| "split_on c (x # xs) = (if x = c then [] # split_on c xs
     else case split_on c xs of [] \<Rightarrow> [[x]] | p # ps \<Rightarrow> (x # p) # ps)"

definition blank :: "char \<Rightarrow> bool" where
  "blank c \<longleftrightarrow> c \<in> {CHR 0x09, CHR 0x0A, CHR 0x0B, CHR 0x0C, CHR 0x0D, CHR 0x1C, CHR 0x1D, CHR 0x1E,
     CHR 0x1F, CHR 0x20, CHR 0x85, CHR 0xA0}"

definition strip :: "string \<Rightarrow> string" where
  "strip s = rev (dropWhile blank (rev (dropWhile blank s)))"

datatype origins_value = OriginsText string | OriginsList "string list"

primrec split_comma_separated_origins :: "origins_value \<Rightarrow> string list" where
  "split_comma_separated_origins (OriginsText v) =
     map strip (filter (\<lambda>s. strip s \<noteq> []) (split_on (CHR 0x2C) v))"
| "split_comma_separated_origins (OriginsList v) = v"

lemma split_on_none: "c \<notin> set s \<Longrightarrow> split_on c s = [s]"
  by (induction s) auto

lemma split_on_append: "c \<notin> set s \<Longrightarrow> split_on c (s @ c # t) = s # split_on c t"
  by (induction s) auto

lemma strip_clean: "s \<noteq> [] \<Longrightarrow> \<not> blank (hd s) \<Longrightarrow> \<not> blank (last s) \<Longrightarrow> strip s = s"
proof -
  have keep: "xs \<noteq> [] \<Longrightarrow> \<not> blank (hd xs) \<Longrightarrow> dropWhile blank xs = xs" for xs
    by (cases xs) simp_all
  assume "s \<noteq> []" "\<not> blank (hd s)" "\<not> blank (last s)"
  then show ?thesis by (simp add: strip_def keep hd_rev)
qed

text \<open>Origins joined with commas read back, with or without a space after each comma.\<close>

fun join_with :: "string \<Rightarrow> string list \<Rightarrow> string" where
  "join_with sep [] = []"
| "join_with sep [a] = a"
| "join_with sep (a # b # bs) = a @ sep @ join_with sep (b # bs)"

lemma split_comma_roundtrip:
  assumes "\<forall>s \<in> set origins. s \<noteq> [] \<and> \<not> blank (hd s) \<and> \<not> blank (last s) \<and> CHR 0x2C \<notin> set s"
  shows "split_comma_separated_origins (OriginsText (join_with [CHR 0x2C] origins)) = origins"
proof -
  have "origins \<noteq> [] \<Longrightarrow> split_on (CHR 0x2C) (join_with [CHR 0x2C] origins) = origins"
    using assms
    by (induction "[CHR 0x2C]" origins rule: join_with.induct) (simp_all add: split_on_none split_on_append)
  moreover have "map strip (filter (\<lambda>s. strip s \<noteq> []) origins) = origins"
    using assms by (induction origins) (simp_all add: strip_clean)
  ultimately show ?thesis by (cases origins) (simp_all add: strip_def)
qed

section \<open>Log lines\<close>

record log_record =
  lr_created :: int
  lr_level :: string
  lr_logger :: string
  lr_message :: string
  lr_extra :: "(string \<times> string) list"
  lr_exception :: "string option"

text \<open>The dict JSONFormatter builds; \<open>lr_extra\<close> are the attributes that are not standard.\<close>

definition json_payload :: "(int \<Rightarrow> string) \<Rightarrow> log_record \<Rightarrow> (string \<times> string) list" where
  "json_payload isoformat r =
     (let fields = [(''timestamp'', isoformat (lr_created r)), (''level'', lr_level r),
          (''logger'', lr_logger r), (''message'', lr_message r)];
        extended = fold (\<lambda>(k, v). AList.update k v) (lr_extra r) fields
      in case lr_exception r of None \<Rightarrow> extended | Some t \<Rightarrow> AList.update ''exception'' t extended)"

datatype log_format = PlainLine | JsonLine

record root_logger =
  root_level :: int
  root_handlers :: "log_format list"

text \<open>logging.basicConfig leaves a root logger that has handlers alone.\<close>

definition configure_logging :: "string \<Rightarrow> root_logger \<Rightarrow> root_logger" where
  "configure_logging environment root =
     (let level = (if environment = ''development'' then 10 else 20);
        handler = (if environment = ''development'' then PlainLine else JsonLine)
      in if root_handlers root \<noteq> [] then root else \<lparr>root_level = level, root_handlers = [handler]\<rparr>)"

lemma configure_logging_twice:
  "configure_logging environment' (configure_logging environment root) = configure_logging environment root"
  by (simp add: configure_logging_def Let_def)

lemma json_payload_extra:
  assumes "distinct (map fst (lr_extra r))" and "(k, v) \<in> set (lr_extra r)" and "k \<noteq> ''exception''"
  shows "map_of (json_payload isoformat r) k = Some v"
proof -
  have keep: "map_of (fold (\<lambda>(k, v). AList.update k v) xs fs) k = map_of fs k" if "k \<notin> fst ` set xs" for xs :: "(string \<times> string) list" and fs
    using that by (induction xs arbitrary: fs) (auto simp: update_conv')
  have "map_of (fold (\<lambda>(k, v). AList.update k v) (lr_extra r) fs) k = Some v" for fs
    using assms(1,2)
  proof (induction "lr_extra r" arbitrary: fs r)
    case (Cons x xs)
    show ?case
    proof (cases "x = (k, v)")
      case True
      with Cons.prems Cons.hyps(2) [symmetric] have "k \<notin> fst ` set xs" by auto
      with True Cons.hyps(2) [symmetric] show ?thesis by (simp add: keep update_conv')
    next
      case False
      with Cons.prems Cons.hyps(2) [symmetric] Cons.hyps(1) [of "\<lparr>lr_created = 0, lr_level = [], lr_logger = [], lr_message = [], lr_extra = xs, lr_exception = None\<rparr>"]
      show ?thesis by (auto simp: case_prod_beta)
    qed
  qed simp
  with assms(3) show ?thesis
    by (simp add: json_payload_def Let_def update_conv' split: option.splits)
qed

section \<open>Importing the program\<close>

text \<open>
  The modules through which a process comes to run app/tasks/celery_app.py, and for each the
  imports among these, in order. Importing runs a module once: its imports first, then its
  body; the bodies of app/main.py and of app/tasks/celery_app.py register the listeners.
\<close>

datatype app_module =
  Main | Router | AlertsEndpoint | InventoryEndpoint | InventoryCommandModule | AlertModule
| NotificationsTask | AlertsTask | ReportsTask | CeleryApp

primrec module_imports :: "app_module \<Rightarrow> app_module list" where
  "module_imports Main = [Router]"
| "module_imports Router = [AlertsEndpoint, InventoryEndpoint]"
| "module_imports AlertsEndpoint = [AlertModule]"
| "module_imports InventoryEndpoint = [InventoryCommandModule]"
| "module_imports InventoryCommandModule = [AlertModule]"
| "module_imports AlertModule = [NotificationsTask]"
| "module_imports NotificationsTask = [CeleryApp]"
| "module_imports AlertsTask = [AlertModule, CeleryApp]"
| "module_imports ReportsTask = [CeleryApp]"
| "module_imports CeleryApp = []"

definition module_body :: "app_module \<Rightarrow> app_module publisher \<Rightarrow> app_module publisher" where
  "module_body m p = (if m = Main \<or> m = CeleryApp then register_websocket_listeners m p else p)"

fun load :: "nat \<Rightarrow> app_module \<Rightarrow> app_module list \<times> app_module publisher \<Rightarrow> app_module list \<times> app_module publisher" where
  "load 0 m (modules, p) = (modules, p)"
| "load (Suc n) m (modules, p) =
     (if m \<in> set modules then (modules, p)
      else case fold (load n) (module_imports m) (m # modules, p) of
        (modules', p') \<Rightarrow> (modules', module_body m p'))"

text \<open>Ten modules: a chain of imports is no deeper than that.\<close>

definition api_process :: "app_module publisher" where
  "api_process = snd (load 10 Main ([], new_publisher))"

text \<open>A worker imports the Celery application and then the modules of its \<open>include\<close> list.\<close>

definition celery_include :: "app_module list" where
  "celery_include = [AlertsTask, NotificationsTask, ReportsTask]"

definition worker_process :: "app_module publisher" where
  "worker_process = snd (fold (load 10) (CeleryApp # celery_include) ([], new_publisher))"

lemma api_process_registers:
  "api_process = register_websocket_listeners Main (register_websocket_listeners CeleryApp new_publisher)"
  by (simp add: api_process_def numeral_eq_Suc module_body_def)

lemma worker_process_registers: "worker_process = register_websocket_listeners CeleryApp new_publisher"
  by (simp add: worker_process_def celery_include_def numeral_eq_Suc module_body_def)

lemma handlers_of_processes:
  "handlers_of api_process ev = [CeleryApp, Main]" "handlers_of worker_process ev = [CeleryApp]"
  by (simp_all add: api_process_registers worker_process_registers listener_delivered_once)
    (simp_all add: handlers_of_def new_publisher_def)

section \<open>The scheduler\<close>

text \<open>APScheduler is a parameter: the methods of AsyncIOScheduler the module calls.\<close>

record 's scheduler_api =
  get_job :: "string \<Rightarrow> 's \<Rightarrow> bool"
  add_job :: "string \<Rightarrow> int \<Rightarrow> 's \<Rightarrow> 's"
  running :: "'s \<Rightarrow> bool"
  start :: "'s \<Rightarrow> 's"
  shutdown :: "'s \<Rightarrow> 's"

definition HEARTBEAT_INTERVAL_SECONDS :: int where
  "HEARTBEAT_INTERVAL_SECONDS = 30"

definition HEARTBEAT_JOB :: string where
  "HEARTBEAT_JOB = ''websocket_heartbeat''"

definition start_scheduler :: "'s scheduler_api \<Rightarrow> 's \<Rightarrow> 's" where
  "start_scheduler api s =
     (let s1 = (if \<not> get_job api HEARTBEAT_JOB s then add_job api HEARTBEAT_JOB HEARTBEAT_INTERVAL_SECONDS s else s)
      in if \<not> running api s1 then start api s1 else s1)"

definition stop_scheduler :: "'s scheduler_api \<Rightarrow> 's \<Rightarrow> 's" where
  "stop_scheduler api s = (if running api s then shutdown api s else s)"

text \<open>What APScheduler documents of them, with \<open>jobs s\<close> the jobs of a scheduler by id.\<close>

definition scheduler_documented :: "'s scheduler_api \<Rightarrow> ('s \<Rightarrow> (string \<times> int) list) \<Rightarrow> bool" where
  "scheduler_documented api jobs \<longleftrightarrow>
     (\<forall>i s. get_job api i s \<longleftrightarrow> i \<in> fst ` set (jobs s)) \<and>
     (\<forall>i n s. i \<notin> fst ` set (jobs s) \<longrightarrow>
        jobs (add_job api i n s) = jobs s @ [(i, n)] \<and> running api (add_job api i n s) = running api s) \<and>
     (\<forall>s. \<not> running api s \<longrightarrow> jobs (start api s) = jobs s \<and> running api (start api s)) \<and>
     (\<forall>s. running api s \<longrightarrow> \<not> running api (shutdown api s))"

definition heartbeat_jobs :: "(string \<times> int) list \<Rightarrow> int list" where
  "heartbeat_jobs js = map snd (filter (\<lambda>j. fst j = HEARTBEAT_JOB) js)"

lemma start_scheduler_once:
  assumes "scheduler_documented api jobs" and "heartbeat_jobs (jobs s) \<in> {[], [HEARTBEAT_INTERVAL_SECONDS]}"
  shows "heartbeat_jobs (jobs (start_scheduler api s)) = [HEARTBEAT_INTERVAL_SECONDS]"
    and "running api (start_scheduler api s)"
proof -
  have "get_job api HEARTBEAT_JOB s \<longleftrightarrow> heartbeat_jobs (jobs s) \<noteq> []"
  proof -
    have "get_job api HEARTBEAT_JOB s \<longleftrightarrow> HEARTBEAT_JOB \<in> fst ` set (jobs s)"
      using assms(1) unfolding scheduler_documented_def by blast
    moreover have "heartbeat_jobs js \<noteq> [] \<longleftrightarrow> HEARTBEAT_JOB \<in> fst ` set js" for js
      by (induction js) (auto simp: heartbeat_jobs_def)
    ultimately show ?thesis by simp
  qed
  with assms show "heartbeat_jobs (jobs (start_scheduler api s)) = [HEARTBEAT_INTERVAL_SECONDS]"
    and "running api (start_scheduler api s)"
    by (auto simp: start_scheduler_def scheduler_documented_def Let_def heartbeat_jobs_def)
qed

lemma start_scheduler_again:
  assumes "scheduler_documented api jobs"
  shows "start_scheduler api (start_scheduler api s) = start_scheduler api s"
  using assms by (auto simp: start_scheduler_def scheduler_documented_def Let_def)

lemma stop_scheduler_stops: "scheduler_documented api jobs \<Longrightarrow> \<not> running api (stop_scheduler api s)"
  by (simp add: stop_scheduler_def scheduler_documented_def)

section \<open>The lifespan of the API process\<close>

text \<open>
  The relay task ends by itself only with an exception (a lost connection to Redis is not
  caught in its loop).
\<close>

datatype 'e relay_task = NotStarted | Relaying | Failed 'e | Cancelled

record ('s, 'e) process =
  scheduler :: 's
  relay :: "'e relay_task"
  redis_open :: bool

text \<open>
  \<open>serve\<close> is everything between start-up and shutdown. Awaiting the cancelled task raises
  what it had failed with; only CancelledError is suppressed.
\<close>

definition lifespan ::
  "'s scheduler_api \<Rightarrow> (('s, 'e) process, 'e, unit) prog \<Rightarrow> (('s, 'e) process, 'e, unit) prog" where
  "lifespan api serving p =
     (case serving (p\<lparr>relay := Relaying, scheduler := start_scheduler api (scheduler p)\<rparr>) of
        (result, p1) \<Rightarrow>
          let p2 = p1\<lparr>scheduler := stop_scheduler api (scheduler p1)\<rparr>
          in case relay p2 of
               Failed x \<Rightarrow> (Inl x, p2)
             | _ \<Rightarrow> (result, p2\<lparr>relay := Cancelled, redis_open := False\<rparr>))"

section \<open>Celery\<close>

record celery_conf =
  task_serializer :: string
  result_serializer :: string
  accept_content :: "string list"
  celery_timezone :: string
  enable_utc :: bool
  task_track_started :: bool
  task_time_limit :: int
  task_soft_time_limit :: int
  task_acks_late :: bool
  worker_prefetch_multiplier :: int
  result_expires :: int

definition celery_app_conf :: celery_conf where
  "celery_app_conf = \<lparr>task_serializer = ''json'', result_serializer = ''json'', accept_content = [''json''],
     celery_timezone = ''UTC'', enable_utc = True, task_track_started = True, task_time_limit = 300,
     task_soft_time_limit = 240, task_acks_late = True, worker_prefetch_multiplier = 1, result_expires = 3600\<rparr>"

text \<open>The schedule as the minutes of the hour crontab(minute="*/15") names.\<close>

definition beat_schedule :: "(string \<times> nat set) list" where
  "beat_schedule = [(''app.tasks.alerts.check_low_stock_levels'', {m. m < 60 \<and> m mod 15 = 0})]"

section \<open>Small endpoints\<close>

text \<open>\<open>reachable\<close> says whether SELECT 1 succeeds.\<close>

definition health_check :: "bool \<Rightarrow> ('x, (string \<times> string) list) service" where
  "health_check reachable = andthen (if reachable then ret () else raise DatabaseError)
     (\<lambda>_. ret [(''status'', ''ok''), (''database'', ''connected'')])"

definition root_redirect :: string where
  "root_redirect = ''/docs''"

end
