(* ===== verification/Contract.thy ===== *)
theory Contract
  imports Api
begin

text \<open>
  The documented error responses (app/api/v1/responses.py and the \<open>responses=\<close> of each
  route) and the shared schemas (app/schemas/common.py). FastAPI documents the success
  response and the 422 of the validation itself; a route adds the statuses its service
  raises. The lemmas bound the exceptions of every service call, from which the status of
  every response follows.
\<close>

section \<open>Shared schemas\<close>

record error_response =
  er_detail :: string

record pagination_params =
  pp_skip :: int
  pp_limit :: int

definition default_pagination :: pagination_params where
  "default_pagination = \<lparr>pp_skip = 0, pp_limit = 100\<rparr>"

record inventory_threshold_update =
  itu_low_stock_threshold :: int

definition inventory_threshold_update_ok :: "inventory_threshold_update \<Rightarrow> bool" where
  "inventory_threshold_update_ok x \<longleftrightarrow> 0 \<le> itu_low_stock_threshold x"

section \<open>Documented responses\<close>

datatype model = ErrorResponse

record response_doc =
  doc_model :: model
  doc_description :: string

definition NOT_FOUND :: "int \<rightharpoonup> response_doc" where
  "NOT_FOUND = [404 \<mapsto> \<lparr>doc_model = ErrorResponse,
     doc_description = ''The requested resource does not exist.''\<rparr>]"

definition CONFLICT :: "int \<rightharpoonup> response_doc" where
  "CONFLICT = [409 \<mapsto> \<lparr>doc_model = ErrorResponse,
     doc_description = ''The request conflicts with the current state of the resource '' @
       ''(e.g. a duplicate unique field, or an already-resolved alert).''\<rparr>]"

definition INSUFFICIENT_STOCK :: "int \<rightharpoonup> response_doc" where
  "INSUFFICIENT_STOCK = [409 \<mapsto> \<lparr>doc_model = ErrorResponse,
     doc_description = ''The requested stock movement would reduce a warehouse's '' @
       ''quantity below zero.''\<rparr>]"

definition warehouse_responses :: "request \<Rightarrow> int \<rightharpoonup> response_doc" where
  "warehouse_responses req = (case req of
       GetWarehouse i \<Rightarrow> NOT_FOUND
     | CreateWarehouse x \<Rightarrow> CONFLICT
     | UpdateWarehouse i x \<Rightarrow> NOT_FOUND ++ CONFLICT
     | DeactivateWarehouse i \<Rightarrow> NOT_FOUND
     | _ \<Rightarrow> Map.empty)"

definition product_responses :: "request \<Rightarrow> int \<rightharpoonup> response_doc" where
  "product_responses req = (case req of
       GetProduct i \<Rightarrow> NOT_FOUND
     | CreateProduct x \<Rightarrow> CONFLICT
     | UpdateProduct i x \<Rightarrow> NOT_FOUND ++ CONFLICT
     | DeactivateProduct i \<Rightarrow> NOT_FOUND
     | _ \<Rightarrow> Map.empty)"

definition inventory_responses :: "request \<Rightarrow> int \<rightharpoonup> response_doc" where
  "inventory_responses req = (case req of
       GetStockLevel p wh \<Rightarrow> NOT_FOUND
     | RecordMovement x \<Rightarrow> NOT_FOUND ++ INSUFFICIENT_STOCK
     | _ \<Rightarrow> Map.empty)"

definition movement_responses :: "request \<Rightarrow> int \<rightharpoonup> response_doc" where
  "movement_responses req = (case req of GetMovement i \<Rightarrow> NOT_FOUND | _ \<Rightarrow> Map.empty)"

definition alert_responses :: "request \<Rightarrow> int \<rightharpoonup> response_doc" where
  "alert_responses req = (case req of
       GetAlert i \<Rightarrow> NOT_FOUND
     | ResolveAlert i \<Rightarrow> NOT_FOUND ++ CONFLICT
     | _ \<Rightarrow> Map.empty)"

definition documented :: "request \<Rightarrow> int \<rightharpoonup> response_doc" where
  "documented req = warehouse_responses req ++ product_responses req ++ inventory_responses req ++
     movement_responses req ++ alert_responses req"

lemmas documented_defs = documented_def warehouse_responses_def product_responses_def
  inventory_responses_def movement_responses_def alert_responses_def NOT_FOUND_def CONFLICT_def
  INSUFFICIENT_STOCK_def

section \<open>The exceptions of each route\<close>

definition duplicates :: "exc set" where
  "duplicates = range (\<lambda>m. App (ConflictError m))"

fun failures :: "request \<Rightarrow> exc set" where
  "failures (GetWarehouse i) = insert ResponseValidationError no_such_row"
| "failures (GetProduct i) = insert ResponseValidationError no_such_row"
| "failures (ListWarehouses skip limit active_only) = {DatabaseError, ResponseValidationError}"
| "failures (ListProducts skip limit active_only search) = {DatabaseError, ResponseValidationError}"
| "failures (GetMovement i) = no_such_row"
| "failures (GetAlert i) = no_such_row"
| "failures (GetStockLevel p wh) = insert MultipleResultsFound no_such_row"
| "failures (CreateWarehouse x) = insert ResponseValidationError (duplicates \<union> server_faults)"
| "failures (CreateProduct y) = insert ResponseValidationError (duplicates \<union> server_faults)"
| "failures (UpdateWarehouse i u) = insert ResponseValidationError (no_such_row \<union> duplicates \<union> server_faults)"
| "failures (UpdateProduct i v) = insert ResponseValidationError (no_such_row \<union> duplicates \<union> server_faults)"
| "failures (DeactivateWarehouse i) = insert ResponseValidationError (insert DatabaseError no_such_row)"
| "failures (DeactivateProduct i) = insert ResponseValidationError (insert DatabaseError no_such_row)"
| "failures (RecordMovement z) = movement_failures"
| "failures (ResolveAlert i) = insert DatabaseError (no_such_row \<union> duplicates)"
| "failures _ = {DatabaseError}"

lemma failure_mem [simp]:
  "warehouse_conflict c \<in> duplicates" "product_conflict s \<in> duplicates" "already_resolved i \<in> duplicates"
  "DatabaseError \<in> server_faults" "MultipleResultsFound \<in> server_faults"
  by (simp_all add: duplicates_def warehouse_conflict_def product_conflict_def already_resolved_def
      server_faults_def)

lemma raises_only_then_show [raises_rules]:
  assumes f: "raises_only X f" and view: "ResponseValidationError \<in> X \<or> (\<forall>a. view a \<noteq> None)"
  shows "raises_only X (then_show view f)"
proof -
  have "raises_only X (case view a of Some c \<Rightarrow> ret c | None \<Rightarrow> raise ResponseValidationError)" for a
    using view by (cases "view a") (auto simp: raises_only_def dest: spec [of _ a])
  then show ?thesis unfolding then_show_def by (rule raises_only_andthen [OF f])
qed

lemma raises_only_patch [raises_rules]:
  "(x = Unset \<Longrightarrow> raises_only X f) \<Longrightarrow> (x = Null \<Longrightarrow> raises_only X g) \<Longrightarrow>
     (\<And>a. x = Value a \<Longrightarrow> raises_only X (h a)) \<Longrightarrow>
     raises_only X (case x of Unset \<Rightarrow> f | Null \<Rightarrow> g | Value a \<Rightarrow> h a)"
  by (cases x) simp_all

lemmas route_services = list_warehouses_def list_active_warehouses_def get_warehouse_def
  create_warehouse_def update_warehouse_def deactivate_warehouse_def get_by_code_def
  list_products_endpoint_def list_products_def list_active_products_def search_products_def
  search_by_name_def get_product_def create_product_def update_product_def deactivate_product_def
  get_by_sku_def list_inventory_endpoint_def list_warehouse_stock_def list_inventory_by_warehouse_def
  list_low_stock_records_def list_low_stock_def list_all_stock_def get_stock_level_def
  get_by_product_and_warehouse_def record_movement_endpoint_def list_movements_endpoint_def
  list_movements_by_product_def list_movements_by_warehouse_def list_alerts_endpoint_def
  list_active_alerts_def list_active_alert_rows_def list_all_rows_def resolve_alert_def resolve_def

lemma route_raises:
  assumes "request_ok req"
  shows "raises_only (failures req) (route e req)"
  using assms
  by (cases req)
    (simp_all only: route.simps endpoint_defs failures.simps route_services request_ok.simps,
     (intro raises_rules raises_only_record_movement; simp)+)

section \<open>Statuses\<close>

lemma failure_status:
  assumes "x \<in> failures req"
  shows "status_code (handle_exception x) \<in> dom (documented req) \<union> {500}"
    and "status_code (handle_exception x) = 500 \<Longrightarrow> x \<in> insert ResponseValidationError server_faults"
proof -
  have "status_code (handle_exception x) \<in> dom (documented req) \<union> {500} \<and>
    (status_code (handle_exception x) = 500 \<longrightarrow> x \<in> insert ResponseValidationError server_faults)"
    using assms
    by (cases req) (auto simp: no_such_row_def stock_shortage_def duplicates_def server_faults_def
        movement_failures_def documented_defs)
  then show "status_code (handle_exception x) \<in> dom (documented req) \<union> {500}"
    and "status_code (handle_exception x) = 500 \<Longrightarrow> x \<in> insert ResponseValidationError server_faults" by blast+
qed

text \<open>A route that returns shows a resource, not an error; the success status is no error's.\<close>

lemma then_show_content: "then_show view f w = (Inr c, w') \<Longrightarrow> \<exists>a. view a = Some c"
  by (auto simp: then_show_def andthen_eq_Inr split: option.splits)

lemma route_content: "route e req w = (Inr c, w') \<Longrightarrow> c \<noteq> ErrorBody d"
  by (cases req) (auto dest!: then_show_content)

lemma success_status_cases: "success_status req \<in> {200, 201}"
  by (cases req) simp_all

lemma documented_errors: "dom (documented req) \<subseteq> {404, 409}"
  by (cases req) (auto simp: documented_defs)

text \<open>
  Reading one resource by its primary key fails inside the server only on a row its read
  model refuses.
\<close>

fun reads_by_id :: "request \<Rightarrow> bool" where
  "reads_by_id (GetWarehouse i) = True" | "reads_by_id (GetProduct i) = True"
| "reads_by_id (GetMovement i) = True" | "reads_by_id (GetAlert i) = True"
| "reads_by_id _ = False"

lemma read_failure:
  assumes "reads_by_id req" and "route e req w = (Inl x, w')" and "rows_readable (work w)"
  shows "x \<in> no_such_row"
  using assms
  by (cases req)
    (auto dest!: then_show_failed find_SomeD simp: get_warehouse_def get_product_def get_by_id_or_raise_run
      rows_readable_def table_defs split: option.splits)

lemma serve_refused: "\<not> request_ok req \<Longrightarrow> serve e req w = (\<lparr>resp_status = 422, resp_content = ErrorBody ''validation''\<rparr>, w)"
  by (simp add: serve_def)

lemma serve_statuses:
  assumes ok: "request_ok req"
  shows "resp_status (fst (serve e req w)) \<in> {success_status req} \<union> dom (documented req) \<union>
      (if reads_by_id req \<and> rows_readable (committed w) then {} else {500})"
    and "resp_status (fst (serve e req w)) = success_status req \<longleftrightarrow>
      (\<forall>d. resp_content (fst (serve e req w)) \<noteq> ErrorBody d)"
proof -
  let ?allowed = "{success_status req} \<union> dom (documented req) \<union>
      (if reads_by_id req \<and> rows_readable (committed w) then {} else {500})"
  obtain r w' where run: "route e req (begin_session e w) = (r, w')" by fastforce
  have "resp_status (fst (serve e req w)) \<in> ?allowed \<and>
    (resp_status (fst (serve e req w)) = success_status req \<longleftrightarrow>
      (\<forall>d. resp_content (fst (serve e req w)) \<noteq> ErrorBody d))"
  proof (cases r)
    case (Inr c)
    with run have "serve e req w = (\<lparr>resp_status = success_status req, resp_content = c\<rparr>, close_session w')"
      using ok by (simp add: serve_def get_db_def)
    moreover have "c \<noteq> ErrorBody d" for d using run unfolding Inr by (rule route_content)
    ultimately show ?thesis by simp
  next
    case (Inl x)
    have x: "x \<in> failures req" using route_raises [OF ok] run Inl by (auto dest: raises_onlyD)
    have st: "serve e req w = (\<lparr>resp_status = status_code (handle_exception x),
        resp_content = ErrorBody (detail (handle_exception x))\<rparr>, close_session w')"
      using ok run Inl by (simp add: serve_def get_db_def)
    have "status_code (handle_exception x) \<noteq> 500" if "reads_by_id req \<and> rows_readable (committed w)"
      using read_failure [of req e "begin_session e w" x w'] that run Inl by (auto simp: no_such_row_def)
    moreover note failure_status(1) [OF x] documented_errors [of req] success_status_cases [of req]
    ultimately show ?thesis unfolding st by auto
  qed
  then show "resp_status (fst (serve e req w)) \<in> ?allowed"
    and "resp_status (fst (serve e req w)) = success_status req \<longleftrightarrow>
      (\<forall>d. resp_content (fst (serve e req w)) \<noteq> ErrorBody d)" by blast+
qed

text \<open>Which reads by id are a 500.\<close>

lemma read_by_id_status:
  "reads_by_id req \<longrightarrow> (resp_status (fst (serve e req w)) = 500) =
     (case req of
        GetWarehouse i \<Rightarrow> \<exists>r. find (\<lambda>r. entity_id r = i) (warehouses (committed w)) = Some r \<and> \<not> warehouse_fields_ok r
      | GetProduct i \<Rightarrow> \<exists>r. find (\<lambda>r. entity_id r = i) (products (committed w)) = Some r \<and> \<not> product_fields_ok r
      | _ \<Rightarrow> False)"
  by (cases req)
    (auto simp: serve_def get_db_def then_show_def andthen_def get_warehouse_def get_product_def
      get_by_id_or_raise_run not_found_def table_defs split: option.splits)

end
