(* ===== verification/Migration.thy ===== *)
theory Migration
  imports Models
begin

text \<open>
  The database schema as it is made (migrations/versions) and as the ORM declares it
  (app/models): the operations of \<open>upgrade\<close> and \<open>downgrade\<close> as values, what PostgreSQL does
  with each, the metadata of the declarative models, and what a schema refuses to store.

  The last section connects the two views of the stored rows: the rows of \<open>db\<close> as columns
  and values, and the predicate \<open>constraints\<close> as the check of the migrated schema.
\<close>

section \<open>Declarations\<close>

datatype sql_type =
    String nat | Numeric nat nat | Boolean | UUID | DateTime | Integer | Enum "string list" string

record column =
  col_name :: string
  col_type :: sql_type
  col_nullable :: bool
  col_default :: "string option"

record foreign_key =
  fk_column :: string
  fk_table :: string
  fk_refers :: string

record table_decl =
  tb_name :: string
  tb_columns :: "column list"
  tb_primary_key :: "string list"
  tb_foreign_keys :: "foreign_key list"
  tb_uniques :: "(string \<times> string list) list"

record index_decl =
  ix_name :: string
  ix_table :: string
  ix_columns :: "string list"
  ix_unique :: bool

datatype ddl =
    create_table table_decl
  | create_index index_decl
  | drop_index string string
  | drop_table string

definition Column :: "string \<Rightarrow> sql_type \<Rightarrow> bool \<Rightarrow> column" where
  "Column n t nullable = \<lparr>col_name = n, col_type = t, col_nullable = nullable, col_default = None\<rparr>"

definition ForeignKey :: "string \<Rightarrow> string \<Rightarrow> string \<Rightarrow> foreign_key" where
  "ForeignKey c t r = \<lparr>fk_column = c, fk_table = t, fk_refers = r\<rparr>"

definition id_and_timestamps :: "column list" where
  "id_and_timestamps =
     [Column ''id'' UUID False,
      (Column ''created_at'' DateTime False)\<lparr>col_default := Some ''now()''\<rparr>,
      (Column ''updated_at'' DateTime False)\<lparr>col_default := Some ''now()''\<rparr>]"

definition unique_index :: "string \<Rightarrow> string \<Rightarrow> string \<Rightarrow> ddl" where
  "unique_index n t c = create_index \<lparr>ix_name = n, ix_table = t, ix_columns = [c], ix_unique = True\<rparr>"

section \<open>The initial revision\<close>

definition create_products :: ddl where
  "create_products = create_table \<lparr>tb_name = ''products'', tb_columns =
     [Column ''sku'' (String 50) False, Column ''name'' (String 255) False,
      Column ''description'' (String 2000) True, Column ''price'' (Numeric 12 2) False,
      Column ''is_active'' Boolean False] @ id_and_timestamps,
     tb_primary_key = [''id''], tb_foreign_keys = [], tb_uniques = []\<rparr>"

definition create_users :: ddl where
  "create_users = create_table \<lparr>tb_name = ''users'', tb_columns =
     [Column ''email'' (String 255) False, Column ''hashed_password'' (String 255) False,
      Column ''full_name'' (String 255) True, Column ''is_active'' Boolean False,
      Column ''is_superuser'' Boolean False] @ id_and_timestamps,
     tb_primary_key = [''id''], tb_foreign_keys = [], tb_uniques = []\<rparr>"

definition create_warehouses :: ddl where
  "create_warehouses = create_table \<lparr>tb_name = ''warehouses'', tb_columns =
     [Column ''name'' (String 255) False, Column ''code'' (String 20) False,
      Column ''address'' (String 500) True, Column ''is_active'' Boolean False] @ id_and_timestamps,
     tb_primary_key = [''id''], tb_foreign_keys = [], tb_uniques = []\<rparr>"

definition create_alerts :: ddl where
  "create_alerts = create_table \<lparr>tb_name = ''alerts'', tb_columns =
     [Column ''product_id'' UUID False, Column ''warehouse_id'' UUID False,
      Column ''alert_type'' (Enum [''LOW_STOCK'', ''OUT_OF_STOCK''] ''alert_type'') False,
      Column ''status'' (Enum [''ACTIVE'', ''RESOLVED''] ''alert_status'') False,
      Column ''threshold'' Integer False, Column ''quantity_at_trigger'' Integer False,
      Column ''resolved_at'' DateTime True] @ id_and_timestamps,
     tb_primary_key = [''id''],
     tb_foreign_keys = [ForeignKey ''product_id'' ''products'' ''id'',
       ForeignKey ''warehouse_id'' ''warehouses'' ''id''], tb_uniques = []\<rparr>"

definition create_inventories :: ddl where
  "create_inventories = create_table \<lparr>tb_name = ''inventories'', tb_columns =
     [Column ''product_id'' UUID False, Column ''warehouse_id'' UUID False,
      Column ''quantity'' Integer False, Column ''low_stock_threshold'' Integer True] @ id_and_timestamps,
     tb_primary_key = [''id''],
     tb_foreign_keys = [ForeignKey ''product_id'' ''products'' ''id'',
       ForeignKey ''warehouse_id'' ''warehouses'' ''id''],
     tb_uniques = [(''uq_inventory_product_warehouse'', [''product_id'', ''warehouse_id''])]\<rparr>"

definition create_movements :: ddl where
  "create_movements = create_table \<lparr>tb_name = ''movements'', tb_columns =
     [Column ''product_id'' UUID False,
      Column ''movement_type'' (Enum [''IN'', ''OUT'', ''TRANSFER''] ''movement_type'') False,
      Column ''quantity'' Integer False, Column ''source_warehouse_id'' UUID True,
      Column ''destination_warehouse_id'' UUID True, Column ''reason'' (String 500) True,
      Column ''performed_by'' UUID True] @ id_and_timestamps,
     tb_primary_key = [''id''],
     tb_foreign_keys = [ForeignKey ''destination_warehouse_id'' ''warehouses'' ''id'',
       ForeignKey ''product_id'' ''products'' ''id'',
       ForeignKey ''source_warehouse_id'' ''warehouses'' ''id''], tb_uniques = []\<rparr>"

definition upgrade :: "ddl list" where
  "upgrade =
     [create_products, unique_index ''ix_products_sku'' ''products'' ''sku'',
      create_users, unique_index ''ix_users_email'' ''users'' ''email'',
      create_warehouses, unique_index ''ix_warehouses_code'' ''warehouses'' ''code'',
      create_alerts, create_inventories, create_movements]"

definition downgrade :: "ddl list" where
  "downgrade =
     [drop_table ''movements'', drop_table ''inventories'', drop_table ''alerts'',
      drop_index ''ix_warehouses_code'' ''warehouses'', drop_table ''warehouses'',
      drop_index ''ix_users_email'' ''users'', drop_table ''users'',
      drop_index ''ix_products_sku'' ''products'', drop_table ''products'']"

section \<open>Executing DDL\<close>

text \<open>
  A schema holds tables, indexes and named types. \<open>CREATE TABLE\<close> through Alembic first
  creates the types of the enum columns, without looking whether they exist; the referenced
  tables must exist. \<open>DROP TABLE\<close> is refused while another table refers to it, and takes the
  table's indexes along; as the operation is given only a name, it drops no type.
\<close>

record catalog =
  cat_tables :: "table_decl list"
  cat_indexes :: "index_decl list"
  cat_types :: "(string \<times> string list) list"

definition empty_catalog :: catalog where
  "empty_catalog = \<lparr>cat_tables = [], cat_indexes = [], cat_types = []\<rparr>"

datatype ddl_error =
    DuplicateTable string
  | DuplicateObject string
  | UndefinedTable string
  | UndefinedObject string
  | DependentObjectsStillExist string

definition table_names :: "catalog \<Rightarrow> string list" where
  "table_names c = map tb_name (cat_tables c)"

definition relation_names :: "catalog \<Rightarrow> string list" where
  "relation_names c = table_names c @ map ix_name (cat_indexes c)"

fun create_types :: "column list \<Rightarrow> catalog \<Rightarrow> ddl_error + catalog" where
  "create_types [] c = Inr c"
| "create_types (x # xs) c = (case col_type x of
     Enum ls n \<Rightarrow> if n \<in> fst ` set (cat_types c) then Inl (DuplicateObject n)
       else create_types xs (c\<lparr>cat_types := cat_types c @ [(n, ls)]\<rparr>)
   | _ \<Rightarrow> create_types xs c)"

fun run_ddl :: "ddl \<Rightarrow> catalog \<Rightarrow> ddl_error + catalog" where
  "run_ddl (create_table t) c = (case create_types (tb_columns t) c of
     Inl e \<Rightarrow> Inl e
   | Inr c' \<Rightarrow>
       if tb_name t \<in> set (relation_names c) then Inl (DuplicateTable (tb_name t))
       else (case filter (\<lambda>f. fk_table f \<noteq> tb_name t \<and> fk_table f \<notin> set (table_names c)) (tb_foreign_keys t) of
           f # _ \<Rightarrow> Inl (UndefinedTable (fk_table f))
         | [] \<Rightarrow> Inr (c'\<lparr>cat_tables := cat_tables c' @ [t]\<rparr>)))"
| "run_ddl (create_index x) c =
     (if ix_table x \<notin> set (table_names c) then Inl (UndefinedTable (ix_table x))
      else if ix_name x \<in> set (relation_names c) then Inl (DuplicateTable (ix_name x))
      else Inr (c\<lparr>cat_indexes := cat_indexes c @ [x]\<rparr>))"
| "run_ddl (drop_index n t) c =
     (if n \<notin> ix_name ` set (cat_indexes c) then Inl (UndefinedObject n)
      else Inr (c\<lparr>cat_indexes := filter (\<lambda>x. ix_name x \<noteq> n) (cat_indexes c)\<rparr>))"
| "run_ddl (drop_table n) c =
     (if n \<notin> set (table_names c) then Inl (UndefinedTable n)
      else if \<exists>t \<in> set (cat_tables c). tb_name t \<noteq> n \<and> n \<in> fk_table ` set (tb_foreign_keys t)
        then Inl (DependentObjectsStillExist n)
      else Inr (c\<lparr>cat_tables := filter (\<lambda>t. tb_name t \<noteq> n) (cat_tables c),
                  cat_indexes := filter (\<lambda>x. ix_table x \<noteq> n) (cat_indexes c)\<rparr>))"

fun run_script :: "ddl list \<Rightarrow> catalog \<Rightarrow> ddl_error + catalog" where
  "run_script [] c = Inr c"
| "run_script (x # xs) c = (case run_ddl x c of Inl e \<Rightarrow> Inl e | Inr c' \<Rightarrow> run_script xs c')"

lemma run_script_append:
  "run_script (xs @ ys) c = (case run_script xs c of Inl e \<Rightarrow> Inl e | Inr c' \<Rightarrow> run_script ys c')"
  by (induction xs arbitrary: c) (auto split: sum.splits)

section \<open>The metadata of the models\<close>

text \<open>
  A mapped_column: its type, nullability, flags and foreign key. BaseModel adds id,
  created_at and updated_at. A column that is \<open>unique\<close> and \<open>index\<close> becomes one unique index
  with SQLAlchemy's default name; \<open>unique\<close> alone would become a constraint of the table.
\<close>

record mapped_column =
  mp_name :: string
  mp_type :: sql_type
  mp_nullable :: bool
  mp_unique :: bool
  mp_index :: bool
  mp_primary_key :: bool
  mp_foreign_key :: "(string \<times> string) option"
  mp_server_default :: "string option"

record orm_model =
  tablename :: string
  mapped :: "mapped_column list"
  table_args :: "(string \<times> string list) list"

definition plain :: "string \<Rightarrow> sql_type \<Rightarrow> bool \<Rightarrow> mapped_column" where
  "plain n t nullable = \<lparr>mp_name = n, mp_type = t, mp_nullable = nullable, mp_unique = False,
     mp_index = False, mp_primary_key = False, mp_foreign_key = None, mp_server_default = None\<rparr>"

definition natural_key :: "string \<Rightarrow> sql_type \<Rightarrow> mapped_column" where
  "natural_key n t = (plain n t False)\<lparr>mp_unique := True, mp_index := True\<rparr>"

definition reference :: "string \<Rightarrow> string \<Rightarrow> bool \<Rightarrow> mapped_column" where
  "reference n t nullable = (plain n UUID nullable)\<lparr>mp_foreign_key := Some (t, ''id'')\<rparr>"

definition BaseModel :: "mapped_column list" where
  "BaseModel = [(plain ''id'' UUID False)\<lparr>mp_primary_key := True\<rparr>,
     (plain ''created_at'' DateTime False)\<lparr>mp_server_default := Some ''now()''\<rparr>,
     (plain ''updated_at'' DateTime False)\<lparr>mp_server_default := Some ''now()''\<rparr>]"

definition Warehouse :: orm_model where
  "Warehouse = \<lparr>tablename = ''warehouses'', mapped = BaseModel @
     [plain ''name'' (String 255) False, natural_key ''code'' (String 20),
      plain ''address'' (String 500) True, plain ''is_active'' Boolean False], table_args = []\<rparr>"

definition Product :: orm_model where
  "Product = \<lparr>tablename = ''products'', mapped = BaseModel @
     [natural_key ''sku'' (String 50), plain ''name'' (String 255) False,
      plain ''description'' (String 2000) True, plain ''price'' (Numeric 12 2) False,
      plain ''is_active'' Boolean False], table_args = []\<rparr>"

definition User :: orm_model where
  "User = \<lparr>tablename = ''users'', mapped = BaseModel @
     [natural_key ''email'' (String 255), plain ''hashed_password'' (String 255) False,
      plain ''full_name'' (String 255) True, plain ''is_active'' Boolean False,
      plain ''is_superuser'' Boolean False], table_args = []\<rparr>"

definition Inventory :: orm_model where
  "Inventory = \<lparr>tablename = ''inventories'', mapped = BaseModel @
     [reference ''product_id'' ''products'' False, reference ''warehouse_id'' ''warehouses'' False,
      plain ''quantity'' Integer False, plain ''low_stock_threshold'' Integer True],
     table_args = [(''uq_inventory_product_warehouse'', [''product_id'', ''warehouse_id''])]\<rparr>"

text \<open>\<open>sqlalchemy.Enum(cls)\<close> stores the names of the members.\<close>

definition Alert :: orm_model where
  "Alert = \<lparr>tablename = ''alerts'', mapped = BaseModel @
     [reference ''product_id'' ''products'' False, reference ''warehouse_id'' ''warehouses'' False,
      plain ''alert_type'' (Enum [''LOW_STOCK'', ''OUT_OF_STOCK''] ''alert_type'') False,
      plain ''status'' (Enum [''ACTIVE'', ''RESOLVED''] ''alert_status'') False,
      plain ''threshold'' Integer False, plain ''quantity_at_trigger'' Integer False,
      plain ''resolved_at'' DateTime True], table_args = []\<rparr>"

definition Movement :: orm_model where
  "Movement = \<lparr>tablename = ''movements'', mapped = BaseModel @
     [reference ''product_id'' ''products'' False,
      plain ''movement_type'' (Enum [''IN'', ''OUT'', ''TRANSFER''] ''movement_type'') False,
      plain ''quantity'' Integer False, reference ''source_warehouse_id'' ''warehouses'' True,
      reference ''destination_warehouse_id'' ''warehouses'' True,
      plain ''reason'' (String 500) True, plain ''performed_by'' UUID True], table_args = []\<rparr>"

definition metadata :: "orm_model list" where
  "metadata = [Alert, Inventory, Movement, Product, User, Warehouse]"

definition declared_column :: "mapped_column \<Rightarrow> column" where
  "declared_column m = \<lparr>col_name = mp_name m, col_type = mp_type m,
     col_nullable = mp_nullable m, col_default = mp_server_default m\<rparr>"

definition declared_table :: "orm_model \<Rightarrow> table_decl" where
  "declared_table m = \<lparr>tb_name = tablename m, tb_columns = map declared_column (mapped m),
     tb_primary_key = map mp_name (filter mp_primary_key (mapped m)),
     tb_foreign_keys = concat (map (\<lambda>c. case mp_foreign_key c of
         None \<Rightarrow> [] | Some (t, r) \<Rightarrow> [ForeignKey (mp_name c) t r]) (mapped m)),
     tb_uniques = table_args m @
       map (\<lambda>c. ([], [mp_name c])) (filter (\<lambda>c. mp_unique c \<and> \<not> mp_index c) (mapped m))\<rparr>"

definition declared_indexes :: "orm_model \<Rightarrow> index_decl list" where
  "declared_indexes m = map (\<lambda>c. \<lparr>ix_name = ''ix_'' @ tablename m @ ''_'' @ mp_name c,
       ix_table = tablename m, ix_columns = [mp_name c], ix_unique = mp_unique c\<rparr>)
     (filter mp_index (mapped m))"

text \<open>A schema is in step with the models: the same tables, columns, keys and indexes.\<close>

definition same_table :: "table_decl \<Rightarrow> table_decl \<Rightarrow> bool" where
  "same_table t u \<longleftrightarrow> tb_name t = tb_name u \<and> mset (tb_columns t) = mset (tb_columns u) \<and>
     tb_primary_key t = tb_primary_key u \<and> mset (tb_foreign_keys t) = mset (tb_foreign_keys u) \<and>
     mset (tb_uniques t) = mset (tb_uniques u)"

definition in_step :: "catalog \<Rightarrow> orm_model list \<Rightarrow> bool" where
  "in_step c ms \<longleftrightarrow> length (cat_tables c) = length ms \<and> distinct (table_names c) \<and>
     (\<forall>m \<in> set ms. \<exists>t \<in> set (cat_tables c). same_table t (declared_table m)) \<and>
     mset (cat_indexes c) = mset (concat (map declared_indexes ms))"

section \<open>What a schema stores\<close>

text \<open>
  A stored row gives each column a value. \<open>fits\<close> is the range of a type (a Numeric value
  counts units of its scale; text holds no NUL), \<open>table_accepts\<close> the checks of a table on its
  rows, given the rows of the other tables: NOT NULL, the types, the primary key, unique
  constraints and indexes, and foreign keys (a null refers to nothing).
\<close>

datatype sql_value =
    VNull | VUuid uuid | VStr string | VNum int | VInt int | VBool bool | VTime int | VLabel string

type_synonym stored_row = "string \<Rightarrow> sql_value"

fun fits :: "sql_type \<Rightarrow> sql_value \<Rightarrow> bool" where
  "fits (String n) (VStr s) = varchar n s"
| "fits (Numeric p s) (VNum c) = (\<bar>c\<bar> < 10 ^ p)"
| "fits Boolean (VBool b) = True"
| "fits UUID (VUuid i) = True"
| "fits DateTime (VTime t) = True"
| "fits Integer (VInt i) = int4 i"
| "fits (Enum ls n) (VLabel l) = (l \<in> set ls)"
| "fits _ _ = False"

definition column_accepts :: "column \<Rightarrow> sql_value \<Rightarrow> bool" where
  "column_accepts c v \<longleftrightarrow> (if v = VNull then col_nullable c else fits (col_type c) v)"

definition key_values :: "string list \<Rightarrow> stored_row \<Rightarrow> sql_value list" where
  "key_values cs r = map r cs"

definition fk_accepts :: "(string \<Rightarrow> stored_row list) \<Rightarrow> foreign_key \<Rightarrow> stored_row \<Rightarrow> bool" where
  "fk_accepts content f r \<longleftrightarrow> r (fk_column f) = VNull \<or>
     r (fk_column f) \<in> set (map (\<lambda>s. s (fk_refers f)) (content (fk_table f)))"

definition table_accepts :: "(string \<Rightarrow> stored_row list) \<Rightarrow> table_decl \<Rightarrow> bool" where
  "table_accepts content t \<longleftrightarrow>
     distinct (map (key_values (tb_primary_key t)) (content (tb_name t))) \<and>
     list_all (\<lambda>u. distinct (map (key_values (snd u)) (content (tb_name t)))) (tb_uniques t) \<and>
     list_all (\<lambda>r. list_all (\<lambda>c. column_accepts c (r (col_name c))) (tb_columns t) \<and>
       list_all (\<lambda>f. fk_accepts content f r) (tb_foreign_keys t)) (content (tb_name t))"

definition index_accepts :: "(string \<Rightarrow> stored_row list) \<Rightarrow> index_decl \<Rightarrow> bool" where
  "index_accepts content x \<longleftrightarrow>
     (ix_unique x \<longrightarrow> distinct (map (key_values (ix_columns x)) (content (ix_table x))))"

definition accepts :: "catalog \<Rightarrow> (string \<Rightarrow> stored_row list) \<Rightarrow> bool" where
  "accepts c content \<longleftrightarrow> list_all (table_accepts content) (cat_tables c) \<and>
     list_all (index_accepts content) (cat_indexes c)"

text \<open>The rows of \<open>db\<close> as stored rows.\<close>

definition nullable :: "('a \<Rightarrow> sql_value) \<Rightarrow> 'a option \<Rightarrow> sql_value" where
  "nullable v x = (case x of None \<Rightarrow> VNull | Some a \<Rightarrow> v a)"

definition columns :: "'r base_model_scheme \<Rightarrow> (string \<times> sql_value) list \<Rightarrow> stored_row" where
  "columns r own = (\<lambda>c. case map_of ([(''id'', VUuid (entity_id r)), (''created_at'', VTime (created_at r)),
     (''updated_at'', VTime (updated_at r))] @ own) c of None \<Rightarrow> VNull | Some v \<Rightarrow> v)"

definition stored_product :: "product \<Rightarrow> stored_row" where
  "stored_product r = columns r
     [(''sku'', VStr (prod_sku r)), (''name'', VStr (prod_name r)),
      (''description'', nullable VStr (prod_description r)), (''price'', VNum (prod_price r)),
      (''is_active'', VBool (prod_is_active r))]"

definition stored_user :: "user \<Rightarrow> stored_row" where
  "stored_user r = columns r
     [(''email'', VStr (us_email r)), (''hashed_password'', VStr (us_hashed_password r)),
      (''full_name'', nullable VStr (us_full_name r)), (''is_active'', VBool (us_is_active r)),
      (''is_superuser'', VBool (us_is_superuser r))]"

definition stored_warehouse :: "warehouse \<Rightarrow> stored_row" where
  "stored_warehouse r = columns r
     [(''name'', VStr (wh_name r)), (''code'', VStr (wh_code r)),
      (''address'', nullable VStr (wh_address r)), (''is_active'', VBool (wh_is_active r))]"

primrec alert_type_name :: "alert_type \<Rightarrow> string" where
  "alert_type_name LOW_STOCK = ''LOW_STOCK''" | "alert_type_name OUT_OF_STOCK = ''OUT_OF_STOCK''"

primrec alert_status_name :: "alert_status \<Rightarrow> string" where
  "alert_status_name ACTIVE = ''ACTIVE''" | "alert_status_name RESOLVED = ''RESOLVED''"

primrec movement_type_name :: "movement_type \<Rightarrow> string" where
  "movement_type_name IN = ''IN''" | "movement_type_name OUT = ''OUT''"
| "movement_type_name TRANSFER = ''TRANSFER''"

definition stored_alert :: "alert \<Rightarrow> stored_row" where
  "stored_alert r = columns r
     [(''product_id'', VUuid (al_product_id r)), (''warehouse_id'', VUuid (al_warehouse_id r)),
      (''alert_type'', VLabel (alert_type_name (al_alert_type r))),
      (''status'', VLabel (alert_status_name (al_status r))), (''threshold'', VInt (al_threshold r)),
      (''quantity_at_trigger'', VInt (al_quantity_at_trigger r)),
      (''resolved_at'', nullable VTime (al_resolved_at r))]"

definition stored_inventory :: "inventory \<Rightarrow> stored_row" where
  "stored_inventory r = columns r
     [(''product_id'', VUuid (inv_product_id r)), (''warehouse_id'', VUuid (inv_warehouse_id r)),
      (''quantity'', VInt (inv_quantity r)),
      (''low_stock_threshold'', nullable VInt (inv_low_stock_threshold r))]"

definition stored_movement :: "movement \<Rightarrow> stored_row" where
  "stored_movement r = columns r
     [(''product_id'', VUuid (mov_product_id r)),
      (''movement_type'', VLabel (movement_type_name (mov_type r))),
      (''quantity'', VInt (mov_quantity r)),
      (''source_warehouse_id'', nullable VUuid (mov_source_warehouse_id r)),
      (''destination_warehouse_id'', nullable VUuid (mov_destination_warehouse_id r)),
      (''reason'', nullable VStr (mov_reason r)), (''performed_by'', nullable VUuid (mov_performed_by r))]"

definition stored :: "db \<Rightarrow> string \<Rightarrow> stored_row list" where
  "stored d t =
     (if t = ''products'' then map stored_product (products d)
      else if t = ''users'' then map stored_user (users d)
      else if t = ''warehouses'' then map stored_warehouse (warehouses d)
      else if t = ''alerts'' then map stored_alert (alerts d)
      else if t = ''inventories'' then map stored_inventory (inventories d)
      else if t = ''movements'' then map stored_movement (movements d) else [])"

section \<open>The migrated schema\<close>

lemmas initial_tables = create_products_def create_users_def create_warehouses_def
  create_alerts_def create_inventories_def create_movements_def unique_index_def

definition decl :: "ddl \<Rightarrow> table_decl list" where
  "decl x = (case x of create_table t \<Rightarrow> [t] | _ \<Rightarrow> [])"

definition migrated :: catalog where
  "migrated = \<lparr>cat_tables = concat (map decl upgrade),
     cat_indexes = [\<lparr>ix_name = ''ix_products_sku'', ix_table = ''products'', ix_columns = [''sku''], ix_unique = True\<rparr>,
       \<lparr>ix_name = ''ix_users_email'', ix_table = ''users'', ix_columns = [''email''], ix_unique = True\<rparr>,
       \<lparr>ix_name = ''ix_warehouses_code'', ix_table = ''warehouses'', ix_columns = [''code''], ix_unique = True\<rparr>],
     cat_types = [(''alert_type'', [''LOW_STOCK'', ''OUT_OF_STOCK'']),
       (''alert_status'', [''ACTIVE'', ''RESOLVED'']), (''movement_type'', [''IN'', ''OUT'', ''TRANSFER''])]\<rparr>"

lemma upgrade_run: "run_script upgrade empty_catalog = Inr migrated"
  by code_simp

lemma downgrade_run:
  "run_script downgrade migrated = Inr (empty_catalog\<lparr>cat_types := cat_types migrated\<rparr>)"
  by code_simp

lemma second_upgrade_run:
  "run_script upgrade (empty_catalog\<lparr>cat_types := cat_types migrated\<rparr>) = Inl (DuplicateObject ''alert_type'')"
  by code_simp

lemma migrated_in_step: "in_step migrated metadata"
  by code_simp

section \<open>The constraints are those of the migrated schema\<close>

lemma distinct_map_inj: "inj g \<Longrightarrow> distinct (map (\<lambda>r. g (f r)) xs) \<longleftrightarrow> distinct (map f xs)"
  by (induction xs) (auto simp: inj_eq image_iff)

lemma distinct_keys [simp]:
  "distinct (map (\<lambda>r. [VUuid (f r)]) xs) \<longleftrightarrow> distinct (map f xs)"
  "distinct (map (\<lambda>r. [VStr (g r)]) xs) \<longleftrightarrow> distinct (map g xs)"
  "distinct (map (\<lambda>r. [VUuid (h r), VUuid (k r)]) xs) \<longleftrightarrow> distinct (map (\<lambda>r. (h r, k r)) xs)"
  by (rule distinct_map_inj [of "\<lambda>i. [VUuid i]"] distinct_map_inj [of "\<lambda>s. [VStr s]"]
      distinct_map_inj [of "\<lambda>(i, j). [VUuid i, VUuid j]" "\<lambda>r. (h r, k r)", unfolded split_def fst_conv snd_conv];
      simp add: inj_def)+

lemma labels:
  "alert_type_name k \<in> {''LOW_STOCK'', ''OUT_OF_STOCK''}"
  "alert_status_name st \<in> {''ACTIVE'', ''RESOLVED''}"
  "movement_type_name m \<in> {''IN'', ''OUT'', ''TRANSFER''}"
proof -
  show "alert_type_name k \<in> {''LOW_STOCK'', ''OUT_OF_STOCK''}" by (cases k) simp_all
  show "alert_status_name st \<in> {''ACTIVE'', ''RESOLVED''}" by (cases st) simp_all
  show "movement_type_name m \<in> {''IN'', ''OUT'', ''TRANSFER''}" by (cases m) simp_all
qed

lemma column_accepts_simps [simp]:
  "column_accepts (Column n (String k) b) (VStr s) \<longleftrightarrow> varchar k s"
  "column_accepts (Column n (Numeric p q) b) (VNum c) \<longleftrightarrow> \<bar>c\<bar> < 10 ^ p"
  "column_accepts (Column n Boolean b) (VBool x)" "column_accepts (Column n UUID b) (VUuid u)"
  "column_accepts (Column n DateTime b) (VTime t)"
  "column_accepts (Column n Integer b) (VInt i) \<longleftrightarrow> int4 i"
  "column_accepts (Column n (String k) True) (nullable VStr ss) \<longleftrightarrow> opt_ok (varchar k) ss"
  "column_accepts (Column n Integer True) (nullable VInt ii) \<longleftrightarrow> opt_ok int4 ii"
  "column_accepts (Column n DateTime True) (nullable VTime tt)"
  "column_accepts (Column n UUID True) (nullable VUuid uu)"
  "column_accepts (c'\<lparr>col_default := d\<rparr>) v = column_accepts c' v"
  "column_accepts (Column n (Enum [''LOW_STOCK'', ''OUT_OF_STOCK''] m) b) (VLabel (alert_type_name a))"
  "column_accepts (Column n (Enum [''ACTIVE'', ''RESOLVED''] m) b) (VLabel (alert_status_name st))"
  "column_accepts (Column n (Enum [''IN'', ''OUT'', ''TRANSFER''] m) b) (VLabel (movement_type_name mt))"
  using labels(1) [of a] labels(2) [of st] labels(3) [of mt]
  by (auto simp: column_accepts_def Column_def nullable_def split: option.splits)

lemma col_name_Column [simp]: "col_name (Column n t b) = n"
  by (simp add: Column_def)

lemma nullable_reference [simp]:
  "nullable VUuid x = VNull \<or> nullable VUuid x \<in> (\<lambda>r. VUuid (f r)) ` X \<longleftrightarrow> opt_ok (\<lambda>i. i \<in> f ` X) x"
  by (cases x) (auto simp: nullable_def)

lemmas stored_row_defs = stored_product_def stored_user_def stored_warehouse_def stored_alert_def
  stored_inventory_def stored_movement_def columns_def

lemma stored_ids [simp]:
  "stored_product r ''id'' = VUuid (entity_id r)" "stored_user u ''id'' = VUuid (entity_id u)"
  "stored_warehouse h ''id'' = VUuid (entity_id h)" "stored_alert a ''id'' = VUuid (entity_id a)"
  "stored_inventory i ''id'' = VUuid (entity_id i)" "stored_movement m ''id'' = VUuid (entity_id m)"
  by (simp_all add: stored_row_defs)

lemma stored_tables [simp]:
  "stored d ''products'' = map stored_product (products d)" "stored d ''users'' = map stored_user (users d)"
  "stored d ''warehouses'' = map stored_warehouse (warehouses d)"
  "stored d ''alerts'' = map stored_alert (alerts d)"
  "stored d ''inventories'' = map stored_inventory (inventories d)"
  "stored d ''movements'' = map stored_movement (movements d)"
  by (simp_all add: stored_def)

lemmas accept_defs = table_accepts_def index_accepts_def key_values_def ForeignKey_def
  id_and_timestamps_def decl_def list_all_iff fk_accepts_def ids_def image_image

lemma products_accept:
  "list_all (table_accepts (stored d)) (decl create_products) \<longleftrightarrow> distinct (ids (products d)) \<and>
     (\<forall>r \<in> set (products d). varchar 50 (prod_sku r) \<and> varchar 255 (prod_name r) \<and>
        opt_ok (varchar 2000) (prod_description r) \<and> numeric_12_2 (prod_price r))"
  by (auto simp: create_products_def accept_defs comp_def stored_product_def columns_def numeric_12_2_def)

lemma users_accept:
  "list_all (table_accepts (stored d)) (decl create_users) \<longleftrightarrow> distinct (ids (users d)) \<and>
     (\<forall>r \<in> set (users d). varchar 255 (us_email r) \<and> varchar 255 (us_hashed_password r) \<and>
        opt_ok (varchar 255) (us_full_name r))"
  by (auto simp: create_users_def accept_defs comp_def stored_user_def columns_def)

lemma warehouses_accept:
  "list_all (table_accepts (stored d)) (decl create_warehouses) \<longleftrightarrow> distinct (ids (warehouses d)) \<and>
     (\<forall>r \<in> set (warehouses d). varchar 255 (wh_name r) \<and> varchar 20 (wh_code r) \<and>
        opt_ok (varchar 500) (wh_address r))"
  by (auto simp: create_warehouses_def accept_defs comp_def stored_warehouse_def columns_def)

lemma alerts_accept: "list_all (table_accepts (stored d)) (decl create_alerts) \<longleftrightarrow> alerts_ok d"
  by (auto simp: create_alerts_def alerts_ok_def accept_defs comp_def stored_alert_def columns_def)

lemma inventories_accept: "list_all (table_accepts (stored d)) (decl create_inventories) \<longleftrightarrow> inventories_ok d"
  by (auto simp: create_inventories_def inventories_ok_def accept_defs comp_def stored_inventory_def
      columns_def)

lemma movements_accept: "list_all (table_accepts (stored d)) (decl create_movements) \<longleftrightarrow> movements_ok d"
  by (auto simp: create_movements_def movements_ok_def accept_defs comp_def stored_movement_def
      columns_def)

lemma indexes_accept:
  "list_all (index_accepts (stored d)) (cat_indexes migrated) \<longleftrightarrow> distinct (map prod_sku (products d)) \<and>
     distinct (map us_email (users d)) \<and> distinct (map wh_code (warehouses d))"
  by (simp add: migrated_def index_accepts_def key_values_def comp_def stored_row_defs)

lemma migrated_accepts: "accepts migrated (stored d) \<longleftrightarrow> constraints d"
proof -
  have "cat_tables migrated = decl create_products @ decl create_users @ decl create_warehouses @
      decl create_alerts @ decl create_inventories @ decl create_movements"
    by (simp add: migrated_def upgrade_def decl_def unique_index_def)
  then show ?thesis
    by (auto simp: accepts_def indexes_accept products_accept users_accept warehouses_accept
        alerts_accept inventories_accept movements_accept constraints_def products_ok_def users_ok_def
        warehouses_ok_def)
qed

end
