(* ===== verification/MigrationEnv.thy ===== *)
theory MigrationEnv
  imports Migration Startup "HOL-Library.Char_ord"
begin

text \<open>
  The Alembic environment (migrations/env.py): the database URL goes from the settings into
  Alembic's configuration, whose values are interpolated by configparser, and the steps of a
  revision run in one transaction, on a connection (online) or into a script (offline).

  Which steps run is Alembic's choice (from the command line and the version table), so it is
  an argument, as is whether the server can be reached.
\<close>

section \<open>configparser's interpolation\<close>

text \<open>
  \<open>BasicInterpolation\<close>: in a value \<open>%%\<close> is a percent sign and \<open>%(name)s\<close> the value of another
  option; a percent sign in any other place is refused, both when the option is set and when
  it is read. References may be nested ten deep.
\<close>

datatype migration_error =
    InvalidInterpolation
  | Ddl ddl_error
  | ConnectionRefused

definition lowercase :: "string \<Rightarrow> string" where
  "lowercase = map (\<lambda>c. if CHR ''A'' \<le> c \<and> c \<le> CHR ''Z'' then char_of (of_char c + 32 :: nat) else c)"

definition option_reference :: "string \<Rightarrow> (string \<times> string) option" where
  "option_reference s = (case s of
     CHR ''('' # rest \<Rightarrow>
       (case dropWhile (\<lambda>c. c \<noteq> CHR '')'') rest of
          CHR '')'' # CHR ''s'' # tail \<Rightarrow>
            if takeWhile (\<lambda>c. c \<noteq> CHR '')'') rest = [] then None
            else Some (takeWhile (\<lambda>c. c \<noteq> CHR '')'') rest, tail)
        | _ \<Rightarrow> None)
   | _ \<Rightarrow> None)"

lemma dropWhile_ConsD: "dropWhile p xs = y # ys \<Longrightarrow> length ys < length xs"
  by (induction xs) (auto split: if_splits)

lemma option_reference_shorter: "option_reference s = Some (n, t) \<Longrightarrow> length t < length s"
  by (auto simp: option_reference_def split: list.splits char.splits bool.splits if_splits
      dest!: dropWhile_ConsD)

fun drop_escapes :: "string \<Rightarrow> string" where
  "drop_escapes (c # d # s) =
     (if c = CHR ''%'' \<and> d = CHR ''%'' then drop_escapes s else c # drop_escapes (d # s))"
| "drop_escapes s = s"

function drop_references :: "string \<Rightarrow> string" where
  "drop_references [] = []"
| "drop_references (c # s) =
     (if c = CHR ''%'' then (case option_reference s of
        Some (n, t) \<Rightarrow> drop_references t | None \<Rightarrow> c # drop_references s)
      else c # drop_references s)"
  by pat_completeness auto

termination drop_references
  by (relation "measure length") (auto dest: option_reference_shorter)

definition may_be_set :: "string \<Rightarrow> bool" where
  "may_be_set v \<longleftrightarrow> CHR ''%'' \<notin> set (drop_references (drop_escapes v))"

text \<open>The options of a section, in the order of the file.\<close>

type_synonym options = "(string \<times> string) list"

fun put_option :: "string \<Rightarrow> string \<Rightarrow> options \<Rightarrow> options" where
  "put_option n v [] = [(n, v)]"
| "put_option n v ((m, u) # cfg) = (if m = n then (n, v) # cfg else (m, u) # put_option n v cfg)"

definition set_main_option :: "string \<Rightarrow> string \<Rightarrow> options \<Rightarrow> migration_error + options" where
  "set_main_option n v cfg =
     (if may_be_set v then Inr (put_option (lowercase n) v cfg) else Inl InvalidInterpolation)"

function interpolate :: "nat \<Rightarrow> options \<Rightarrow> string \<Rightarrow> migration_error + string" where
  "interpolate 0 cfg s = Inl InvalidInterpolation"
| "interpolate (Suc k) cfg [] = Inr []"
| "interpolate (Suc k) cfg (c # s) =
     (if c \<noteq> CHR ''%'' then (case interpolate (Suc k) cfg s of Inl e \<Rightarrow> Inl e | Inr r \<Rightarrow> Inr (c # r))
      else case s of
        [] \<Rightarrow> Inl InvalidInterpolation
      | d # s' \<Rightarrow>
          if d = CHR ''%'' then
            (case interpolate (Suc k) cfg s' of Inl e \<Rightarrow> Inl e | Inr r \<Rightarrow> Inr (c # r))
          else (case option_reference s of
            None \<Rightarrow> Inl InvalidInterpolation
          | Some (n, t) \<Rightarrow>
              (case map_of cfg (lowercase n) of None \<Rightarrow> Inl InvalidInterpolation
               | Some v \<Rightarrow> (case interpolate k cfg v of
                   Inl e \<Rightarrow> Inl e
                 | Inr r \<Rightarrow> (case interpolate (Suc k) cfg t of Inl e \<Rightarrow> Inl e | Inr r' \<Rightarrow> Inr (r @ r'))))))"
  by pat_completeness auto

termination interpolate
  by (relation "measures [\<lambda>(k, cfg, s). k, \<lambda>(k, cfg, s). length s]")
    (auto dest: option_reference_shorter)

definition MAX_INTERPOLATION_DEPTH :: nat where
  "MAX_INTERPOLATION_DEPTH = 10"

definition get_main_option :: "string \<Rightarrow> options \<Rightarrow> migration_error + string option" where
  "get_main_option n cfg = (case map_of cfg (lowercase n) of None \<Rightarrow> Inr None
     | Some v \<Rightarrow> (case interpolate MAX_INTERPOLATION_DEPTH cfg v of Inl e \<Rightarrow> Inl e | Inr r \<Rightarrow> Inr (Some r)))"

text \<open>\<open>get_section\<close> reads, and so interpolates, every option.\<close>

fun read_options :: "options \<Rightarrow> options \<Rightarrow> migration_error + options" where
  "read_options cfg [] = Inr []"
| "read_options cfg ((n, v) # xs) = (case interpolate MAX_INTERPOLATION_DEPTH cfg v of
     Inl e \<Rightarrow> Inl e
   | Inr r \<Rightarrow> (case read_options cfg xs of Inl e \<Rightarrow> Inl e | Inr ys \<Rightarrow> Inr ((n, r) # ys)))"

definition get_section :: "options \<Rightarrow> migration_error + options" where
  "get_section cfg = read_options cfg cfg"

definition plain_options :: "options \<Rightarrow> bool" where
  "plain_options cfg \<longleftrightarrow> list_all (\<lambda>(n, v). CHR ''%'' \<notin> set v) cfg"

lemma drop_escapes_plain: "CHR ''%'' \<notin> set s \<Longrightarrow> drop_escapes s = s"
  by (induction s rule: drop_escapes.induct) auto

lemma drop_references_plain: "CHR ''%'' \<notin> set s \<Longrightarrow> drop_references s = s"
  by (induction s) auto

lemma interpolate_plain: "CHR ''%'' \<notin> set s \<Longrightarrow> interpolate (Suc k) cfg s = Inr s"
  by (induction s) auto

lemma map_of_put_option [simp]: "map_of (put_option n v cfg) = (map_of cfg)(n \<mapsto> v)"
  by (induction cfg rule: put_option.induct) (auto simp: fun_eq_iff)

lemma plain_put_option: "plain_options cfg \<Longrightarrow> CHR ''%'' \<notin> set v \<Longrightarrow> plain_options (put_option n v cfg)"
  by (induction cfg rule: put_option.induct) (auto simp: plain_options_def)

lemma set_plain_option: "CHR ''%'' \<notin> set v \<Longrightarrow> set_main_option n v cfg = Inr (put_option (lowercase n) v cfg)"
  by (simp add: set_main_option_def may_be_set_def drop_escapes_plain drop_references_plain)

lemma interpolate_plain': "CHR ''%'' \<notin> set v \<Longrightarrow> interpolate MAX_INTERPOLATION_DEPTH cfg v = Inr v"
  by (simp add: MAX_INTERPOLATION_DEPTH_def interpolate_plain eval_nat_numeral)

lemma get_plain_option:
  "CHR ''%'' \<notin> set v \<Longrightarrow> get_main_option n (put_option (lowercase n) v cfg) = Inr (Some v)"
  by (simp add: get_main_option_def interpolate_plain')

lemma read_plain_options: "plain_options xs \<Longrightarrow> read_options cfg xs = Inr xs"
  by (induction cfg xs rule: read_options.induct) (auto simp: plain_options_def interpolate_plain')

lemma get_plain_section: "plain_options cfg \<Longrightarrow> get_section cfg = Inr cfg"
  by (simp add: get_section_def read_plain_options)

text \<open>A percent sign that escapes nothing, as in a percent-encoded password, is refused.\<close>

lemma drop_escapes_append:
  assumes "CHR ''%'' \<notin> set a" and "d \<noteq> CHR ''%''"
  shows "drop_escapes (a @ CHR ''%'' # d # s) = a @ CHR ''%'' # drop_escapes (d # s)"
  using assms
proof (induction a)
  case (Cons c a)
  then show ?case by (cases a) auto
qed simp

lemma drop_references_append:
  assumes "CHR ''%'' \<notin> set a"
  shows "drop_references (a @ s) = a @ drop_references s"
  using assms by (induction a) auto

lemma lone_percent:
  assumes "CHR ''%'' \<notin> set a" and "d \<noteq> CHR ''%''" and "d \<noteq> CHR ''(''"
  shows "set_main_option n (a @ CHR ''%'' # d # s) cfg = Inl InvalidInterpolation"
proof -
  obtain t where t: "drop_escapes (d # s) = d # t" using assms(2) by (cases s) auto
  have "option_reference (d # t) = None"
    using assms(3) by (auto simp: option_reference_def split: char.splits bool.splits)
  then show ?thesis
    using assms by (simp add: set_main_option_def may_be_set_def drop_escapes_append t drop_references_append)
qed

section \<open>Running the steps\<close>

datatype platform = Windows | Other_Platform

datatype loop_policy = DefaultEventLoopPolicy | WindowsSelectorEventLoopPolicy

definition event_loop_policy :: "platform \<Rightarrow> loop_policy" where
  "event_loop_policy p = (if p = Windows then WindowsSelectorEventLoopPolicy else DefaultEventLoopPolicy)"

record alembic =
  stored_schema :: catalog
  open_schema :: catalog
  script_output :: "ddl list"
  open_connections :: nat
  engine_disposed :: bool

type_synonym 'a migration = "(alembic, migration_error, 'a) prog"

datatype migration_mode = Online | Offline

definition run_step :: "migration_mode \<Rightarrow> ddl \<Rightarrow> unit migration" where
  "run_step m x = (\<lambda>w. case m of
     Offline \<Rightarrow> (Inr (), w\<lparr>script_output := script_output w @ [x]\<rparr>)
   | Online \<Rightarrow> (case run_ddl x (open_schema w) of
       Inl e \<Rightarrow> (Inl (Ddl e), w) | Inr c \<Rightarrow> (Inr (), w\<lparr>open_schema := c\<rparr>)))"

definition run_migrations :: "migration_mode \<Rightarrow> ddl list \<Rightarrow> unit migration" where
  "run_migrations m steps = for_each (run_step m) steps"

text \<open>PostgreSQL's DDL is transactional: a failed step takes the earlier ones back.\<close>

definition begin_transaction :: "'a migration \<Rightarrow> 'a migration" where
  "begin_transaction f = (\<lambda>w. case f (w\<lparr>open_schema := stored_schema w\<rparr>) of
     (Inr a, w') \<Rightarrow> (Inr a, w'\<lparr>stored_schema := open_schema w'\<rparr>)
   | (Inl e, w') \<Rightarrow> (Inl e, w'\<lparr>open_schema := stored_schema w'\<rparr>))"

definition run_migrations_offline :: "ddl list \<Rightarrow> options \<Rightarrow> unit migration" where
  "run_migrations_offline steps cfg =
     andthen (lift_result (get_main_option ''sqlalchemy.url'' cfg)) (\<lambda>url.
       begin_transaction (run_migrations Offline steps))"

definition do_run_migrations :: "ddl list \<Rightarrow> unit migration" where
  "do_run_migrations steps = begin_transaction (run_migrations Online steps)"

definition with_connection :: "bool \<Rightarrow> 'a migration \<Rightarrow> 'a migration" where
  "with_connection reachable f = (\<lambda>w.
     if \<not> reachable then (Inl ConnectionRefused, w)
     else case f (w\<lparr>open_connections := Suc (open_connections w)\<rparr>) of
       (r, w') \<Rightarrow> (r, w'\<lparr>open_connections := open_connections w' - 1\<rparr>))"

definition dispose :: "unit migration" where
  "dispose = modifies (\<lambda>w. w\<lparr>engine_disposed := True\<rparr>)"

definition run_async_migrations :: "bool \<Rightarrow> ddl list \<Rightarrow> options \<Rightarrow> unit migration" where
  "run_async_migrations reachable steps cfg =
     andthen (lift_result (get_section cfg)) (\<lambda>section.
     andthen (with_connection reachable (do_run_migrations steps)) (\<lambda>_. dispose))"

definition run_migrations_online :: "bool \<Rightarrow> ddl list \<Rightarrow> options \<Rightarrow> unit migration" where
  "run_migrations_online reachable steps cfg = run_async_migrations reachable steps cfg"

text \<open>The module body: the URL is put into the configuration, then the mode decides.\<close>

definition env_py :: "settings \<Rightarrow> options \<Rightarrow> bool \<Rightarrow> bool \<Rightarrow> ddl list \<Rightarrow> unit migration" where
  "env_py s cfg offline reachable steps =
     andthen (lift_result (set_main_option ''sqlalchemy.url'' (set_database_url s) cfg)) (\<lambda>cfg'.
       if offline then run_migrations_offline steps cfg'
       else run_migrations_online reachable steps cfg')"

section \<open>How the environment runs\<close>

lemma run_online:
  "run_migrations Online steps w = (case run_script steps (open_schema w) of
     Inr c \<Rightarrow> (Inr (), w\<lparr>open_schema := c\<rparr>)
   | Inl e \<Rightarrow> (Inl (Ddl e), snd (run_migrations Online steps w)))"
  unfolding run_migrations_def
proof (induction steps arbitrary: w)
  case (Cons x steps)
  show ?case
  proof (cases "run_ddl x (open_schema w)")
    case (Inl e)
    then show ?thesis by (simp add: andthen_def run_step_def)
  next
    case (Inr c)
    then show ?thesis
      using Cons.IH [of "w\<lparr>open_schema := c\<rparr>"] by (auto simp: andthen_def run_step_def split: sum.splits)
  qed
qed simp

lemma run_online_frame: "\<exists>c. snd (run_migrations Online steps w) = w\<lparr>open_schema := c\<rparr>"
  unfolding run_migrations_def
proof (induction steps arbitrary: w)
  case Nil
  have "snd (for_each (run_step Online) [] w) = w\<lparr>open_schema := open_schema w\<rparr>" by simp
  then show ?case by blast
next
  case (Cons x steps)
  show ?case
  proof (cases "run_ddl x (open_schema w)")
    case (Inl e)
    then have "snd (for_each (run_step Online) (x # steps) w) = w\<lparr>open_schema := open_schema w\<rparr>"
      by (simp add: andthen_def run_step_def)
    then show ?thesis by blast
  next
    case (Inr c)
    obtain c' where "snd (for_each (run_step Online) steps (w\<lparr>open_schema := c\<rparr>)) = w\<lparr>open_schema := c'\<rparr>"
      using Cons.IH [of "w\<lparr>open_schema := c\<rparr>"] by auto
    then have "snd (for_each (run_step Online) (x # steps) w) = w\<lparr>open_schema := c'\<rparr>"
      using Inr by (simp add: andthen_def run_step_def)
    then show ?thesis by blast
  qed
qed

lemma run_offline:
  "run_migrations Offline steps w = (Inr (), w\<lparr>script_output := script_output w @ steps\<rparr>)"
  unfolding run_migrations_def by (induction steps arbitrary: w) (simp_all add: andthen_def run_step_def)

lemma do_run_migrations_run:
  "do_run_migrations steps w = (case run_script steps (stored_schema w) of
     Inr c \<Rightarrow> (Inr (), w\<lparr>open_schema := c, stored_schema := c\<rparr>)
   | Inl e \<Rightarrow> (Inl (Ddl e), w\<lparr>open_schema := stored_schema w\<rparr>))"
proof (cases "run_script steps (stored_schema w)")
  case (Inl e)
  let ?w = "w\<lparr>open_schema := stored_schema w\<rparr>"
  obtain c where frame: "snd (run_migrations Online steps ?w) = ?w\<lparr>open_schema := c\<rparr>"
    using run_online_frame by blast
  have "run_migrations Online steps ?w = (Inl (Ddl e), ?w\<lparr>open_schema := c\<rparr>)"
    using run_online [of steps ?w] Inl unfolding frame by simp
  then show ?thesis using Inl by (simp add: do_run_migrations_def begin_transaction_def)
next
  case (Inr c)
  then show ?thesis using run_online [of steps "w\<lparr>open_schema := stored_schema w\<rparr>"]
    by (simp add: do_run_migrations_def begin_transaction_def)
qed

lemma online_run:
  assumes "CHR ''%'' \<notin> set (set_database_url s)" and "plain_options cfg"
  shows "env_py s cfg False True steps w = (case run_script steps (stored_schema w) of
     Inr c \<Rightarrow> (Inr (), w\<lparr>open_schema := c, stored_schema := c, engine_disposed := True\<rparr>)
   | Inl e \<Rightarrow> (Inl (Ddl e), w\<lparr>open_schema := stored_schema w\<rparr>))"
  by (simp add: env_py_def andthen_def set_plain_option [OF assms(1)] run_migrations_online_def
      get_plain_section [OF plain_put_option [OF assms(2,1)]]
      run_async_migrations_def with_connection_def do_run_migrations_run dispose_def split: sum.splits)

lemma offline_run:
  assumes "CHR ''%'' \<notin> set (set_database_url s)"
  shows "env_py s cfg True reachable steps w =
    (Inr (), w\<lparr>open_schema := stored_schema w, script_output := script_output w @ steps\<rparr>)"
  by (simp add: env_py_def andthen_def set_plain_option [OF assms] get_plain_option [OF assms]
      run_migrations_offline_def begin_transaction_def run_offline)

end
