(* ===== verification/Races.thy ===== *)
theory Races
  imports Isolation
begin

text \<open>
  Check, then act: services that read, decide, and write in a later statement of the same
  transaction, with no lock in between. \<open>others_run f\<close> is a pause between two statements of a
  session in which other requests run to their ends (\<open>f\<close>); the session has written nothing
  yet, so under READ COMMITTED its next statement sees what was committed in the pause.

  The services are cut at their first SELECT: with an idle pause they are the services
  themselves.
\<close>

section \<open>Interrupted services\<close>

definition others_run :: "('x world \<Rightarrow> 'x world) \<Rightarrow> ('x, unit) service" where
  "others_run f = (\<lambda>w. (Inr (), (f w)\<lparr>work := committed (f w), row_locks := [], tx_time := tx_time w\<rparr>))"

definition finish_create_warehouse ::
  "'x deps \<Rightarrow> warehouse_create \<Rightarrow> warehouse option \<Rightarrow> ('x, warehouse) service" where
  "finish_create_warehouse e x existing =
     (case existing of Some _ \<Rightarrow> raise (warehouse_conflict (wc_code x))
      | None \<Rightarrow> andthen (create e warehouses_table (new_warehouse x)) (\<lambda>r. andthen (commit e) (\<lambda>_. ret r)))"

definition interrupted_create_warehouse ::
  "'x deps \<Rightarrow> ('x world \<Rightarrow> 'x world) \<Rightarrow> warehouse_create \<Rightarrow> ('x, warehouse) service" where
  "interrupted_create_warehouse e f x = andthen (get_by_code (wc_code x)) (\<lambda>existing.
     andthen (others_run f) (\<lambda>_. finish_create_warehouse e x existing))"

definition finish_create_product ::
  "'x deps \<Rightarrow> product_create \<Rightarrow> product option \<Rightarrow> ('x, product) service" where
  "finish_create_product e x existing =
     (case existing of Some _ \<Rightarrow> raise (product_conflict (pc_sku x))
      | None \<Rightarrow> andthen (create e products_table (new_product x)) (\<lambda>r. andthen (commit e) (\<lambda>_. ret r)))"

definition interrupted_create_product ::
  "'x deps \<Rightarrow> ('x world \<Rightarrow> 'x world) \<Rightarrow> product_create \<Rightarrow> ('x, product) service" where
  "interrupted_create_product e f x = andthen (get_by_sku (pc_sku x)) (\<lambda>existing.
     andthen (others_run f) (\<lambda>_. finish_create_product e x existing))"

definition finish_evaluation :: "'x deps \<Rightarrow> inventory \<Rightarrow> alert option \<Rightarrow> ('x, alert option) service" where
  "finish_evaluation e iv existing =
     (let threshold = applicable_threshold e iv in
      if inv_quantity iv > threshold then
        (case existing of
           Some a \<Rightarrow> andthen (resolve e a) (\<lambda>_. ret None)
         | None \<Rightarrow> ret None)
      else
        (let alert_type = (if inv_quantity iv = 0 then OUT_OF_STOCK else LOW_STOCK) in
         case existing of
           Some a \<Rightarrow>
             if al_alert_type a \<noteq> alert_type then
               andthen (save e alerts_table (entity_id a)
                 (\<lambda>r. r\<lparr>al_alert_type := alert_type, al_quantity_at_trigger := inv_quantity iv\<rparr>)) (\<lambda>a'.
               andthen (react_to_alert e a') (\<lambda>_. ret (Some a')))
             else ret (Some a)
         | None \<Rightarrow>
             andthen (create e alerts_table (new_alert iv alert_type threshold)) (\<lambda>a.
             andthen (commit e) (\<lambda>_.
             andthen (react_to_alert e a) (\<lambda>_. ret (Some a))))))"

definition interrupted_evaluation ::
  "'x deps \<Rightarrow> ('x world \<Rightarrow> 'x world) \<Rightarrow> inventory \<Rightarrow> ('x, alert option) service" where
  "interrupted_evaluation e f iv =
     andthen (get_active_by_product_and_warehouse (inv_product_id iv) (inv_warehouse_id iv)) (\<lambda>existing.
     andthen (others_run f) (\<lambda>_. finish_evaluation e iv existing))"

lemma evaluation_split: "evaluate_stock_level e iv =
    andthen (get_active_by_product_and_warehouse (inv_product_id iv) (inv_warehouse_id iv)) (finish_evaluation e iv)"
  by (simp add: evaluate_stock_level_def finish_evaluation_def [abs_def] Let_def)

lemma create_splits:
  "create_warehouse e x = andthen (get_by_code (wc_code x)) (finish_create_warehouse e x)"
  "create_product e y = andthen (get_by_sku (pc_sku y)) (finish_create_product e y)"
  by (simp_all add: create_warehouse_def finish_create_warehouse_def [abs_def] create_product_def
      finish_create_product_def [abs_def])

lemma idle: "committed w = work w \<Longrightarrow> row_locks w = [] \<Longrightarrow> others_run (\<lambda>w. w) w = (Inr (), w)"
  by (simp add: others_run_def)

lemma andthen_same_state:
  assumes "\<And>v. snd (sel v) = v" and "others_run (\<lambda>w. w) w = (Inr (), w)"
  shows "andthen sel (\<lambda>a. andthen (others_run (\<lambda>w. w)) (\<lambda>_. g a)) w = andthen sel g w"
proof -
  have "sel w = (fst (sel w), w)" using assms(1) [of w] by (metis prod.collapse)
  then show ?thesis using assms(2) by (cases "fst (sel w)") (simp_all add: andthen_def)
qed

lemma snd_select_one: "snd (select_one p t w) = w"
  by (simp add: select_one_run)

text \<open>An idle pause changes nothing.\<close>

lemma idle_pause:
  assumes "committed w = work w" and "row_locks w = []"
  shows "interrupted_create_warehouse e (\<lambda>w. w) x w = create_warehouse e x w"
    and "interrupted_create_product e (\<lambda>w. w) y w = create_product e y w"
    and "interrupted_evaluation e (\<lambda>w. w) iv w = evaluate_stock_level e iv w"
  unfolding interrupted_create_warehouse_def interrupted_create_product_def interrupted_evaluation_def
    create_splits evaluation_split get_by_code_def get_by_sku_def get_active_by_product_and_warehouse_def
  by (rule andthen_same_state [OF snd_select_one idle [OF assms]])+

section \<open>A natural key taken in the pause\<close>

context keyed_service
begin

lemma insert_taken:
  assumes ok: "constraints (work w)" and taken: "lookup (work w) (key (build c)) \<noteq> None"
  shows "\<exists>w'. andthen (create e t (build c)) (\<lambda>r. andthen (commit e) (\<lambda>_. ret r)) w = (Inl DatabaseError, w') \<and>
    committed w' = committed w \<and> outside w' = outside w"
proof -
  let ?r = "stamped (uuid4 e (tick w)) (tx_time w) (build c)"
  have "\<not> constraints (with_row t ?r (work w))"
  proof
    assume "constraints (with_row t ?r (work w))"
    from natural_key [OF this] taken show False
      by (simp add: rows_with_row key_stamped lookup_None)
  qed
  then show ?thesis by (simp add: create_run andthen_def Let_def)
qed

end

lemma others_run_run:
  "others_run f w = (Inr (), (f w)\<lparr>work := committed (f w), row_locks := [], tx_time := tx_time w\<rparr>)"
  by (simp add: others_run_def)

lemma raced_warehouse:
  assumes ok: "constraints (work w)" "constraints (committed (f w))"
    and free: "wc_code x \<notin> wh_code ` set (warehouses (work w))"
    and taken: "wc_code x \<in> wh_code ` set (warehouses (committed (f w)))"
  shows "\<exists>w'. interrupted_create_warehouse e f x w = (Inl DatabaseError, w') \<and>
    committed w' = committed (f w) \<and> outside w' = outside (f w)"
proof -
  let ?w = "(f w)\<lparr>work := committed (f w), row_locks := [], tx_time := tx_time w\<rparr>"
  have sel: "get_by_code (wc_code x) w = (Inr None, w)"
    using free by (simp add: get_by_code_def warehouse_service.select_run [OF ok(1)] warehouse_service.lookup_None)
  have "warehouse_service.lookup (work ?w) (wh_code (new_warehouse x)) \<noteq> None"
    using taken by (simp add: warehouse_service.lookup_None new_warehouse_def)
  from warehouse_service.insert_taken [OF _ this, of e] ok(2) sel show ?thesis
    by (simp add: interrupted_create_warehouse_def andthen_def others_run_run finish_create_warehouse_def)
qed

lemma raced_product:
  assumes ok: "constraints (work w)" "constraints (committed (f w))"
    and free: "pc_sku x \<notin> prod_sku ` set (products (work w))"
    and taken: "pc_sku x \<in> prod_sku ` set (products (committed (f w)))"
  shows "\<exists>w'. interrupted_create_product e f x w = (Inl DatabaseError, w') \<and>
    committed w' = committed (f w) \<and> outside w' = outside (f w)"
proof -
  let ?w = "(f w)\<lparr>work := committed (f w), row_locks := [], tx_time := tx_time w\<rparr>"
  have sel: "get_by_sku (pc_sku x) w = (Inr None, w)"
    using free by (simp add: get_by_sku_def product_service.select_run [OF ok(1)] product_service.lookup_None)
  have "product_service.lookup (work ?w) (prod_sku (new_product x)) \<noteq> None"
    using taken by (simp add: product_service.lookup_None new_product_def)
  from product_service.insert_taken [OF _ this, of e] ok(2) sel show ?thesis
    by (simp add: interrupted_create_product_def andthen_def others_run_run finish_create_product_def)
qed

section \<open>Two evaluations of one row\<close>

lemma finish_raised:
  assumes w: "wanted e iv = Some k"
  shows "finish_evaluation e iv None w =
    (let a = raised_alert e iv k w; w1 = alert_added e a w
     in if constraints (work w1) then (Inr (Some a), notified e a (committed_world e w1))
        else (Inl DatabaseError, w1))"
proof -
  have "\<not> inv_quantity iv > applicable_threshold e iv"
    and k': "k = (if inv_quantity iv = 0 then OUT_OF_STOCK else LOW_STOCK)"
    using w by (auto simp: wanted_def wanted_alert_def split: if_splits)
  then show ?thesis
    by (simp add: finish_evaluation_def alerts_store.create_run andthen_def
        commit_run react_to_alert_run Let_def alert_added_def raised_alert_def flip: k')
qed

definition another_evaluation :: "'x deps \<Rightarrow> inventory \<Rightarrow> 'x world \<Rightarrow> 'x world" where
  "another_evaluation e iv w = snd (get_db e (evaluate_stock_level e iv) w)"

lemma constraints_raised:
  assumes ok: "constraints d" and iv: "iv \<in> set (inventories d)" and thr: "int4 (applicable_threshold e iv)"
    and new: "uuid4 e (tick w) \<notin> all_ids d"
  shows "constraints (d\<lparr>alerts := alerts d @ [raised_alert e iv k w]\<rparr>)"
proof (rule constraints_alert_added [OF ok])
  show "entity_id (raised_alert e iv k w) \<notin> set (ids (alerts d))" using new by (simp add: all_ids_def)
  have "inventories_ok d" using ok by (simp add: constraints_def)
  then show "int4 (al_quantity_at_trigger (raised_alert e iv k w))"
    and "al_product_id (raised_alert e iv k w) \<in> set (ids (products d))"
    and "al_warehouse_id (raised_alert e iv k w) \<in> set (ids (warehouses d))"
    using iv by (simp_all add: inventories_ok_def)
  show "int4 (al_threshold (raised_alert e iv k w))" using thr by simp
qed

lemma raced_evaluations:
  assumes comm: "committed w = work w" and ok: "constraints (work w)" and iv: "iv \<in> set (inventories (work w))"
    and thr: "int4 (applicable_threshold e iv)" and none: "pair_active w iv = []"
    and want: "wanted e iv = Some k" and f: "fresh e 6 w"
  obtains a b w' where "interrupted_evaluation e (another_evaluation e iv) iv w = (Inr (Some b), w')"
    and "committed w' = (work w)\<lparr>alerts := alerts (work w) @ [a, b]\<rparr>" and "work w' = committed w'"
    and "constraints (committed w')" and "active_for (inv_product_id iv) (inv_warehouse_id iv) a" "active_for (inv_product_id iv) (inv_warehouse_id iv) b"
proof -
  let ?d = "work w" and ?s = "begin_session e w"
  let ?a = "raised_alert e iv k ?s"
  let ?d1 = "?d\<lparr>alerts := alerts ?d @ [?a]\<rparr>"
  have new: "uuid4 e (tick w + j) \<notin> all_ids ?d" if "j < 6" for j
    using f that by (auto simp: fresh_def)
  have inj: "uuid4 e (tick w + i) \<noteq> uuid4 e (tick w + j)" if "i < 6" "j < 6" "i \<noteq> j" for i j
    using inj_onD [of "uuid4 e" "{tick w..<tick w + 6}" "tick w + i" "tick w + j"] f that
    by (auto simp: fresh_def)
  have c1: "constraints ?d1"
    by (rule constraints_raised [OF ok iv thr]) (use new [of 1] in simp)
  have "pair_active ?s iv = []" using none comm by simp
  from evaluate_raised [OF this want] c1 comm
  have ev: "evaluate_stock_level e iv ?s = (Inr (Some ?a), notified e ?a (committed_world e (alert_added e ?a ?s)))"
    by (simp add: Let_def)
  define v where "v = another_evaluation e iv w"
  have v: "committed v = ?d1" "tick v = tick w + 5"
    by (simp_all add: v_def another_evaluation_def get_db_def ev notified_def alert_added_def comm)
  let ?w2 = "v\<lparr>work := committed v, row_locks := [], tx_time := tx_time w\<rparr>"
  let ?b = "raised_alert e iv k ?w2"
  have new2: "uuid4 e (tick ?w2) \<notin> all_ids ?d1"
    using new [of 5] inj [of 5 1] v(2) by simp
  have c2: "constraints (?d1\<lparr>alerts := alerts ?d1 @ [?b]\<rparr>)"
    by (rule constraints_raised [OF c1 _ thr new2]) (simp add: iv)
  let ?w' = "notified e ?b (committed_world e (alert_added e ?b ?w2))"
  have fin: "finish_evaluation e iv None ?w2 = (Inr (Some ?b), ?w')"
    using finish_raised [OF want, of ?w2] c2 by (simp add: Let_def v(1))
  have run: "interrupted_evaluation e (another_evaluation e iv) iv w = (Inr (Some ?b), ?w')"
    using none fin by (simp add: interrupted_evaluation_def andthen_def get_active_run others_run_run v_def)
  show thesis
    by (rule that [OF run, of ?a]) (use c2 in \<open>simp_all add: v(1) active_for_def\<close>)
qed

end
