(* ===== verification/Blocked.thy ===== *)
theory Blocked
  imports Races
begin

text \<open>
  A product/warehouse pair with several active alerts, as two raced evaluations leave it:
  nothing the system does, other than resolving one of them by hand, changes them, and while
  they are several every evaluation of the pair raises.
\<close>

section \<open>Steps of the database\<close>

lemma db_step_ambiguous:
  assumes "db_step d d'" and "constraints d" and "2 \<le> length (active_alerts d p wh)"
  shows "constraints d' \<and> active_alerts d' p wh = active_alerts d p wh"
  using assms(1)
proof (rule db_stepE)
  show ?thesis if "catalogue_step d d'" using that by (auto simp: catalogue_step_def active_alerts_def)
  show ?thesis if mv: "movement_committed x u d d'" for x u
  proof -
    from mv obtain affected d1 i now where 1: "movement_step x affected d d1"
      and 2: "alert_steps (d1\<lparr>movements := movements d1 @ [stamped i now (new_movement x u)]\<rparr>) d'"
      unfolding movement_committed_def by blast
    have "active_alerts (d1\<lparr>movements := movements d1 @ [stamped i now (new_movement x u)]\<rparr>) p wh = active_alerts d p wh"
      by (simp add: active_alerts_def movement_step_alerts [OF 1])
    with alert_steps_ambiguous [OF 2, of p wh] assms(3) movement_committed_stock(4) [OF mv] show ?thesis by simp
  qed
  show ?thesis if st: "some_alert_step d d'"
    using alert_steps_ambiguous [OF r_into_rtranclp [of some_alert_step, OF st] assms(3)]
      alert_steps_constraints [OF r_into_rtranclp [of some_alert_step, OF st] assms(2)] by simp
qed

lemma db_steps_ambiguous:
  assumes "db_steps d d'" and "constraints d" and "2 \<le> length (active_alerts d p wh)"
  shows "constraints d' \<and> active_alerts d' p wh = active_alerts d p wh"
  using assms(1)
proof (induction rule: rtranclp_induct)
  case (step d1 d2)
  then show ?case using db_step_ambiguous [OF step.hyps(2), of p wh] assms(3) by simp
qed (simp add: assms(2))

lemma resolving_another:
  assumes other: "i \<notin> entity_id ` set (active_alerts d p wh)"
  shows "active_alerts (with_changed alerts_table i (resolving now at) d) p wh = active_alerts d p wh"
proof -
  have "filter (active_for p wh) (map (\<lambda>r. if entity_id r = i then resolving now at r else r) rs) =
      filter (active_for p wh) rs" if "set rs \<subseteq> set (alerts d)" for rs
    using that
  proof (induction rs)
    case (Cons r rs)
    have "\<not> active_for p wh r" if "entity_id r = i"
      using that other Cons.prems by (auto simp: active_alerts_def)
    with Cons show ?case by (auto simp: active_for_def)
  qed simp
  then show ?thesis by (simp add: active_alerts_def update_by_def)
qed

text \<open>The steps of the system that do not resolve one of the alerts \<open>kept\<close> by hand.\<close>

inductive step_keeping :: "'x deps \<Rightarrow> uuid set \<Rightarrow> 'x world \<Rightarrow> 'x world \<Rightarrow> bool" for e kept where
  request: "\<forall>i \<in> kept. req \<noteq> ResolveAlert i \<Longrightarrow> serve e req w = (resp, w') \<Longrightarrow> step_keeping e kept w w'"
| sweep: "check_low_stock_levels e w = Some (res, w') \<Longrightarrow> step_keeping e kept w w'"

inductive_cases step_keepingE: "step_keeping e kept w w'"

lemma step_keeping_ambiguous:
  assumes fair: "fair_scan e" and ok: "constraints (committed w)" and two: "2 \<le> length (active_alerts (committed w) p wh)"
    and st: "step_keeping e (entity_id ` set (active_alerts (committed w) p wh)) w w'"
  shows "constraints (committed w') \<and> active_alerts (committed w') p wh = active_alerts (committed w) p wh"
  using st
proof (rule step_keepingE)
  let ?b = "begin_session e w"
  fix req resp
  assume other: "\<forall>i \<in> entity_id ` set (active_alerts (committed w) p wh). req \<noteq> ResolveAlert i"
    and s: "serve e req w = (resp, w')"
  show ?thesis
  proof (cases "request_ok req")
    case True
    obtain r w1 where run: "route e req ?b = (r, w1)" by fastforce
    have w1: "committed w' = committed w1"
      using s True get_db_run [of "route e req" e w r w1, OF run] by (auto simp: serve_def split: sum.splits)
    show ?thesis
    proof (cases "\<exists>i. req = ResolveAlert i")
      case True
      then obtain i where i: "req = ResolveAlert i" by blast
      with run obtain r' where "resolve_alert e i ?b = (r', w1)" by (auto dest: then_show_run)
      with ok have "committed w1 = committed w \<or>
          committed w1 = with_changed alerts_table i (resolving (tx_time ?b) (clock e (tick ?b))) (committed w)"
        by (auto simp: resolve_alert_run dest!: find_SomeD simp del: with_changed_tables split: option.splits if_splits)
      moreover have "i \<notin> entity_id ` set (active_alerts (committed w) p wh)" using other i by blast
      ultimately show ?thesis
        using resolving_another constraints_resolving [OF ok] ok unfolding w1 by metis
    next
      case False
      with route_db_steps [OF run True] ok have "db_steps (committed w) (committed w1)" by simp
      from db_steps_ambiguous [OF this ok two] show ?thesis unfolding w1 .
    qed
  qed (use s ok in \<open>simp add: serve_def\<close>)
next
  let ?b = "begin_session e w"
  fix res assume s: "check_low_stock_levels e w = Some (res, w')"
  obtain r w1 where run: "sweep_pages e 0 0 0 ?b = Some (r, w1)" and st: "alert_steps (work ?b) (committed w1)"
    using sweep_pages_total [OF fair, of ?b 0 0 0] ok by auto
  then have "committed w' = committed w1" using s by (auto simp: check_low_stock_levels_def)
  with db_steps_ambiguous [OF alert_steps_db_steps [OF st], of p wh] ok two show ?thesis by simp
qed

lemma steps_keeping_ambiguous:
  assumes "fair_scan e" and "constraints (committed w)" and "2 \<le> length (active_alerts (committed w) p wh)"
    and "(step_keeping e (entity_id ` set (active_alerts (committed w) p wh)))\<^sup>*\<^sup>* w w'"
  shows "constraints (committed w') \<and> active_alerts (committed w') p wh = active_alerts (committed w) p wh"
  using assms(4)
proof (induction rule: rtranclp_induct)
  case (step v v')
  with step_keeping_ambiguous [of e v p wh v'] assms(1,3) show ?case by simp
qed (simp add: assms(2))

text \<open>Resolving one of the active alerts by hand is served, and leaves the pair the others.\<close>

lemma resolve_one_of_many:
  assumes ok: "constraints (committed w)" and a: "a \<in> set (active_alerts (committed w) p wh)"
    and s: "serve e (ResolveAlert (entity_id a)) w = (resp, w')"
  shows "resp_status resp = 200 \<and> constraints (committed w') \<and>
    active_alerts (committed w') p wh = filter (\<lambda>b. b \<noteq> a) (active_alerts (committed w) p wh)"
proof -
  let ?b = "begin_session e w" and ?d = "committed w"
  let ?g = "resolving (tx_time ?b) (clock e (tick ?b))"
  have mem: "a \<in> set (alerts ?d)" "al_status a = ACTIVE"
    using a by (simp_all add: active_alerts_def active_for_def)
  have dist: "distinct (map entity_id (alerts ?d))" using ok by (simp add: constraint_defs ids_def)
  have f: "find (\<lambda>r. entity_id r = entity_id a) (alerts ?d) = Some a"
    using find_Some_iff_distinct [OF dist] mem(1) by simp
  have w': "resp_status resp = 200" "committed w' = with_changed alerts_table (entity_id a) ?g ?d"
    using s ok f mem(2)
    by (auto simp: serve_def get_db_def then_show_def andthen_def resolve_alert_run simp del: with_changed_tables)
  have same: "r = a" if "r \<in> set (alerts ?d)" "entity_id r = entity_id a" for r
    using that mem(1) dist by (auto simp: distinct_map dest: inj_onD)
  have "filter (active_for p wh) (map (\<lambda>r. if entity_id r = entity_id a then ?g r else r) rs) =
      filter (\<lambda>b. b \<noteq> a) (filter (active_for p wh) rs)" if "set rs \<subseteq> set (alerts ?d)" for rs
    using that
  proof (induction rs)
    case (Cons r rs)
    then show ?case using same [of r] by (auto simp: active_for_def)
  qed simp
  from this [of "alerts ?d"]
  have "active_alerts (committed w') p wh = filter (\<lambda>b. b \<noteq> a) (active_alerts ?d p wh)"
    by (simp add: w'(2) active_alerts_def update_by_def del: begin_session_simps)
  with w' constraints_resolving [OF ok] show ?thesis by (simp del: with_changed_tables)
qed

text \<open>With one active alert an evaluation of a stored record finds it.\<close>

lemma one_active_not_ambiguous:
  assumes "constraints (committed w)" and "length (active_alerts (committed w) p wh) \<le> 1"
  shows "\<forall>row \<in> set (inventories (committed w)). inv_product_id row = p \<and> inv_warehouse_id row = wh \<longrightarrow>
    fst (evaluate_stock_level e row (begin_session e w)) \<noteq> Inl MultipleResultsFound"
proof (intro ballI impI notI)
  fix row assume r: "row \<in> set (inventories (committed w))" "inv_product_id row = p \<and> inv_warehouse_id row = wh"
    and "fst (evaluate_stock_level e row (begin_session e w)) = Inl MultipleResultsFound"
  then obtain w' where "evaluate_stock_level e row (begin_session e w) = (Inl MultipleResultsFound, w')"
    by (metis prod.collapse)
  from evaluate_raises(3) [OF this] r assms int4_quantity [of "committed w" row] show False by auto
qed

end
