(* ===== verification/UpdateRaces.thy ===== *)
theory UpdateRaces
  imports Races
begin

text \<open>
  Read, then write, with other requests in between: resolving an alert and updating a product,
  cut as in Races. Two updates of one product merge column by column, because SQLAlchemy sends
  only the columns that differ from what was loaded; two resolutions of one alert both succeed.
\<close>

section \<open>Two resolutions of one alert\<close>

definition finish_resolve_alert :: "'x deps \<Rightarrow> uuid \<Rightarrow> alert \<Rightarrow> ('x, alert) service" where
  "finish_resolve_alert e i a = (if al_status a = RESOLVED then raise (already_resolved i) else resolve e a)"

definition interrupted_resolve_alert ::
  "'x deps \<Rightarrow> ('x world \<Rightarrow> 'x world) \<Rightarrow> uuid \<Rightarrow> ('x, alert) service" where
  "interrupted_resolve_alert e f i = andthen (get_by_id_or_raise alerts_table i) (\<lambda>a.
     andthen (others_run f) (\<lambda>_. finish_resolve_alert e i a))"

lemma resolve_same_id: "entity_id a = entity_id b \<Longrightarrow> resolve e a = resolve e b"
  by (simp add: resolve_def)

lemma raced_resolution:
  assumes a: "find (\<lambda>r. entity_id r = i) (alerts (work w)) = Some a" and active: "al_status a = ACTIVE"
    and ok: "constraints (committed (f w))"
    and b: "b \<in> set (alerts (committed (f w)))" "entity_id b = i"
  shows "\<exists>w'. interrupted_resolve_alert e f i w =
      (Inr (resolving (tx_time w) (clock e (tick (f w))) b), w') \<and>
    committed w' = with_changed alerts_table i (resolving (tx_time w) (clock e (tick (f w)))) (committed (f w))"
proof -
  let ?v = "(f w)\<lparr>work := committed (f w), row_locks := [], tx_time := tx_time w\<rparr>"
  have id: "entity_id a = entity_id b" using a b(2) by (auto dest: find_SomeD)
  have "resolve e b ?v = (Inr (resolving (tx_time w) (clock e (tick (f w))) b),
      alert_saved e b (resolving (tx_time w) (clock e (tick (f w)))) (?v\<lparr>tick := Suc (tick (f w))\<rparr>))"
    using resolve_run [of ?v b e] ok b(1) by simp
  then show ?thesis
    using a active resolve_same_id [OF id, of e] b(2)
    by (simp add: interrupted_resolve_alert_def finish_resolve_alert_def andthen_def
        get_by_id_or_raise_run alerts_table_def others_run_run)
qed

section \<open>Two updates of one product\<close>

text \<open>
  SQLAlchemy sends the columns whose new value differs from the loaded one. \<open>net\<close> leaves out
  the rest: a field set to the value it was loaded with is not sent.
\<close>

definition net :: "'a \<Rightarrow> 'a patch \<Rightarrow> 'a patch" where
  "net loaded x = (if x = Value loaded then Unset else x)"

definition net_nullable :: "'a option \<Rightarrow> 'a patch \<Rightarrow> 'a patch" where
  "net_nullable loaded x = (case loaded of None \<Rightarrow> (if x = Null then Unset else x) | Some a \<Rightarrow> net a x)"

definition net_price :: "int \<Rightarrow> decimal patch \<Rightarrow> decimal patch" where
  "net_price loaded x = (case x of Value d \<Rightarrow> if cents d = loaded then Unset else x | _ \<Rightarrow> x)"

definition net_update :: "product \<Rightarrow> product_update \<Rightarrow> product_update" where
  "net_update r u = \<lparr>pu_sku = net (prod_sku r) (pu_sku u), pu_name = net (prod_name r) (pu_name u),
     pu_description = net_nullable (prod_description r) (pu_description u),
     pu_price = net_price (prod_price r) (pu_price u),
     pu_is_active = net (prod_is_active r) (pu_is_active u)\<rparr>"

definition no_change :: product_update where
  "no_change = \<lparr>pu_sku = Unset, pu_name = Unset, pu_description = Unset, pu_price = Unset, pu_is_active = Unset\<rparr>"

definition send_update :: "int \<Rightarrow> product_update \<Rightarrow> product \<Rightarrow> product" where
  "send_update now u r = (if u = no_change then r else case apply_product_update u r of
     None \<Rightarrow> r | Some r' \<Rightarrow> r'\<lparr>updated_at := now\<rparr>)"

definition finish_update_product :: "'x deps \<Rightarrow> uuid \<Rightarrow> product_update \<Rightarrow> product \<Rightarrow> ('x, product) service" where
  "finish_update_product e i u loaded = (case apply_product_update u loaded of
     None \<Rightarrow> raise DatabaseError
   | Some _ \<Rightarrow> andthen (gets tx_time) (\<lambda>now. save e products_table i (send_update now (net_update loaded u))))"

definition check_sku :: "product_update \<Rightarrow> product \<Rightarrow> ('x, unit) service" where
  "check_sku u r = (case pu_sku u of
     Value new_sku \<Rightarrow>
       if new_sku \<noteq> prod_sku r then
         andthen (get_by_sku new_sku) (\<lambda>existing.
           case existing of Some _ \<Rightarrow> raise (product_conflict new_sku) | None \<Rightarrow> ret ())
       else ret ()
   | _ \<Rightarrow> ret ())"

definition interrupted_update_product ::
  "'x deps \<Rightarrow> ('x world \<Rightarrow> 'x world) \<Rightarrow> uuid \<Rightarrow> product_update \<Rightarrow> ('x, product) service" where
  "interrupted_update_product e f i u = andthen (get_by_id_or_raise products_table i) (\<lambda>r.
     andthen (check_sku u r) (\<lambda>_. andthen (others_run f) (\<lambda>_. finish_update_product e i u r)))"

lemma prod_touch_sel [simp]:
  "prod_sku (touch now g r) = prod_sku (g r)" "prod_name (touch now g r) = prod_name (g r)"
  "prod_description (touch now g r) = prod_description (g r)" "prod_price (touch now g r) = prod_price (g r)"
  "prod_is_active (touch now g r) = prod_is_active (g r)"
  by (simp_all add: touch_def Let_def)

text \<open>An idle pause: what is sent then changes the row as the whole payload does.\<close>

lemma set_net [simp]:
  "set_required (net a x) a = set_required x a" "set_nullable (net_nullable b y) b = set_nullable y b"
  "set_required (patch_cents (net_price c z)) c = set_required (patch_cents z) c"
  by (auto simp: set_required_def set_nullable_def net_def net_nullable_def net_price_def patch_cents_def
      split: patch.splits option.splits)

lemma net_sel:
  "pu_sku (net_update r u) = net (prod_sku r) (pu_sku u)" "pu_name (net_update r u) = net (prod_name r) (pu_name u)"
  "pu_description (net_update r u) = net_nullable (prod_description r) (pu_description u)"
  "pu_price (net_update r u) = net_price (prod_price r) (pu_price u)"
  "pu_is_active (net_update r u) = net (prod_is_active r) (pu_is_active u)"
  by (simp_all add: net_update_def)

lemma apply_net: "apply_product_update (net_update r u) r = apply_product_update u r"
  unfolding apply_product_update_def net_sel set_net ..

lemma apply_SomeD:
  assumes "apply_product_update u r = Some r'"
  shows "set_required (pu_sku u) (prod_sku r) = Some (prod_sku r')"
    and "set_required (pu_name u) (prod_name r) = Some (prod_name r')"
    and "set_nullable (pu_description u) (prod_description r) = prod_description r'"
    and "set_required (patch_cents (pu_price u)) (prod_price r) = Some (prod_price r')"
    and "set_required (pu_is_active u) (prod_is_active r) = Some (prod_is_active r')"
  using assms by (auto simp: apply_product_update_def split: option.splits)

lemma net_Unset:
  "set_required x a = Some a \<Longrightarrow> net a x = Unset" "set_nullable y b = b \<Longrightarrow> net_nullable b y = Unset"
  "set_required (patch_cents z) c = Some c \<Longrightarrow> net_price c z = Unset"
  by (auto simp: set_required_def set_nullable_def net_def net_nullable_def net_price_def patch_cents_def
      split: patch.splits option.splits)

lemma send_net:
  assumes "apply_product_update u r = Some r'"
  shows "touch now (send_update now (net_update r u)) r = touch now (\<lambda>r. case apply_product_update u r of
    Some r' \<Rightarrow> r' | None \<Rightarrow> r) r"
proof (cases "net_update r u = no_change")
  case True
  then have "apply_product_update u r = apply_product_update no_change r" by (metis apply_net)
  also have "\<dots> = Some r"
    by (simp add: apply_product_update_def no_change_def set_required_def set_nullable_def patch_cents_def)
  finally show ?thesis using True by (simp add: send_update_def touch_def)
next
  case False
  have "r' \<noteq> r"
  proof
    assume same: "r' = r"
    have "net_update r u = no_change"
      using apply_SomeD [OF assms, unfolded same] by (simp add: net_update_def no_change_def net_Unset)
    with False show False by simp
  qed
  with False assms show ?thesis by (simp add: send_update_def apply_net touch_def Let_def)
qed

text \<open>
  Column by column: what was sent wins, and what was not sent is as the others left it.
\<close>

lemma merge_net:
  "set_required x a = Some a' \<Longrightarrow> set_required (net a x) b = Some (if a' = a then b else a')"
  "set_nullable y c = c' \<Longrightarrow> set_nullable (net_nullable c y) d = (if c' = c then d else c')"
  "set_required (patch_cents z) k = Some k' \<Longrightarrow>
     set_required (patch_cents (net_price k z)) m = Some (if k' = k then m else k')"
  by (auto simp: set_required_def set_nullable_def net_def net_nullable_def net_price_def patch_cents_def
      split: patch.splits option.splits)

definition merged :: "product \<Rightarrow> product \<Rightarrow> product \<Rightarrow> product" where
  "merged loaded mine theirs = theirs\<lparr>
     prod_sku := (if prod_sku mine = prod_sku loaded then prod_sku theirs else prod_sku mine),
     prod_name := (if prod_name mine = prod_name loaded then prod_name theirs else prod_name mine),
     prod_description := (if prod_description mine = prod_description loaded
       then prod_description theirs else prod_description mine),
     prod_price := (if prod_price mine = prod_price loaded then prod_price theirs else prod_price mine),
     prod_is_active := (if prod_is_active mine = prod_is_active loaded
       then prod_is_active theirs else prod_is_active mine)\<rparr>"

lemma apply_net_merges:
  assumes "apply_product_update u r = Some r1"
  shows "apply_product_update (net_update r u) s = Some (merged r r1 s)"
proof -
  note d = apply_SomeD [OF assms]
  show ?thesis
    unfolding apply_product_update_def net_sel merge_net(1) [OF d(1)] merge_net(1) [OF d(2)]
      merge_net(2) [OF d(3)] merge_net(3) [OF d(4)] merge_net(1) [OF d(5)]
    by (simp add: merged_def)
qed

lemma send_update_merges:
  assumes "apply_product_update u r = Some r1"
  shows "\<exists>now'. send_update now (net_update r u) s = (merged r r1 s)\<lparr>updated_at := now'\<rparr>"
proof (cases "net_update r u = no_change")
  case True
  have "apply_product_update no_change s = Some s"
    by (simp add: apply_product_update_def no_change_def set_required_def set_nullable_def patch_cents_def)
  then have "merged r r1 s = s" using apply_net_merges [OF assms, of s] True by simp
  then have "send_update now (net_update r u) s = (merged r r1 s)\<lparr>updated_at := updated_at s\<rparr>"
    using True by (simp add: send_update_def)
  then show ?thesis by blast
next
  case False
  then have "send_update now (net_update r u) s = (merged r r1 s)\<lparr>updated_at := now\<rparr>"
    using apply_net_merges [OF assms] by (simp add: send_update_def)
  then show ?thesis by blast
qed

lemma touch_updated_at: "\<exists>now'. touch now g r = (g r)\<lparr>updated_at := now'\<rparr>"
proof (cases "g r = r")
  case True
  then have "touch now g r = (g r)\<lparr>updated_at := updated_at r\<rparr>" by (simp add: touch_def)
  then show ?thesis by blast
next
  case False
  then have "touch now g r = (g r)\<lparr>updated_at := now\<rparr>" by (simp add: touch_def Let_def)
  then show ?thesis by blast
qed

lemma merged_id [simp]: "entity_id (merged r r1 s) = entity_id s"
  by (simp add: merged_def)

lemma send_update_id: "entity_id (send_update now u s) = entity_id s"
  by (auto simp: send_update_def apply_product_update_def split: option.splits)

text \<open>The check of a new SKU, before the pause.\<close>

definition sku_taken :: "product_update \<Rightarrow> product \<Rightarrow> db \<Rightarrow> bool" where
  "sku_taken u r d \<longleftrightarrow> (case pu_sku u of
     Value k \<Rightarrow> k \<noteq> prod_sku r \<and> k \<in> prod_sku ` set (products d) | _ \<Rightarrow> False)"

lemma check_sku_run:
  assumes "constraints (work w)"
  shows "check_sku u r w = (if sku_taken u r (work w)
    then Inl (product_conflict (case pu_sku u of Value k \<Rightarrow> k | _ \<Rightarrow> [])) else Inr (), w)"
  using product_service.select_run [OF assms] product_service.lookup_None [of "work w"]
  by (auto simp: check_sku_def sku_taken_def andthen_def get_by_sku_def split: patch.splits option.splits)
    (metis option.distinct(1))

lemma interrupted_update_refused:
  assumes "find (\<lambda>r. entity_id r = i) (products (work w)) = Some r" and "constraints (work w)"
    and "sku_taken u r (work w)"
  shows "\<exists>k. pu_sku u = Value k \<and> interrupted_update_product e f i u w = (Inl (product_conflict k), w)"
proof -
  obtain k where "pu_sku u = Value k" using assms(3) by (auto simp: sku_taken_def split: patch.splits)
  with assms show ?thesis
    by (simp add: interrupted_update_product_def andthen_def get_by_id_or_raise_run check_sku_run)
qed

lemma interrupted_update_null:
  assumes "find (\<lambda>r. entity_id r = i) (products (work w)) = Some r" and "constraints (work w)"
    and "\<not> sku_taken u r (work w)" and "apply_product_update u r = None"
  shows "\<exists>w'. interrupted_update_product e f i u w = (Inl DatabaseError, w') \<and> committed w' = committed (f w)"
  using assms
  by (simp add: interrupted_update_product_def andthen_def get_by_id_or_raise_run check_sku_run
      others_run_run finish_update_product_def)

lemma interrupted_update_run:
  assumes r: "find (\<lambda>r. entity_id r = i) (products (work w)) = Some r" and w: "constraints (work w)"
    and u: "apply_product_update u r = Some r1" and sku: "\<not> sku_taken u r (work w)"
    and s: "s \<in> set (products (committed (f w)))" "entity_id s = i"
    and ok: "constraints (committed (f w))"
  obtains g now w' where "g s = (merged r r1 s)\<lparr>updated_at := now\<rparr>"
    and "if constraints (with_changed products_table i g (committed (f w)))
      then interrupted_update_product e f i u w = (Inr (g s), w') \<and>
        committed w' = with_changed products_table i g (committed (f w))
      else interrupted_update_product e f i u w = (Inl DatabaseError, w') \<and>
        committed w' = committed (f w)"
proof -
  let ?v = "(f w)\<lparr>work := committed (f w), row_locks := [], tx_time := tx_time w\<rparr>"
  let ?h = "send_update (tx_time w) (net_update r u)"
  let ?g = "touch (tx_time w) ?h"
  let ?d = "with_changed products_table i ?g (committed (f w))"
  obtain n1 where "?h s = (merged r r1 s)\<lparr>updated_at := n1\<rparr>" using send_update_merges [OF u] by blast
  moreover obtain n2 where "?g s = (?h s)\<lparr>updated_at := n2\<rparr>" using touch_updated_at by blast
  ultimately have g: "?g s = (merged r r1 s)\<lparr>updated_at := n2\<rparr>" by simp
  have sv: "s \<in> set (rows products_table (work ?v))" using s(1) by simp
  have run: "interrupted_update_product e f i u w = save e products_table i ?h ?v"
    using r u w sku by (simp add: interrupted_update_product_def andthen_def get_by_id_or_raise_run
        check_sku_run others_run_run finish_update_product_def)
  from products_store.save_run [where f = ?h and e = e, OF sv _ send_update_id] ok s(2)
  have sav: "save e products_table i ?h ?v =
    (if constraints ?d then (Inr (?g s), committed_world e (?v\<lparr>work := ?d\<rparr>))
     else (Inl DatabaseError, ?v\<lparr>work := ?d\<rparr>))"
    by (simp add: Let_def del: with_changed_tables)
  show thesis
    by (rule that [of ?g n2 "snd (save e products_table i ?h ?v)", OF g])
      (simp add: run sav del: with_changed_tables)
qed

text \<open>A SKU taken during the pause: the check came too early, and the unique index refuses the row.\<close>

lemma sku_taken_meanwhile:
  assumes ok: "constraints (d\<lparr>products := update_by entity_id i (\<lambda>_. r) (products d)\<rparr>)"
    and theirs: "theirs \<in> set (products d)" "entity_id theirs = i" and r: "entity_id r = i"
    and s: "s \<in> set (products d)" "entity_id s \<noteq> i"
  shows "prod_sku s \<noteq> prod_sku r"
proof
  assume same: "prod_sku s = prod_sku r"
  let ?ps = "update_by entity_id i (\<lambda>_. r) (products d)"
  have "distinct (map prod_sku ?ps)" using ok by (simp add: constraint_defs)
  moreover have "s \<in> set ?ps" "r \<in> set ?ps"
    using s theirs by (force simp: update_by_def)+
  ultimately have "s = r" using same by (auto simp: distinct_map dest: inj_onD)
  with r s show False by simp
qed

text \<open>With an idle pause both are the services themselves.\<close>

lemma check_sku_state: "snd (check_sku u r w) = w"
  by (auto simp: check_sku_def andthen_def get_by_sku_def select_one_run split: patch.splits sum.splits option.splits)

lemma update_by_same:
  "distinct (map key xs) \<Longrightarrow> r \<in> set xs \<Longrightarrow> f r = g r \<Longrightarrow> update_by key (key r) f xs = update_by key (key r) g xs"
  by (auto simp: update_by_def distinct_map inj_on_def)

lemma finish_update_idle:
  assumes ok: "constraints (work w)" and r: "find (\<lambda>r. entity_id r = i) (products (work w)) = Some r"
  shows "finish_update_product e i u r w = (case apply_product_update u r of None \<Rightarrow> raise DatabaseError
    | Some _ \<Rightarrow> save e products_table i (\<lambda>r. case apply_product_update u r of Some r' \<Rightarrow> r' | None \<Rightarrow> r)) w"
proof (cases "apply_product_update u r")
  case (Some r1)
  let ?f = "\<lambda>r. case apply_product_update u r of Some r' \<Rightarrow> r' | None \<Rightarrow> r"
  let ?h = "send_update (tx_time w) (net_update r u)"
  have mem: "r \<in> set (rows products_table (work w))" "entity_id r = i" using r by (auto dest: find_SomeD)
  have id: "entity_id (?f r) = entity_id r" using Some by (auto simp: apply_product_update_def split: option.splits)
  have same: "touch (tx_time w) ?h r = touch (tx_time w) ?f r" by (rule send_net [OF Some])
  have "distinct (map entity_id (products (work w)))" using ok by (simp add: constraint_defs ids_def)
  from update_by_same [where f = "touch (tx_time w) ?h" and g = "touch (tx_time w) ?f", OF this _ same] mem
  have "with_changed products_table (entity_id r) (touch (tx_time w) ?h) (work w) =
      with_changed products_table (entity_id r) (touch (tx_time w) ?f) (work w)" by simp
  then have "save e products_table (entity_id r) ?h w = save e products_table (entity_id r) ?f w"
    using products_store.save_run [where f = ?h and e = e, OF mem(1) ok send_update_id]
      products_store.save_run [where f = ?f and e = e, OF mem(1) ok id] same
    by (simp only: Let_def)
  then show ?thesis using Some mem(2) by (simp add: finish_update_product_def andthen_def)
qed (simp add: finish_update_product_def)

lemma idle_update:
  assumes "committed w = work w" and "row_locks w = []" and ok: "constraints (work w)"
  shows "interrupted_update_product e (\<lambda>w. w) i u w = update_product e i u w"
proof (cases "find (\<lambda>r. entity_id r = i) (products (work w))")
  case None
  then show ?thesis
    by (simp add: interrupted_update_product_def update_product_def andthen_def get_by_id_or_raise_run)
next
  case (Some r)
  obtain x where c: "check_sku u r w = (x, w)" using check_sku_state [of u r w] by (metis prod.collapse)
  show ?thesis
    using Some c finish_update_idle [OF ok Some, of e u] idle [OF assms(1,2)]
    by (cases x) (simp_all add: interrupted_update_product_def update_product_def get_by_id_or_raise_run
        andthen_def flip: check_sku_def)
qed

lemma idle_resolution:
  assumes "committed w = work w" and "row_locks w = []"
  shows "interrupted_resolve_alert e (\<lambda>w. w) i w = resolve_alert e i w"
proof -
  have s: "snd (get_by_id_or_raise alerts_table i v) = v" for v :: "'a world"
    by (simp add: get_by_id_or_raise_run split: option.splits)
  have "resolve_alert e i = andthen (get_by_id_or_raise alerts_table i) (finish_resolve_alert e i)"
    by (simp add: resolve_alert_def finish_resolve_alert_def [abs_def])
  then show ?thesis
    unfolding interrupted_resolve_alert_def using andthen_same_state [OF s idle [OF assms]] by simp
qed

end
