(* ===== verification/Relay.thy ===== *)
theory Relay
  imports WebSockets Startup
begin

text \<open>
  The life of the relay task (\<open>relay_to_local_clients\<close> in app/websockets/pubsub.py, started
  and cancelled by the lifespan of app/main.py): subscribing, one turn per message, and the
  two ways the loop is left, by cancellation and by an exception of the feed itself. Both
  pass through the finally clause, which unsubscribes.
\<close>

datatype 'e feed = Arrives redis_message | Lost 'e | Cancel

record ('c, 'e) relay_state =
  rl_task :: "'e relay_task"
  rl_subscribed :: bool
  rl_connections :: "'c connections"
  rl_sent :: "('c list \<times> (string \<times> json) list) list"

text \<open>
  \<open>failed\<close> is the exception of the SUBSCRIBE, if any: it is raised outside the try block, so
  the task ends with it.
\<close>

definition relay_start :: "'e option \<Rightarrow> 'c connections \<Rightarrow> ('c, 'e) relay_state" where
  "relay_start failed conns = \<lparr>rl_task = (case failed of None \<Rightarrow> Relaying | Some x \<Rightarrow> Failed x),
     rl_subscribed = (failed = None), rl_connections = conns, rl_sent = []\<rparr>"

text \<open>
  The finally clause: the exception of the UNSUBSCRIBE, if any, replaces the one being raised.
\<close>

definition leave_loop :: "'e option \<Rightarrow> 'e relay_task \<Rightarrow> ('c, 'e) relay_state \<Rightarrow> ('c, 'e) relay_state" where
  "leave_loop unsubscribe_fails t st = (case unsubscribe_fails of
     None \<Rightarrow> st\<lparr>rl_task := t, rl_subscribed := False\<rparr>
   | Some y \<Rightarrow> st\<lparr>rl_task := Failed y\<rparr>)"

definition relay_turn ::
  "(string \<Rightarrow> envelope option) \<Rightarrow> ('c \<Rightarrow> bool) \<Rightarrow> 'e option \<Rightarrow> 'e feed \<Rightarrow> ('c, 'e) relay_state \<Rightarrow>
     ('c, 'e) relay_state" where
  "relay_turn loads ok unsubscribe_fails ev st =
     (if rl_task st \<noteq> Relaying then st
      else case ev of
        Arrives raw \<Rightarrow> (case relay_message loads ok raw (rl_connections st) of
          (sent, conns) \<Rightarrow> st\<lparr>rl_connections := conns, rl_sent := rl_sent st @ sent\<rparr>)
      | Lost x \<Rightarrow> leave_loop unsubscribe_fails (Failed x) st
      | Cancel \<Rightarrow> leave_loop unsubscribe_fails Cancelled st)"

fun relay_run ::
  "(string \<Rightarrow> envelope option) \<Rightarrow> ('c \<Rightarrow> bool) \<Rightarrow> 'e option \<Rightarrow> 'e feed list \<Rightarrow> ('c, 'e) relay_state \<Rightarrow>
     ('c, 'e) relay_state" where
  "relay_run loads ok u [] st = st"
| "relay_run loads ok u (ev # evs) st = relay_run loads ok u evs (relay_turn loads ok u ev st)"

text \<open>The relay task beside whatever else the process does while it serves.\<close>

definition beside_relay ::
  "('c, 'e) relay_state \<Rightarrow> (('s, 'e) process, 'e, unit) prog \<Rightarrow> (('s, 'e) process, 'e, unit) prog" where
  "beside_relay st serving = (\<lambda>p. case serving p of (r, p') \<Rightarrow> (r, p'\<lparr>relay := rl_task st\<rparr>))"

lemma relay_ended: "rl_task st \<noteq> Relaying \<Longrightarrow> relay_run loads ok u evs st = st"
  by (induction evs) (simp_all add: relay_turn_def)

lemma relay_run_append: "relay_run loads ok u (xs @ ys) st = relay_run loads ok u ys (relay_run loads ok u xs st)"
  by (induction xs arbitrary: st) simp_all

text \<open>While it runs, the task delivers what the loop over the messages delivers.\<close>

lemma relay_messages:
  assumes "rl_task st = Relaying"
  shows "relay_run loads ok u (map Arrives raws) st =
    (case relay_to_local_clients loads ok raws (rl_connections st) of
       (sent, conns) \<Rightarrow> st\<lparr>rl_connections := conns, rl_sent := rl_sent st @ sent\<rparr>)"
  using assms
proof (induction raws arbitrary: st)
  case (Cons raw raws)
  obtain sent conns where m: "relay_message loads ok raw (rl_connections st) = (sent, conns)"
    by (cases "relay_message loads ok raw (rl_connections st)")
  show ?case
    using Cons.IH [of "st\<lparr>rl_connections := conns, rl_sent := rl_sent st @ sent\<rparr>"] Cons.prems m
    by (simp add: relay_turn_def split: prod.splits)
qed simp

lemma relay_started:
  "relay_run loads ok u (map Arrives raws) (relay_start None conns) =
    \<lparr>rl_task = Relaying, rl_subscribed = True,
     rl_connections = snd (relay_to_local_clients loads ok raws conns),
     rl_sent = fst (relay_to_local_clients loads ok raws conns)\<rparr>"
  by (simp add: relay_messages relay_start_def split: prod.splits)

text \<open>After the feed has failed nothing is delivered any more.\<close>

lemma relay_lost:
  assumes st: "st = relay_run loads ok u (map Arrives raws @ Lost x # evs) (relay_start None conns)"
  shows "rl_sent st = fst (relay_to_local_clients loads ok raws conns)"
    and "rl_connections st = snd (relay_to_local_clients loads ok raws conns)"
    and "rl_task st = Failed (case u of None \<Rightarrow> x | Some y \<Rightarrow> y)"
proof -
  let ?s = "relay_run loads ok u (map Arrives raws) (relay_start None conns)"
  let ?t = "relay_turn loads ok u (Lost x) ?s"
  have t: "?t = leave_loop u (Failed x) ?s" by (simp add: relay_turn_def relay_started)
  have "rl_task ?t \<noteq> Relaying" unfolding t by (simp add: leave_loop_def split: option.splits)
  then have "st = leave_loop u (Failed x) ?s"
    unfolding st by (simp add: relay_run_append relay_ended t)
  then show "rl_sent st = fst (relay_to_local_clients loads ok raws conns)"
    and "rl_connections st = snd (relay_to_local_clients loads ok raws conns)"
    and "rl_task st = Failed (case u of None \<Rightarrow> x | Some y \<Rightarrow> y)"
    by (simp_all add: leave_loop_def relay_started split: option.splits)
qed

lemma relay_cancelled:
  "rl_task (relay_run loads ok None (map Arrives raws @ [Cancel]) (relay_start None conns)) = Cancelled"
  "\<not> rl_subscribed (relay_run loads ok None (map Arrives raws @ [Cancel]) (relay_start None conns))"
  by (simp_all add: relay_run_append relay_started relay_turn_def leave_loop_def)

lemma lifespan_beside:
  "lifespan api (beside_relay st serving) p =
    (case serving (p\<lparr>relay := Relaying, scheduler := start_scheduler api (scheduler p)\<rparr>) of
       (result, p1) \<Rightarrow> let s = stop_scheduler api (scheduler p1) in
          case rl_task st of
            Failed x \<Rightarrow> (Inl x, p1\<lparr>relay := Failed x, scheduler := s\<rparr>)
          | _ \<Rightarrow> (result, p1\<lparr>relay := Cancelled, scheduler := s, redis_open := False\<rparr>))"
  by (auto simp: lifespan_def beside_relay_def Let_def split: prod.splits relay_task.splits)

end
