(* ===== verification/Engines.thy ===== *)
theory Engines
  imports Startup
begin

text \<open>
  The two database engines (app/core/session.py): one pooled, for the API process and its
  single event loop, and one without a pool for the Celery tasks, each of which runs on an
  event loop of its own (\<open>asyncio.run\<close> in app/tasks). A connection is usable on the loop it was
  opened on and fails on any other.

  A connection is modelled by the loop it belongs to. The pool classes are SQLAlchemy's: a
  pool keeps what is returned to it, NullPool closes it.
\<close>

section \<open>Configuration\<close>

datatype pool_class = QueuePool | NullPool

record engine =
  eng_url :: string
  eng_echo :: bool
  eng_pre_ping :: bool
  eng_pool_class :: pool_class

definition pooled_engine :: "settings \<Rightarrow> engine" where
  "pooled_engine s = \<lparr>eng_url = set_database_url s, eng_echo = set_debug s, eng_pre_ping = True,
     eng_pool_class = QueuePool\<rparr>"

definition task_engine :: "settings \<Rightarrow> engine" where
  "task_engine s = \<lparr>eng_url = set_database_url s, eng_echo = set_debug s, eng_pre_ping = False,
     eng_pool_class = NullPool\<rparr>"

record session_maker =
  sm_bind :: engine
  sm_expire_on_commit :: bool
  sm_autoflush :: bool

definition AsyncSessionLocal :: "settings \<Rightarrow> session_maker" where
  "AsyncSessionLocal s = \<lparr>sm_bind = pooled_engine s, sm_expire_on_commit = False, sm_autoflush = False\<rparr>"

definition TaskSessionLocal :: "settings \<Rightarrow> session_maker" where
  "TaskSessionLocal s = \<lparr>sm_bind = task_engine s, sm_expire_on_commit = False, sm_autoflush = False\<rparr>"

section \<open>Connections\<close>

record pool =
  idle_connections :: "nat list"
  opened_connections :: nat

definition empty_pool :: pool where
  "empty_pool = \<lparr>idle_connections = [], opened_connections = 0\<rparr>"

definition checkout :: "engine \<Rightarrow> nat \<Rightarrow> pool \<Rightarrow> nat \<times> pool" where
  "checkout eng loop p = (case (eng_pool_class eng, idle_connections p) of
     (QueuePool, c # cs) \<Rightarrow> (c, p\<lparr>idle_connections := cs\<rparr>)
   | _ \<Rightarrow> (loop, p\<lparr>opened_connections := Suc (opened_connections p)\<rparr>))"

definition checkin :: "engine \<Rightarrow> nat \<Rightarrow> pool \<Rightarrow> pool" where
  "checkin eng c p = (case eng_pool_class eng of
     QueuePool \<Rightarrow> p\<lparr>idle_connections := c # idle_connections p\<rparr> | NullPool \<Rightarrow> p)"

text \<open>
  A session used on a loop: whether its connection works there. A connection that failed is
  not given back.
\<close>

definition use_session :: "session_maker \<Rightarrow> nat \<Rightarrow> pool \<Rightarrow> bool \<times> pool" where
  "use_session m loop p = (case checkout (sm_bind m) loop p of
     (c, p') \<Rightarrow> if c = loop then (True, checkin (sm_bind m) c p') else (False, p'))"

text \<open>Sessions one after the other, each on the loop listed for it.\<close>

fun use_sessions :: "session_maker \<Rightarrow> nat list \<Rightarrow> pool \<Rightarrow> bool list \<times> pool" where
  "use_sessions m [] p = ([], p)"
| "use_sessions m (l # ls) p = (case use_session m l p of (b, p1) \<Rightarrow>
     case use_sessions m ls p1 of (bs, p2) \<Rightarrow> (b # bs, p2))"

text \<open>\<open>asyncio.run\<close> makes a new loop for each task.\<close>

definition task_loops :: "nat \<Rightarrow> nat list" where
  "task_loops n = [0..<n]"

lemma task_session_works:
  "use_session (TaskSessionLocal s) l p = (True, p\<lparr>opened_connections := Suc (opened_connections p)\<rparr>)"
  by (simp add: use_session_def TaskSessionLocal_def task_engine_def checkout_def checkin_def)

lemma task_sessions_work:
  "use_sessions (TaskSessionLocal s) ls p =
     (replicate (length ls) True, p\<lparr>opened_connections := opened_connections p + length ls\<rparr>)"
  by (induction ls arbitrary: p) (simp_all add: task_session_works)

lemma api_session_reuses:
  "use_session (AsyncSessionLocal s) l \<lparr>idle_connections = [l], opened_connections = n\<rparr> =
     (True, \<lparr>idle_connections = [l], opened_connections = n\<rparr>)"
  by (simp add: use_session_def AsyncSessionLocal_def pooled_engine_def checkout_def checkin_def)

lemma api_sessions_reuse:
  "use_sessions (AsyncSessionLocal s) (replicate n l) \<lparr>idle_connections = [l], opened_connections = k\<rparr> =
     (replicate n True, \<lparr>idle_connections = [l], opened_connections = k\<rparr>)"
  by (induction n) (simp_all add: api_session_reuses)

lemma api_sessions_work:
  "use_sessions (AsyncSessionLocal s) (replicate (Suc n) l) empty_pool =
     (replicate (Suc n) True, \<lparr>idle_connections = [l], opened_connections = 1\<rparr>)"
proof -
  have "use_session (AsyncSessionLocal s) l empty_pool = (True, \<lparr>idle_connections = [l], opened_connections = 1\<rparr>)"
    by (simp add: use_session_def AsyncSessionLocal_def pooled_engine_def checkout_def checkin_def empty_pool_def)
  then show ?thesis using api_sessions_reuse [of s n l 1] by simp
qed

text \<open>What the tasks would meet on the pooled engine: the second one fails.\<close>

lemma pooled_tasks_fail:
  "take 2 (fst (use_sessions (AsyncSessionLocal s) (task_loops (n + 2)) empty_pool)) = [True, False]"
proof -
  have loops: "task_loops (n + 2) = 0 # 1 # [2..<n + 2]"
    by (simp add: task_loops_def upt_conv_Cons eval_nat_numeral del: upt_Suc)
  show ?thesis
    unfolding loops
    by (simp add: use_session_def AsyncSessionLocal_def pooled_engine_def checkout_def checkin_def
        empty_pool_def split: prod.splits)
qed

end
