(* ===== verification/Routing.thy ===== *)
theory Routing
  imports Contract "HOL-Library.Monad_Syntax"
begin

text \<open>
  From an HTTP request to an endpoint: the routers of app/api/v1/endpoints with the paths,
  methods and parameters of their routes, their composition (app/api/v1/router.py, main.py),
  and Starlette's rules for choosing a route. What Pydantic reads from a text is a field of
  \<open>pydantic\<close>; the last section shows that every request of the HTTP surface is the meaning of
  a method, a path, a query and a body, and that no other route could have taken it.
\<close>

section \<open>Routes\<close>

datatype http_method = GET | POST | PUT | DELETE

datatype segment = Lit string | Param string

datatype handler =
    list_warehouses_handler | get_warehouse_handler | create_warehouse_handler
  | update_warehouse_handler | deactivate_warehouse_handler
  | list_products_handler | get_product_handler | create_product_handler
  | update_product_handler | deactivate_product_handler
  | list_inventory_handler | get_stock_level_handler | record_movement_handler
  | list_movements_handler | get_movement_handler
  | list_alerts_handler | get_alert_handler | resolve_alert_handler
  | inventory_summary_handler | valuation_handler | health_handler | root_handler

record route =
  rt_method :: http_method
  rt_path :: "segment list"
  rt_tags :: "string list"
  rt_handler :: handler

definition api_route :: "string \<Rightarrow> string \<Rightarrow> http_method \<times> segment list \<times> handler \<Rightarrow> route" where
  "api_route prefix tag = (\<lambda>(m, path, h). \<lparr>rt_method = m, rt_path = Lit prefix # path, rt_tags = [tag],
     rt_handler = h\<rparr>)"

definition warehouses_router :: "route list" where
  "warehouses_router = map (api_route ''warehouses'' ''Warehouses'')
     [(GET, [], list_warehouses_handler),
      (GET, [Param ''warehouse_id''], get_warehouse_handler),
      (POST, [], create_warehouse_handler),
      (PUT, [Param ''warehouse_id''], update_warehouse_handler),
      (DELETE, [Param ''warehouse_id''], deactivate_warehouse_handler)]"

definition products_router :: "route list" where
  "products_router = map (api_route ''products'' ''Products'')
     [(GET, [], list_products_handler),
      (GET, [Param ''product_id''], get_product_handler),
      (POST, [], create_product_handler),
      (PUT, [Param ''product_id''], update_product_handler),
      (DELETE, [Param ''product_id''], deactivate_product_handler)]"

definition inventory_router :: "route list" where
  "inventory_router = map (api_route ''inventory'' ''Inventory'')
     [(GET, [], list_inventory_handler),
      (GET, [Param ''product_id'', Param ''warehouse_id''], get_stock_level_handler),
      (POST, [], record_movement_handler)]"

definition movements_router :: "route list" where
  "movements_router = map (api_route ''movements'' ''Movements'')
     [(GET, [], list_movements_handler), (GET, [Param ''movement_id''], get_movement_handler)]"

definition alerts_router :: "route list" where
  "alerts_router = map (api_route ''alerts'' ''Alerts'')
     [(GET, [], list_alerts_handler), (GET, [Param ''alert_id''], get_alert_handler),
      (POST, [Param ''alert_id'', Lit ''resolve''], resolve_alert_handler)]"

definition reports_router :: "route list" where
  "reports_router = map (api_route ''reports'' ''Reports'')
     [(GET, [Lit ''inventory-summary''], inventory_summary_handler),
      (GET, [Lit ''valuation''], valuation_handler)]"

definition health_router :: "route list" where
  "health_router = [\<lparr>rt_method = GET, rt_path = [Lit ''health''], rt_tags = [''Health''],
     rt_handler = health_handler\<rparr>]"

definition websocket_route_tag :: string where
  "websocket_route_tag = ''WebSockets''"

definition api_router :: "route list" where
  "api_router = health_router @ warehouses_router @ products_router @ inventory_router @
     movements_router @ alerts_router @ reports_router"

definition app_routes :: "string list \<Rightarrow> route list" where
  "app_routes prefix = map (\<lambda>r. r\<lparr>rt_path := map Lit prefix @ rt_path r\<rparr>) api_router @
     [\<lparr>rt_method = GET, rt_path = [Lit ''''], rt_tags = [], rt_handler = root_handler\<rparr>]"

definition default_prefix :: "string list" where
  "default_prefix = [''api'', ''v1'']"

text \<open>The em dash of the last description, in UTF-8.\<close>

definition utf8_dash :: string where
  "utf8_dash = [CHR 0xE2, CHR 0x80, CHR 0x94]"

definition OPENAPI_TAGS :: "(string \<times> string) list" where
  "OPENAPI_TAGS =
     [(''Health'', ''Liveness/readiness check used by orchestrators and uptime monitors.''),
      (''Warehouses'', ''Physical/logical storage locations that hold inventory.''),
      (''Products'', ''Catalog items that are tracked and stored as inventory.''),
      (''Inventory'', ''Current stock levels, and the single endpoint that mutates '' @
         ''them by recording a movement.''),
      (''Movements'', ''Read-only audit trail of every stock change (add, remove, transfer).''),
      (''Alerts'', ''Low-stock/out-of-stock notifications raised automatically '' @
         ''from inventory activity.''),
      (''Reports'', ''Aggregate, cross-warehouse figures computed on demand.''),
      (''WebSockets'', ''Real-time push feed for inventory activity '' @ utf8_dash @
         '' see the `/ws` route for the connection contract.'')]"

section \<open>Choosing a route\<close>

text \<open>
  A path is the list of its segments (\<open>/\<close> is one empty segment). A parameter takes one
  segment that is not empty.
\<close>

fun match_path :: "segment list \<Rightarrow> string list \<Rightarrow> (string \<times> string) list option" where
  "match_path [] [] = Some []"
| "match_path (Lit l # ps) (s # ss) = (if s = l then match_path ps ss else None)"
| "match_path (Param n # ps) (s # ss) =
     (if s = [] then None else map_option ((#) (n, s)) (match_path ps ss))"
| "match_path _ _ = None"

datatype dispatched =
    Found handler "(string \<times> string) list"
  | MethodNotAllowed
  | RedirectSlashes "string list"
  | NoRoute

definition path_matches :: "route list \<Rightarrow> string list \<Rightarrow> route list" where
  "path_matches rs path = filter (\<lambda>r. match_path (rt_path r) path \<noteq> None) rs"

definition toggle_slash :: "string list \<Rightarrow> string list" where
  "toggle_slash path = (if path \<noteq> [] \<and> last path = [] then butlast path else path @ [[]])"

text \<open>
  The first route that matches path and method; else 405 if a path matched; else a redirect to
  the path with (or without) a trailing slash if that matches; else 404.
\<close>

definition dispatch :: "route list \<Rightarrow> http_method \<Rightarrow> string list \<Rightarrow> dispatched" where
  "dispatch rs m path =
     (case filter (\<lambda>r. rt_method r = m) (path_matches rs path) of
        r # _ \<Rightarrow> (case match_path (rt_path r) path of Some ps \<Rightarrow> Found (rt_handler r) ps | None \<Rightarrow> NoRoute)
      | [] \<Rightarrow>
          if path_matches rs path \<noteq> [] then MethodNotAllowed
          else if path_matches rs (toggle_slash path) \<noteq> [] \<and> path \<noteq> [[]]
            then RedirectSlashes (toggle_slash path)
          else NoRoute)"

section \<open>Reading the parameters\<close>

record pydantic =
  read_uuid :: "string \<Rightarrow> uuid option"
  read_int :: "string \<Rightarrow> int option"
  read_bool :: "string \<Rightarrow> bool option"
  read_warehouse_create :: "string \<Rightarrow> warehouse_create option"
  read_warehouse_update :: "string \<Rightarrow> warehouse_update option"
  read_product_create :: "string \<Rightarrow> product_create option"
  read_product_update :: "string \<Rightarrow> product_update option"
  read_movement_create :: "string \<Rightarrow> movement_create option"

record http_request =
  hr_method :: http_method
  hr_path :: "string list"
  hr_query :: "(string \<times> string) list"
  hr_body :: string

definition path_uuid :: "pydantic \<Rightarrow> (string \<times> string) list \<Rightarrow> string \<Rightarrow> uuid option" where
  "path_uuid p params n = Option.bind (map_of params n) (read_uuid p)"

definition query_arg :: "(string \<Rightarrow> 'a option) \<Rightarrow> (string \<times> string) list \<Rightarrow> string \<Rightarrow> 'a \<Rightarrow> 'a option" where
  "query_arg parse q n otherwise = (case map_of q n of None \<Rightarrow> Some otherwise | Some s \<Rightarrow> parse s)"

definition query_opt :: "(string \<Rightarrow> 'a option) \<Rightarrow> (string \<times> string) list \<Rightarrow> string \<Rightarrow> 'a option option" where
  "query_opt parse q n = (case map_of q n of None \<Rightarrow> Some None | Some s \<Rightarrow> map_option Some (parse s))"

definition skip_arg :: "pydantic \<Rightarrow> (string \<times> string) list \<Rightarrow> int option" where
  "skip_arg p q = query_arg (read_int p) q ''skip'' 0"

definition limit_arg :: "pydantic \<Rightarrow> (string \<times> string) list \<Rightarrow> int option" where
  "limit_arg p q = query_arg (read_int p) q ''limit'' 100"

datatype operation = Resource request | InventorySummary | ValuationReport | Health | RootRedirect

text \<open>The operation a handler is called for, from its signature; None is a 422.\<close>

fun arguments ::
  "pydantic \<Rightarrow> handler \<Rightarrow> (string \<times> string) list \<Rightarrow> (string \<times> string) list \<Rightarrow> string \<Rightarrow> operation option" where
  "arguments p list_warehouses_handler ps q b = do {
     skip \<leftarrow> skip_arg p q; limit \<leftarrow> limit_arg p q;
     active_only \<leftarrow> query_arg (read_bool p) q ''active_only'' False;
     Some (Resource (ListWarehouses skip limit active_only)) }"
| "arguments p get_warehouse_handler ps q b = do {
     i \<leftarrow> path_uuid p ps ''warehouse_id''; Some (Resource (GetWarehouse i)) }"
| "arguments p create_warehouse_handler ps q b = do {
     x \<leftarrow> read_warehouse_create p b; Some (Resource (CreateWarehouse x)) }"
| "arguments p update_warehouse_handler ps q b = do {
     i \<leftarrow> path_uuid p ps ''warehouse_id''; x \<leftarrow> read_warehouse_update p b;
     Some (Resource (UpdateWarehouse i x)) }"
| "arguments p deactivate_warehouse_handler ps q b = do {
     i \<leftarrow> path_uuid p ps ''warehouse_id''; Some (Resource (DeactivateWarehouse i)) }"
| "arguments p list_products_handler ps q b = do {
     skip \<leftarrow> skip_arg p q; limit \<leftarrow> limit_arg p q;
     active_only \<leftarrow> query_arg (read_bool p) q ''active_only'' False;
     search \<leftarrow> query_opt Some q ''search'';
     Some (Resource (ListProducts skip limit active_only search)) }"
| "arguments p get_product_handler ps q b = do {
     i \<leftarrow> path_uuid p ps ''product_id''; Some (Resource (GetProduct i)) }"
| "arguments p create_product_handler ps q b = do {
     x \<leftarrow> read_product_create p b; Some (Resource (CreateProduct x)) }"
| "arguments p update_product_handler ps q b = do {
     i \<leftarrow> path_uuid p ps ''product_id''; x \<leftarrow> read_product_update p b;
     Some (Resource (UpdateProduct i x)) }"
| "arguments p deactivate_product_handler ps q b = do {
     i \<leftarrow> path_uuid p ps ''product_id''; Some (Resource (DeactivateProduct i)) }"
| "arguments p list_inventory_handler ps q b = do {
     skip \<leftarrow> skip_arg p q; limit \<leftarrow> limit_arg p q;
     warehouse_id \<leftarrow> query_opt (read_uuid p) q ''warehouse_id'';
     low_stock_only \<leftarrow> query_arg (read_bool p) q ''low_stock_only'' False;
     Some (Resource (ListInventory skip limit warehouse_id low_stock_only)) }"
| "arguments p get_stock_level_handler ps q b = do {
     i \<leftarrow> path_uuid p ps ''product_id''; j \<leftarrow> path_uuid p ps ''warehouse_id'';
     Some (Resource (GetStockLevel i j)) }"
| "arguments p record_movement_handler ps q b = do {
     x \<leftarrow> read_movement_create p b; Some (Resource (RecordMovement x)) }"
| "arguments p list_movements_handler ps q b = do {
     skip \<leftarrow> skip_arg p q; limit \<leftarrow> limit_arg p q;
     product_id \<leftarrow> query_opt (read_uuid p) q ''product_id'';
     warehouse_id \<leftarrow> query_opt (read_uuid p) q ''warehouse_id'';
     Some (Resource (ListMovements skip limit product_id warehouse_id)) }"
| "arguments p get_movement_handler ps q b = do {
     i \<leftarrow> path_uuid p ps ''movement_id''; Some (Resource (GetMovement i)) }"
| "arguments p list_alerts_handler ps q b = do {
     skip \<leftarrow> skip_arg p q; limit \<leftarrow> limit_arg p q;
     active_only \<leftarrow> query_arg (read_bool p) q ''active_only'' True;
     Some (Resource (ListAlerts skip limit active_only)) }"
| "arguments p get_alert_handler ps q b = do {
     i \<leftarrow> path_uuid p ps ''alert_id''; Some (Resource (GetAlert i)) }"
| "arguments p resolve_alert_handler ps q b = do {
     i \<leftarrow> path_uuid p ps ''alert_id''; Some (Resource (ResolveAlert i)) }"
| "arguments p inventory_summary_handler ps q b = Some InventorySummary"
| "arguments p valuation_handler ps q b = Some ValuationReport"
| "arguments p health_handler ps q b = Some Health"
| "arguments p root_handler ps q b = Some RootRedirect"

datatype received =
    Accepted operation
  | Answered int

definition receive :: "pydantic \<Rightarrow> route list \<Rightarrow> http_request \<Rightarrow> received" where
  "receive p rs r = (case dispatch rs (hr_method r) (hr_path r) of
     Found h ps \<Rightarrow> (case arguments p h ps (hr_query r) (hr_body r) of
         Some x \<Rightarrow> Accepted x | None \<Rightarrow> Answered 422)
   | MethodNotAllowed \<Rightarrow> Answered 405
   | RedirectSlashes path \<Rightarrow> Answered 307
   | NoRoute \<Rightarrow> Answered 404)"

section \<open>One route per request\<close>

text \<open>Two routes can only take the same path if their segments agree wherever both are literal.\<close>

fun may_overlap :: "segment list \<Rightarrow> segment list \<Rightarrow> bool" where
  "may_overlap [] [] = True"
| "may_overlap (Lit l # ps) (Lit k # qs) = (l = k \<and> may_overlap ps qs)"
| "may_overlap (Lit l # ps) (Param n # qs) = (l \<noteq> [] \<and> may_overlap ps qs)"
| "may_overlap (Param n # ps) (Lit k # qs) = (k \<noteq> [] \<and> may_overlap ps qs)"
| "may_overlap (Param n # ps) (Param m # qs) = may_overlap ps qs"
| "may_overlap _ _ = False"

lemma match_overlap: "match_path ps path \<noteq> None \<Longrightarrow> match_path qs path \<noteq> None \<Longrightarrow> may_overlap ps qs"
proof (induction ps qs arbitrary: path rule: may_overlap.induct)
  case (2 l ps k qs)
  then show ?case by (cases path) (auto split: if_splits)
next
  case (3 l ps n qs)
  then show ?case by (cases path) (auto split: if_splits)
next
  case (4 n ps k qs)
  then show ?case by (cases path) (auto split: if_splits)
next
  case (5 n ps m qs)
  then show ?case by (cases path) (auto split: if_splits)
qed (auto split: if_splits, (case_tac path; auto)+)

definition apart :: "route \<Rightarrow> route \<Rightarrow> bool" where
  "apart r r' \<longleftrightarrow> rt_method r \<noteq> rt_method r' \<or> \<not> may_overlap (rt_path r) (rt_path r')"

fun all_apart :: "route list \<Rightarrow> bool" where
  "all_apart [] = True"
| "all_apart (r # rs) = (list_all (apart r) rs \<and> all_apart rs)"

lemma apart_unique:
  "all_apart rs \<Longrightarrow>
     length (filter (\<lambda>r. rt_method r = m \<and> match_path (rt_path r) path \<noteq> None) rs) \<le> 1"
proof (induction rs)
  case (Cons r rs)
  show ?case
  proof (cases "rt_method r = m \<and> match_path (rt_path r) path \<noteq> None")
    case True
    have "\<not> (rt_method r' = m \<and> match_path (rt_path r') path \<noteq> None)" if "r' \<in> set rs" for r'
    proof
      assume r': "rt_method r' = m \<and> match_path (rt_path r') path \<noteq> None"
      then have "may_overlap (rt_path r) (rt_path r')" using True by (blast intro: match_overlap)
      moreover have "apart r r'" using Cons.prems that by (simp add: list_all_iff)
      ultimately show False using True r' by (simp add: apart_def)
    qed
    then have "filter (\<lambda>r. rt_method r = m \<and> match_path (rt_path r) path \<noteq> None) rs = []"
      by (simp add: filter_empty_conv)
    then show ?thesis by simp
  next
    case False
    then have "filter (\<lambda>r. rt_method r = m \<and> match_path (rt_path r) path \<noteq> None) (r # rs) =
        filter (\<lambda>r. rt_method r = m \<and> match_path (rt_path r) path \<noteq> None) rs" by simp
    with Cons show ?thesis by (simp only: all_apart.simps)
  qed
qed simp

lemmas router_defs = api_router_def health_router_def warehouses_router_def products_router_def
  inventory_router_def movements_router_def alerts_router_def reports_router_def api_route_def

lemma app_routes_apart: "all_apart (app_routes default_prefix)"
  by (simp add: app_routes_def router_defs default_prefix_def apart_def)

lemma tags_documented: "set (websocket_route_tag # concat (map rt_tags (app_routes prefix))) = set (map fst OPENAPI_TAGS)"
  by (auto simp: app_routes_def router_defs OPENAPI_TAGS_def websocket_route_tag_def)

section \<open>Requests over HTTP\<close>

text \<open>How a client writes a request; \<open>bodies\<close> writes the payloads.\<close>

record body_writers =
  write_warehouse_create :: "warehouse_create \<Rightarrow> string"
  write_warehouse_update :: "warehouse_update \<Rightarrow> string"
  write_product_create :: "product_create \<Rightarrow> string"
  write_product_update :: "product_update \<Rightarrow> string"
  write_movement_create :: "movement_create \<Rightarrow> string"

definition bool_text :: "bool \<Rightarrow> string" where
  "bool_text b = (if b then ''true'' else ''false'')"

definition page_query :: "int \<Rightarrow> int \<Rightarrow> (string \<times> string) list" where
  "page_query skip limit = [(''skip'', int_str skip), (''limit'', int_str limit)]"

definition optional_query :: "string \<Rightarrow> ('a \<Rightarrow> string) \<Rightarrow> 'a option \<Rightarrow> (string \<times> string) list" where
  "optional_query n f x = (case x of None \<Rightarrow> [] | Some a \<Rightarrow> [(n, f a)])"

definition http :: "http_method \<Rightarrow> string list \<Rightarrow> (string \<times> string) list \<Rightarrow> string \<Rightarrow> http_request" where
  "http m path q b = \<lparr>hr_method = m, hr_path = default_prefix @ path, hr_query = q, hr_body = b\<rparr>"

fun http_of :: "body_writers \<Rightarrow> request \<Rightarrow> http_request" where
  "http_of wr (ListWarehouses skip limit a) =
     http GET [''warehouses''] (page_query skip limit @ [(''active_only'', bool_text a)]) []"
| "http_of wr (GetWarehouse i) = http GET [''warehouses'', uuid_str i] [] []"
| "http_of wr (CreateWarehouse x) = http POST [''warehouses''] [] (write_warehouse_create wr x)"
| "http_of wr (UpdateWarehouse i x) = http PUT [''warehouses'', uuid_str i] [] (write_warehouse_update wr x)"
| "http_of wr (DeactivateWarehouse i) = http DELETE [''warehouses'', uuid_str i] [] []"
| "http_of wr (ListProducts skip limit a s) = http GET [''products'']
     (page_query skip limit @ [(''active_only'', bool_text a)] @ optional_query ''search'' (\<lambda>s. s) s) []"
| "http_of wr (GetProduct i) = http GET [''products'', uuid_str i] [] []"
| "http_of wr (CreateProduct y) = http POST [''products''] [] (write_product_create wr y)"
| "http_of wr (UpdateProduct i y) = http PUT [''products'', uuid_str i] [] (write_product_update wr y)"
| "http_of wr (DeactivateProduct i) = http DELETE [''products'', uuid_str i] [] []"
| "http_of wr (ListInventory skip limit wh low) = http GET [''inventory'']
     (page_query skip limit @ optional_query ''warehouse_id'' uuid_str wh @ [(''low_stock_only'', bool_text low)]) []"
| "http_of wr (GetStockLevel i j) = http GET [''inventory'', uuid_str i, uuid_str j] [] []"
| "http_of wr (RecordMovement z) = http POST [''inventory''] [] (write_movement_create wr z)"
| "http_of wr (ListMovements skip limit i j) = http GET [''movements''] (page_query skip limit @
     optional_query ''product_id'' uuid_str i @ optional_query ''warehouse_id'' uuid_str j) []"
| "http_of wr (GetMovement i) = http GET [''movements'', uuid_str i] [] []"
| "http_of wr (ListAlerts skip limit a) =
     http GET [''alerts''] (page_query skip limit @ [(''active_only'', bool_text a)]) []"
| "http_of wr (GetAlert i) = http GET [''alerts'', uuid_str i] [] []"
| "http_of wr (ResolveAlert i) = http POST [''alerts'', uuid_str i, ''resolve''] [] []"

text \<open>Pydantic reads what was written for this request.\<close>

fun uuids_of :: "request \<Rightarrow> uuid list" where
  "uuids_of (GetWarehouse i) = [i]" | "uuids_of (UpdateWarehouse i x) = [i]"
| "uuids_of (DeactivateWarehouse i) = [i]" | "uuids_of (GetProduct i) = [i]"
| "uuids_of (UpdateProduct i y) = [i]" | "uuids_of (DeactivateProduct i) = [i]"
| "uuids_of (GetStockLevel i j) = [i, j]" | "uuids_of (GetMovement i) = [i]"
| "uuids_of (GetAlert i) = [i]" | "uuids_of (ResolveAlert i) = [i]"
| "uuids_of (ListInventory skip limit wh low) = (case wh of None \<Rightarrow> [] | Some i \<Rightarrow> [i])"
| "uuids_of (ListMovements skip limit i j) =
     (case i of None \<Rightarrow> [] | Some i \<Rightarrow> [i]) @ (case j of None \<Rightarrow> [] | Some j \<Rightarrow> [j])"
| "uuids_of _ = []"

fun ints_of :: "request \<Rightarrow> int list" where
  "ints_of (ListWarehouses skip limit a) = [skip, limit]"
| "ints_of (ListProducts skip limit a s) = [skip, limit]"
| "ints_of (ListInventory skip limit wh low) = [skip, limit]"
| "ints_of (ListMovements skip limit i j) = [skip, limit]"
| "ints_of (ListAlerts skip limit a) = [skip, limit]"
| "ints_of _ = []"

fun body_reads_back :: "pydantic \<Rightarrow> body_writers \<Rightarrow> request \<Rightarrow> bool" where
  "body_reads_back p wr (CreateWarehouse x) = (read_warehouse_create p (write_warehouse_create wr x) = Some x)"
| "body_reads_back p wr (UpdateWarehouse i u) = (read_warehouse_update p (write_warehouse_update wr u) = Some u)"
| "body_reads_back p wr (CreateProduct y) = (read_product_create p (write_product_create wr y) = Some y)"
| "body_reads_back p wr (UpdateProduct i v) = (read_product_update p (write_product_update wr v) = Some v)"
| "body_reads_back p wr (RecordMovement z) = (read_movement_create p (write_movement_create wr z) = Some z)"
| "body_reads_back p wr _ = True"

definition reads_back :: "pydantic \<Rightarrow> body_writers \<Rightarrow> request \<Rightarrow> bool" where
  "reads_back p wr req \<longleftrightarrow>
     list_all (\<lambda>i. read_uuid p (uuid_str i) = Some i) (uuids_of req) \<and>
     list_all (\<lambda>n. read_int p (int_str n) = Some n) (ints_of req) \<and>
     read_bool p ''true'' = Some True \<and> read_bool p ''false'' = Some False \<and> body_reads_back p wr req"

lemma read_bool_text: "reads_back p wr req \<Longrightarrow> read_bool p (bool_text b) = Some b"
  by (simp add: reads_back_def bool_text_def)

lemma uuid_str_not_Nil [simp]: "uuid_str u \<noteq> []"
  by (simp add: uuid_str_def dashed_def)

lemma the_only_element: "length xs \<le> 1 \<Longrightarrow> x \<in> set xs \<Longrightarrow> xs = [x]"
  by (cases xs) auto

lemma dispatch_is_the_only_match:
  assumes "all_apart rs" and "dispatch rs m path = Found h ps" and "r \<in> set rs"
    and "rt_method r = m" and "match_path (rt_path r) path = Some ps'"
  shows "rt_handler r = h \<and> ps' = ps"
proof -
  let ?P = "\<lambda>r. rt_method r = m \<and> match_path (rt_path r) path \<noteq> None"
  have fs: "filter (\<lambda>r. rt_method r = m) (path_matches rs path) = filter ?P rs"
    by (simp add: path_matches_def conj_commute)
  have "r \<in> set (filter ?P rs)" using assms(3-5) by simp
  moreover have "length (filter ?P rs) \<le> 1" by (rule apart_unique [OF assms(1)])
  ultimately have "filter ?P rs = [r]" by (intro the_only_element)
  then show ?thesis using assms(2,5) unfolding dispatch_def fs by simp
qed

lemma query_simps:
  "map_of (page_query skip limit) n = (if n = ''skip'' then Some (int_str skip)
     else if n = ''limit'' then Some (int_str limit) else None)"
  "map_of (optional_query k f x) n = (if n = k then map_option f x else None)"
  by (auto simp: page_query_def optional_query_def split: option.splits)

lemma query_opt_simps:
  "map_of q n = None \<Longrightarrow> query_opt parse q n = Some None"
  "map_of q n = Some s \<Longrightarrow> query_opt parse q n = map_option Some (parse s)"
  by (simp_all add: query_opt_def)

lemma receive_http_of:
  assumes "reads_back p wr req"
  shows "receive p (app_routes default_prefix) (http_of wr req) = Accepted (Resource req)"
proof -
  note read = assms [unfolded reads_back_def] read_bool_text [OF assms]
  note eqs = receive_def dispatch_def path_matches_def app_routes_def router_defs default_prefix_def
    http_def path_uuid_def skip_arg_def limit_arg_def query_arg_def query_simps map_add_def
  show ?thesis
  proof (cases req)
    case (ListProducts skip limit a s)
    then show ?thesis using read by (cases s) (simp_all add: eqs query_opt_simps)
  next
    case (ListInventory skip limit wh low)
    then show ?thesis using read by (cases wh) (simp_all add: eqs query_opt_simps)
  next
    case (ListMovements skip limit i j)
    then show ?thesis using read by (cases i; cases j) (simp_all add: eqs query_opt_simps)
  qed (use read in \<open>simp_all add: eqs\<close>)
qed

text \<open>
  The application over HTTP. \<open>elsewhere\<close> stands for the report, health and root endpoints,
  which have models of their own.
\<close>

definition http_serve ::
  "'x deps \<Rightarrow> pydantic \<Rightarrow> route list \<Rightarrow> (operation \<Rightarrow> 'x world \<Rightarrow> response \<times> 'x world) \<Rightarrow> http_request \<Rightarrow>
     'x world \<Rightarrow> response \<times> 'x world" where
  "http_serve e p rs elsewhere r w = (case receive p rs r of
     Answered code \<Rightarrow> (\<lparr>resp_status = code, resp_content = ErrorBody ''routing''\<rparr>, w)
   | Accepted (Resource req) \<Rightarrow> serve e req w
   | Accepted x \<Rightarrow> elsewhere x w)"

lemma http_serve_request:
  "reads_back p wr req \<Longrightarrow>
     http_serve e p (app_routes default_prefix) elsewhere (http_of wr req) w = serve e req w"
  by (simp add: http_serve_def receive_http_of)

end
