(* ===== verification/Wiring.thy ===== *)
theory Wiring
  imports Routing Relay Engines Middleware Cache
begin

text \<open>
  The objects a process makes when its modules are imported, and how they are put together:
  the settings, read once (app/core/config.py); the publisher, the connection manager and the
  broadcaster, one of each per process; Redis clients (app/core/cache.py, app/websockets/pubsub.py)
  and what becomes of them; the FastAPI application with its middleware (app/main.py); the
  token URL (app/api/deps.py).
\<close>

section \<open>Settings\<close>

text \<open>
  \<open>get_settings\<close> under \<open>lru_cache\<close>: the state is the cached instance. \<open>env\<close> is what
  \<open>Settings()\<close> gives at the time of the call; an exception is not cached.
\<close>

definition get_settings :: "'e + settings \<Rightarrow> (settings option, 'e, settings) prog" where
  "get_settings env = (\<lambda>cached. case cached of
     Some s \<Rightarrow> (Inr s, cached)
   | None \<Rightarrow> (case env of Inl x \<Rightarrow> (Inl x, None) | Inr s \<Rightarrow> (Inr s, Some s)))"

fun settings_calls :: "('e + settings) list \<Rightarrow> settings option \<Rightarrow> ('e + settings) list" where
  "settings_calls [] cached = []"
| "settings_calls (env # envs) cached = (case get_settings env cached of
     (res, cached') \<Rightarrow> res # settings_calls envs cached')"

text \<open>Every call after the first success answers what that one did, whatever the environment says.\<close>

lemma settings_cached: "settings_calls envs (Some s) = replicate (length envs) (Inr s)"
  by (induction envs) (simp_all add: get_settings_def)

lemma settings_read_once:
  "settings_calls (map Inl errors @ Inr s # envs) None =
     map Inl errors @ replicate (Suc (length envs)) (Inr s)"
  by (induction errors) (simp_all add: get_settings_def settings_cached)

section \<open>Redis clients\<close>

record redis_pool =
  rp_url :: string
  rp_decode_responses :: bool
  rp_pool :: pool

text \<open>\<open>ConnectionPool.from_url\<close> and \<open>Redis.from_url\<close>; the latter makes a pool of its own.\<close>

definition pool_from_url :: "string \<Rightarrow> bool \<Rightarrow> redis_pool" where
  "pool_from_url url decode = \<lparr>rp_url = url, rp_decode_responses = decode, rp_pool = empty_pool\<rparr>"

definition shared_redis_pool :: "settings \<Rightarrow> redis_pool" where
  "shared_redis_pool s = pool_from_url (set_redis_url s) True"

text \<open>
  A command on a client, on a loop: an idle connection is taken if there is one, and fails on
  any loop but its own (as in Engines).
\<close>

definition redis_command :: "nat \<Rightarrow> redis_pool \<Rightarrow> bool \<times> redis_pool" where
  "redis_command loop r = (case idle_connections (rp_pool r) of
     c # cs \<Rightarrow> (if c = loop then (True, r) else (False, r\<lparr>rp_pool := (rp_pool r)\<lparr>idle_connections := cs\<rparr>\<rparr>))
   | [] \<Rightarrow> (True, r\<lparr>rp_pool := \<lparr>idle_connections = [loop], opened_connections = Suc (opened_connections (rp_pool r))\<rparr>\<rparr>))"

fun redis_commands :: "nat list \<Rightarrow> redis_pool \<Rightarrow> bool list" where
  "redis_commands [] r = []"
| "redis_commands (l # ls) r = (case redis_command l r of (ok, r') \<Rightarrow> ok # redis_commands ls r')"

section \<open>RedisBroadcaster\<close>

definition BROADCAST_CHANNEL :: string where
  "BROADCAST_CHANNEL = ''ws:broadcast''"

record redis_broadcaster =
  rb_redis_url :: string
  rb_redis :: redis_pool
  rb_closed :: bool

definition new_broadcaster :: "settings \<Rightarrow> redis_broadcaster" where
  "new_broadcaster s = \<lparr>rb_redis_url = set_redis_url s, rb_redis = pool_from_url (set_redis_url s) True,
     rb_closed = False\<rparr>"

text \<open>Closing disconnects what the client's own pool holds.\<close>

definition close_broadcaster :: "redis_broadcaster \<Rightarrow> redis_broadcaster" where
  "close_broadcaster b = b\<lparr>rb_closed := True,
     rb_redis := (rb_redis b)\<lparr>rp_pool := (rp_pool (rb_redis b))\<lparr>idle_connections := []\<rparr>\<rparr>\<rparr>"

text \<open>The connection a publish uses: a client made for this call and closed after it.\<close>

definition publish_connection :: "nat \<Rightarrow> redis_broadcaster \<Rightarrow> bool \<times> redis_broadcaster" where
  "publish_connection loop b = (case redis_command loop (pool_from_url (rb_redis_url b) True) of
     (ok, client) \<Rightarrow> (ok, b))"

fun publishes :: "nat list \<Rightarrow> redis_broadcaster \<Rightarrow> bool list \<times> redis_broadcaster" where
  "publishes [] b = ([], b)"
| "publishes (l # ls) b = (case publish_connection l b of (ok, b1) \<Rightarrow>
     case publishes ls b1 of (oks, b2) \<Rightarrow> (ok # oks, b2))"

lemma publishes_work: "publishes ls b = (replicate (length ls) True, b)"
  by (induction ls) (simp_all add: publish_connection_def redis_command_def pool_from_url_def empty_pool_def)

text \<open>What the tasks would meet on the broadcaster's own client, and why the relay may use it.\<close>

lemma shared_client_fails:
  "take 2 (redis_commands (task_loops (n + 2)) (rb_redis (new_broadcaster s))) = [True, False]"
proof -
  have loops: "task_loops (n + 2) = 0 # 1 # [2..<n + 2]"
    by (simp add: task_loops_def upt_conv_Cons eval_nat_numeral del: upt_Suc)
  show ?thesis
    unfolding loops
    by (simp add: new_broadcaster_def redis_command_def pool_from_url_def empty_pool_def split: prod.splits)
qed

lemma one_loop_keeps: "idle_connections (rp_pool r) = [l] \<Longrightarrow> redis_commands (replicate n l) r = replicate n True"
  by (induction n) (simp_all add: redis_command_def)

lemma one_loop_works: "redis_commands (replicate n l) (rb_redis (new_broadcaster s)) = replicate n True"
  by (cases n) (simp_all add: one_loop_keeps new_broadcaster_def redis_command_def pool_from_url_def empty_pool_def)

section \<open>The client of a request\<close>

text \<open>
  \<open>get_redis\<close>: a handle on the shared pool for one request, closed when the request ends, in
  whatever way. The state counts the handles made and lists the open ones.
\<close>

record redis_handles =
  handles_made :: nat
  handles_open :: "nat list"

definition get_redis :: "(nat \<Rightarrow> ('w \<times> redis_handles, 'e, 'a) prog) \<Rightarrow> ('w \<times> redis_handles, 'e, 'a) prog" where
  "get_redis request = (\<lambda>(w, h). let client = handles_made h in
     case request client (w, \<lparr>handles_made = Suc client, handles_open = client # handles_open h\<rparr>) of
       (res, (w', h')) \<Rightarrow> (res, (w', h'\<lparr>handles_open := removeAll client (handles_open h')\<rparr>)))"

definition handles_ok :: "redis_handles \<Rightarrow> bool" where
  "handles_ok h \<longleftrightarrow> (\<forall>c \<in> set (handles_open h). c < handles_made h)"

text \<open>A request that leaves handles alone, as the endpoints do, leaves none behind.\<close>

definition beside_handles :: "('w, 'e, 'a) prog \<Rightarrow> ('w \<times> redis_handles, 'e, 'a) prog" where
  "beside_handles f = (\<lambda>(w, h). case f w of (res, w') \<Rightarrow> (res, (w', h)))"

lemma get_redis_closes:
  assumes "handles_ok h"
  shows "get_redis (\<lambda>client. beside_handles (f client)) (w, h) = (case f (handles_made h) w of (res, w') \<Rightarrow>
    (res, (w', h\<lparr>handles_made := Suc (handles_made h)\<rparr>)))"
    and "handles_ok (h\<lparr>handles_made := Suc (handles_made h)\<rparr>)"
proof -
  have "removeAll (handles_made h) (handles_open h) = handles_open h"
    using assms by (auto simp: handles_ok_def removeAll_id)
  then show "get_redis (\<lambda>client. beside_handles (f client)) (w, h) = (case f (handles_made h) w of (res, w') \<Rightarrow>
    (res, (w', h\<lparr>handles_made := Suc (handles_made h)\<rparr>)))"
    by (simp add: get_redis_def beside_handles_def Let_def split: prod.splits)
  show "handles_ok (h\<lparr>handles_made := Suc (handles_made h)\<rparr>)"
    using assms by (auto simp: handles_ok_def)
qed

section \<open>One of each per process\<close>

record 'c process_objects =
  ob_event_publisher :: "app_module publisher"
  ob_connection_manager :: "'c connections"
  ob_broadcaster :: redis_broadcaster

text \<open>The module-level instances, once the process has imported app/main.py.\<close>

definition api_objects :: "settings \<Rightarrow> 'c process_objects" where
  "api_objects s = \<lparr>ob_event_publisher = api_process, ob_connection_manager = no_connections,
     ob_broadcaster = new_broadcaster s\<rparr>"

definition get_event_publisher :: "'c process_objects \<Rightarrow> app_module publisher" where
  "get_event_publisher objects = ob_event_publisher objects"

definition get_connection_manager :: "'c process_objects \<Rightarrow> 'c connections" where
  "get_connection_manager objects = ob_connection_manager objects"

definition get_redis_broadcaster :: "'c process_objects \<Rightarrow> redis_broadcaster" where
  "get_redis_broadcaster objects = ob_broadcaster objects"

text \<open>
  The address of the short-lived clients is the one of the persistent client: a process's own
  relay hears what the process publishes.
\<close>

lemma one_redis:
  "rb_redis_url (get_redis_broadcaster (api_objects s)) = rp_url (rb_redis (get_redis_broadcaster (api_objects s)))"
  "rp_url (rb_redis (get_redis_broadcaster (api_objects s))) = rp_url (shared_redis_pool s)"
  by (simp_all add: get_redis_broadcaster_def api_objects_def new_broadcaster_def pool_from_url_def
      shared_redis_pool_def)

section \<open>The application\<close>

text \<open>The description of main.py, line by line.\<close>

definition API_DESCRIPTION :: string where
  "API_DESCRIPTION = join_with [CHR 0x0A]
     ['''',
      ''Real-time inventory control across multiple warehouses, with automatic'',
      ''low-stock alerting, an immutable audit trail, and asynchronous'',
      ''reporting.'',
      '''',
      ''### Architecture highlights'',
      ''- **CQRS on the Inventory aggregate** '' @ utf8_dash @ '' reads (`InventoryQueryService`)'',
      ''  and stock-mutating writes (`InventoryCommandService`) are separate'',
      ''  classes, so the write side's row-locking and audit-trail concerns'',
      ''  never leak into the read path.'',
      ''- **Event-driven side effects** '' @ utf8_dash @ '' stock movements publish domain events'',
      ''  (`app/events`) that alerting and WebSocket broadcasting react to,'',
      ''  instead of being called inline from the request handler.'',
      ''- **Background processing** '' @ utf8_dash @ '' Celery handles low-stock emails and CSV'',
      ''  report generation off the request/response cycle; Celery Beat runs a'',
      ''  periodic reconciliation sweep as a safety net on top of the'',
      ''  event-driven path.'',
      '''',
      ''Every error response below follows one shape: `{'' @ [CHR 0x22] @ ''detail'' @ [CHR 0x22] @ '': '' @ [CHR 0x22] @ ''...'' @ [CHR 0x22] @ ''}`.'',
      '''']"

record cors_options =
  allow_origins :: "string list"
  allow_credentials :: bool
  allow_methods :: "string list"
  allow_headers :: "string list"

datatype layer = RequestLogging | SecurityHeaders | CORS cors_options

record fastapi_app =
  app_title :: string
  app_description :: string
  app_debug :: bool
  app_version :: string
  app_openapi_tags :: "(string \<times> string) list"
  app_user_middleware :: "layer list"

text \<open>\<open>add_middleware\<close> puts the new layer outside the ones before it (Starlette).\<close>

definition add_middleware :: "layer \<Rightarrow> fastapi_app \<Rightarrow> fastapi_app" where
  "add_middleware m a = a\<lparr>app_user_middleware := m # app_user_middleware a\<rparr>"

definition main_app :: "settings \<Rightarrow> fastapi_app" where
  "main_app s =
     add_middleware (CORS \<lparr>allow_origins = set_cors_allowed_origins s, allow_credentials = True,
       allow_methods = [''*''], allow_headers = [''*'']\<rparr>)
     (add_middleware SecurityHeaders
     (add_middleware RequestLogging
       \<lparr>app_title = set_project_name s, app_description = API_DESCRIPTION, app_debug = set_debug s,
        app_version = ''0.1.0'', app_openapi_tags = OPENAPI_TAGS, app_user_middleware = []\<rparr>))"

text \<open>
  A request through the layers: each wraps the ones after it in the list. What CORSMiddleware
  does is Starlette's (\<open>cors\<close>).
\<close>

type_synonym 'x layered = "('x, http_response \<times> access_log option) Middleware.handler"

definition run_layer ::
  "'x deps \<Rightarrow> (cors_options \<Rightarrow> 'x layered \<Rightarrow> 'x layered) \<Rightarrow> string \<Rightarrow> string \<Rightarrow> layer \<Rightarrow> 'x layered \<Rightarrow> 'x layered" where
  "run_layer e cors verb path m call_next = (case m of
     RequestLogging \<Rightarrow> andthen (request_logging e verb path (andthen call_next (\<lambda>(r, l). ret r)))
       (\<lambda>(r, entry). ret (r, Some entry))
   | SecurityHeaders \<Rightarrow> security_headers path call_next
   | CORS opts \<Rightarrow> cors opts call_next)"

definition through_layers ::
  "'x deps \<Rightarrow> (cors_options \<Rightarrow> 'x layered \<Rightarrow> 'x layered) \<Rightarrow> settings \<Rightarrow> string \<Rightarrow> string \<Rightarrow> request \<Rightarrow> 'x layered" where
  "through_layers e cors s verb path req =
     foldr (run_layer e cors verb path) (app_user_middleware (main_app s))
       (andthen (routed e req) (\<lambda>r. ret (r, None)))"

text \<open>CORS is outermost, then the security headers, then the access log.\<close>

lemma through_layers_order:
  "through_layers e cors s verb path req =
     cors \<lparr>allow_origins = set_cors_allowed_origins s, allow_credentials = True,
         allow_methods = [''*''], allow_headers = [''*'']\<rparr>
       (security_headers path (run_layer e cors verb path RequestLogging (andthen (routed e req) (\<lambda>r. ret (r, None)))))"
  by (simp add: through_layers_def main_app_def add_middleware_def run_layer_def)

text \<open>
  Without the CORS layer (as for a request that has no Origin header) the application of the
  theory Middleware is what main.py configures, with the debug flag of the settings.
\<close>

lemma andthen_mapped: "andthen (andthen f (\<lambda>r. ret (r, None))) (\<lambda>(r, l). ret r) = f"
  by (rule ext) (simp add: andthen_def ret_def split: prod.splits sum.splits)

lemma main_app_application:
  "application e (app_debug (main_app s)) traceback verb path req w =
     (case through_layers e (\<lambda>opts h. h) s verb path req w of
        (Inr r, w') \<Rightarrow> (r, w')
      | (Inl x, w') \<Rightarrow>
          (let r = (if set_debug s then \<lparr>status_code = 500, detail = traceback x\<rparr>
             else unhandled_exception_handler x)
           in ((\<lparr>http_body = \<lparr>resp_status = status_code r, resp_content = ErrorBody (detail r)\<rparr>,
               http_headers = Map.empty\<rparr>, None), w')))"
  unfolding through_layers_order application_def
  by (simp add: run_layer_def andthen_mapped security_headers_def)
    (simp add: andthen_def ret_def main_app_def add_middleware_def Let_def split: prod.splits sum.splits)

section \<open>The token URL\<close>

definition token_url :: "settings \<Rightarrow> string" where
  "token_url s = set_api_v1_prefix s @ ''/auth/login''"

text \<open>No route serves it.\<close>

lemma token_url_is_not_served:
  "dispatch (app_routes default_prefix) m
     (tl (split_on (CHR 0x2F) (token_url (default_settings a b c d k)))) = NoRoute"
proof -
  have "tl (split_on (CHR 0x2F) (token_url (default_settings a b c d k))) = [''api'', ''v1'', ''auth'', ''login'']"
    by (simp add: token_url_def default_settings_def)
  moreover have "path_matches (app_routes default_prefix) [''api'', ''v1'', ''auth'', ''login''] = []"
    "path_matches (app_routes default_prefix) (toggle_slash [''api'', ''v1'', ''auth'', ''login'']) = []"
    by code_simp+
  ultimately show ?thesis by (simp add: dispatch_def)
qed

end
