(* ===== verification/Gather.thy ===== *)
theory Gather
  imports Startup
begin

text \<open>
  Publishing as it runs (app/events/publisher.py): the handlers of an event are coroutines that
  asyncio.gather interleaves at their awaits. A coroutine is the list of its steps between
  awaits; a turn of the event loop runs the next step of one of them.

  The lemmas: whatever the order of the turns, handlers whose steps commute leave the state and
  the log of the theory Publisher, where they run one after the other; the broadcast listener's
  steps commute with each other.
\<close>

section \<open>Coroutines\<close>

type_synonym 's step = "'s \<Rightarrow> bool \<times> 's"

text \<open>A step may raise, which ends its coroutine. What is left to run, and whether it raised.\<close>

type_synonym 's task = "'s step list \<times> bool"

fun run_steps :: "'s step list \<Rightarrow> 's step" where
  "run_steps [] s = (False, s)"
| "run_steps (f # fs) s = (case f s of (failed, s1) \<Rightarrow> if failed then (True, s1) else run_steps fs s1)"

definition gather_turn :: "nat \<Rightarrow> 's task list \<times> 's \<Rightarrow> 's task list \<times> 's" where
  "gather_turn i = (\<lambda>(ts, s). if i < length ts then
       (case ts ! i of
          ([], r) \<Rightarrow> (ts, s)
        | (f # fs, r) \<Rightarrow> (case f s of (failed, s1) \<Rightarrow> (ts[i := (if failed then [] else fs, r \<or> failed)], s1)))
     else (ts, s))"

definition gather :: "nat list \<Rightarrow> 's task list \<times> 's \<Rightarrow> 's task list \<times> 's" where
  "gather turns x = fold gather_turn turns x"

text \<open>
  \<open>publish\<close>: \<open>gather\<close> returns once every coroutine has ended (None if the turns were not enough);
  the handlers that raised are logged, in the order they subscribed.
\<close>

definition publish_gathered ::
  "('h \<Rightarrow> domain_event \<Rightarrow> 's step list) \<Rightarrow> nat list \<Rightarrow> 'h publisher \<Rightarrow> domain_event \<Rightarrow> 's \<Rightarrow> ('h list \<times> 's) option" where
  "publish_gathered steps turns p ev s =
     (let handlers = handlers_of p ev in
      if handlers = [] then Some ([], s)
      else case gather turns (map (\<lambda>h. (steps h ev, False)) handlers, s) of (ts, s') \<Rightarrow>
        if \<forall>t \<in> set ts. fst t = [] then Some (map fst (filter (\<lambda>(h, t). snd t) (zip handlers ts)), s') else None)"

text \<open>
  The broadcast listener: entering the client's context, which does not connect yet, then
  PUBLISH, which raises when Redis is down.
\<close>

definition broadcast_steps ::
  "(int \<Rightarrow> string) \<Rightarrow> (envelope \<Rightarrow> string) \<Rightarrow> bool \<Rightarrow> domain_event \<Rightarrow> string list step list" where
  "broadcast_steps isoformat dumps up ev =
     [\<lambda>published. (False, published), broadcast_event isoformat dumps up ev]"

lemma broadcast_steps_run: "run_steps (broadcast_steps isoformat dumps up ev) = broadcast_event isoformat dumps up ev"
  by (rule ext) (simp add: broadcast_steps_def broadcast_event_def redis_publish_def)

section \<open>Steps that commute\<close>

definition independent :: "'s step list \<Rightarrow> 's step list \<Rightarrow> bool" where
  "independent fs gs \<longleftrightarrow> (\<forall>f \<in> set fs. \<forall>g \<in> set gs. \<forall>s.
     snd (f (snd (g s))) = snd (g (snd (f s))) \<and>
     fst (f (snd (g s))) = fst (f s) \<and> fst (g (snd (f s))) = fst (g s))"

lemma independent_sym: "independent fs gs \<Longrightarrow> independent gs fs"
  unfolding independent_def by metis

lemma independent_mono: "independent fs gs \<Longrightarrow> set fs' \<subseteq> set fs \<Longrightarrow> set gs' \<subseteq> set gs \<Longrightarrow> independent fs' gs'"
  unfolding independent_def by blast

lemma broadcast_independent:
  "independent (broadcast_steps isoformat dumps up ev) (broadcast_steps isoformat dumps up ev)"
  by (simp add: independent_def broadcast_steps_def broadcast_event_def redis_publish_def)

lemma run_steps_past:
  assumes "\<And>g s. g \<in> set gs \<Longrightarrow> snd (f (snd (g s))) = snd (g (snd (f s))) \<and>
     fst (f (snd (g s))) = fst (f s) \<and> fst (g (snd (f s))) = fst (g s)"
  shows "run_steps gs (snd (f s)) = (fst (run_steps gs s), snd (f (snd (run_steps gs s))))
    \<and> fst (f (snd (run_steps gs s))) = fst (f s)"
  using assms
proof (induction gs arbitrary: s)
  case (Cons g gs)
  have g: "snd (g (snd (f s))) = snd (f (snd (g s)))" "fst (f (snd (g s))) = fst (f s)"
    "fst (g (snd (f s))) = fst (g s)"
    using Cons.prems [of g s] by simp_all
  have IH: "run_steps gs (snd (f (snd (g s)))) = (fst (run_steps gs (snd (g s))), snd (f (snd (run_steps gs (snd (g s))))))"
      "fst (f (snd (run_steps gs (snd (g s))))) = fst (f (snd (g s)))"
    using Cons.IH [of "snd (g s)"] Cons.prems by simp_all
  show ?case by (simp add: case_prod_unfold g IH)
qed simp

section \<open>One after the other\<close>

text \<open>What is left of all tasks, run in order: it does not change with a turn.\<close>

fun finish_tasks :: "'s task list \<Rightarrow> 's \<Rightarrow> bool list \<times> 's" where
  "finish_tasks [] s = ([], s)"
| "finish_tasks ((fs, r) # ts) s = (case run_steps fs s of (x, s1) \<Rightarrow>
     case finish_tasks ts s1 of (xs, s2) \<Rightarrow> ((r \<or> x) # xs, s2))"

abbreviation independent_tasks :: "'s task list \<Rightarrow> bool" where
  "independent_tasks \<equiv> sorted_wrt (\<lambda>t u. independent (fst t) (fst u))"

lemma finish_turn:
  assumes "independent_tasks ts" and "i < length ts" and "ts ! i = (f # fs, r)" and "f s = (failed, s')"
  shows "finish_tasks (ts[i := (if failed then [] else fs, r \<or> failed)]) s' = finish_tasks ts s"
  using assms
proof (induction ts arbitrary: i s s')
  case (Cons t ts)
  show ?case
  proof (cases i)
    case 0
    with Cons.prems show ?thesis by (auto split: prod.splits)
  next
    case (Suc j)
    obtain gs q where t: "t = (gs, q)" by fastforce
    have at_j: "j < length ts" "ts ! j = (f # fs, r)" using Cons.prems(2,3) Suc by simp_all
    then have "(f # fs, r) \<in> set ts" by (metis nth_mem)
    then have ind: "independent gs (f # fs)" using Cons.prems(1) t by auto
    have "snd (f (snd (g u))) = snd (g (snd (f u))) \<and> fst (f (snd (g u))) = fst (f u) \<and>
        fst (g (snd (f u))) = fst (g u)" if "g \<in> set gs" for g u
      using ind that unfolding independent_def by simp
    from run_steps_past [of gs f s, OF this] Cons.prems(4)
    have past: "run_steps gs s' = (fst (run_steps gs s), snd (f (snd (run_steps gs s))))"
      "fst (f (snd (run_steps gs s))) = failed" by simp_all
    then have "finish_tasks (ts[j := (if failed then [] else fs, r \<or> failed)]) (snd (f (snd (run_steps gs s)))) =
        finish_tasks ts (snd (run_steps gs s))"
      using Cons.IH [of j "snd (run_steps gs s)" "snd (f (snd (run_steps gs s)))"] Cons.prems(1) at_j
      by (simp add: prod_eq_iff)
    with Suc t past show ?thesis by (simp add: case_prod_unfold)
  qed
qed simp

lemma gather_turn_keeps:
  assumes "independent_tasks (fst x)"
  shows "independent_tasks (fst (gather_turn i x))"
    and "finish_tasks (fst (gather_turn i x)) (snd (gather_turn i x)) = finish_tasks (fst x) (snd x)"
    and "length (fst (gather_turn i x)) = length (fst x)"
proof -
  obtain ts s where x: "x = (ts, s)" by fastforce
  show "length (fst (gather_turn i x)) = length (fst x)"
    by (auto simp: x gather_turn_def split: prod.splits list.splits)
  have "independent_tasks (fst (gather_turn i x)) \<and>
    finish_tasks (fst (gather_turn i x)) (snd (gather_turn i x)) = finish_tasks (fst x) (snd x)"
  proof (cases "i < length ts \<and> fst (ts ! i) \<noteq> []")
    case True
    then obtain f fs r where t: "ts ! i = (f # fs, r)" by (metis neq_Nil_conv prod.collapse)
    let ?u = "(if fst (f s) then [] else fs, r \<or> fst (f s))"
    have "independent_tasks (ts[i := ?u])"
      unfolding sorted_wrt_iff_nth_less
    proof (intro allI impI)
      fix j k assume jk: "j < k" "k < length (ts[i := ?u])"
      then have "independent (fst (ts ! j)) (fst (ts ! k))"
        using assms unfolding x fst_conv sorted_wrt_iff_nth_less by simp
      then show "independent (fst (ts[i := ?u] ! j)) (fst (ts[i := ?u] ! k))"
        by (rule independent_mono) (use jk True t in \<open>auto simp: nth_list_update\<close>)
    qed
    with finish_turn [of ts i f fs r s "fst (f s)" "snd (f s)"] assms True t show ?thesis
      by (simp add: x gather_turn_def case_prod_unfold)
  next
    case False
    with assms show ?thesis by (auto simp: x gather_turn_def split: prod.splits list.splits)
  qed
  then show "independent_tasks (fst (gather_turn i x))"
    and "finish_tasks (fst (gather_turn i x)) (snd (gather_turn i x)) = finish_tasks (fst x) (snd x)" by simp_all
qed

lemma gather_keeps:
  assumes "independent_tasks (fst x)"
  shows "finish_tasks (fst (gather turns x)) (snd (gather turns x)) = finish_tasks (fst x) (snd x)"
    and "length (fst (gather turns x)) = length (fst x)"
  using assms
  by (induction turns arbitrary: x) (simp_all add: gather_def gather_turn_keeps)

lemma finish_ended: "\<forall>t \<in> set ts. fst t = [] \<Longrightarrow> finish_tasks ts s = (map snd ts, s)"
  by (induction ts) auto

text \<open>As many turns as steps are enough for each.\<close>

lemma gather_turn_left:
  assumes "j < length (fst x)"
  shows "length (fst (fst (gather_turn i x) ! j)) \<le> length (fst (fst x ! j)) - (if i = j then 1 else 0)"
  using assms by (cases x) (auto simp: gather_turn_def nth_list_update split: prod.splits list.splits)

lemma gather_length: "length (fst (gather turns x)) = length (fst x)"
  by (induction turns arbitrary: x)
    (auto simp: gather_def gather_turn_def split: prod.splits list.splits)

lemma gather_ends:
  assumes "j < length (fst x)" and "length (fst (fst x ! j)) \<le> count_list turns j"
  shows "fst (fst (gather turns x) ! j) = []"
  using assms
proof (induction turns arbitrary: x)
  case Nil
  then show ?case by (simp add: gather_def)
next
  case (Cons i turns)
  have "length (fst (gather_turn i x)) = length (fst x)"
    using gather_length [of "[i]" x] by (simp add: gather_def)
  then have "fst (fst (gather turns (gather_turn i x)) ! j) = []"
    using Cons.IH [of "gather_turn i x"] gather_turn_left [OF Cons.prems(1), of i] Cons.prems by (auto split: if_splits)
  then show ?case by (simp add: gather_def)
qed

section \<open>Gathered and sequential publishing agree\<close>

lemma finish_handlers:
  "finish_tasks (map (\<lambda>h. (steps h ev, False)) hs) s = (rs, s') \<Longrightarrow>
     call_handlers (\<lambda>h ev. run_steps (steps h ev)) hs ev s =
       (map fst (filter snd (zip hs rs)), s') \<and> length rs = length hs"
  by (induction hs arbitrary: s rs) (auto split: prod.splits)

lemma zip_raised: "map fst (filter (\<lambda>(h, t). snd t) (zip hs ts)) = map fst (filter snd (zip hs (map snd ts)))"
  by (induction hs ts rule: list_induct2') auto

lemma gathered_sequential:
  assumes "sorted_wrt (\<lambda>h k. independent (steps h ev) (steps k ev)) (handlers_of p ev)"
    and "\<forall>i < length (handlers_of p ev). length (steps (handlers_of p ev ! i) ev) \<le> count_list turns i"
  shows "publish_gathered steps turns p ev s = Some (publish_event (\<lambda>h ev. run_steps (steps h ev)) p ev s)"
proof -
  let ?x = "(map (\<lambda>h. (steps h ev, False)) (handlers_of p ev), s)"
  obtain ts s' where g: "gather turns ?x = (ts, s')" by fastforce
  have ind: "independent_tasks (fst ?x)" using assms(1) by (simp add: sorted_wrt_map)
  have "length ts = length (handlers_of p ev)" using gather_length [of turns ?x] g by simp
  then have ended: "\<forall>t \<in> set ts. fst t = []"
    using gather_ends [of _ ?x turns] assms(2) g by (simp add: all_set_conv_all_nth)
  have "finish_tasks (fst ?x) s = (map snd ts, s')"
    using gather_keeps(1) [OF ind, of turns] finish_ended [OF ended] g by simp
  from finish_handlers [where steps = steps and ev = ev and hs = "handlers_of p ev", OF this [unfolded fst_conv]] g ended show ?thesis
    by (simp add: publish_gathered_def publish_event_def Let_def zip_raised)
qed

text \<open>The listeners of a process, however often they are registered.\<close>

lemma listeners_sequential:
  assumes "\<forall>i < length (handlers_of p ev). 2 \<le> count_list turns i"
  shows "publish_gathered (\<lambda>h. broadcast_steps isoformat dumps up) turns p ev s =
    Some (publish_event (\<lambda>h. broadcast_event isoformat dumps up) p ev s)"
proof -
  have "publish_gathered (\<lambda>h. broadcast_steps isoformat dumps up) turns p ev s =
      Some (publish_event (\<lambda>h ev. run_steps (broadcast_steps isoformat dumps up ev)) p ev s)"
  proof (rule gathered_sequential)
    show "sorted_wrt (\<lambda>h k. independent (broadcast_steps isoformat dumps up ev) (broadcast_steps isoformat dumps up ev))
        (handlers_of p ev)"
      by (simp add: sorted_wrt_iff_nth_less broadcast_independent)
    show "\<forall>i < length (handlers_of p ev). length (broadcast_steps isoformat dumps up ev) \<le> count_list turns i"
      using assms by (simp add: broadcast_steps_def numeral_2_eq_2)
  qed
  then show ?thesis by (simp add: broadcast_steps_run)
qed

end
