(* ===== verification/Spec2Isabelle.thy ===== *)
theory Spec2Isabelle
  imports Example Reports LockOrder Isolation WebSockets Auth Cache CsvReports Notifications Middleware Monitoring
    Startup Contract MigrationEnv Blocked UpdateRaces Relay Engines Wiring Gather
begin

text \<open>
  Inventory management API: a verification development.

  The program is a FastAPI service over PostgreSQL (src/app): warehouses and products are
  catalogued, stock levels change only by recording movements, and a stock level at or below
  its threshold has an active alert. A movement runs in one database transaction that locks
  the stock rows it changes; after the commit the alerts of the rows are evaluated and an
  event is published in the process, whose listener puts it on a Redis channel; every process
  relays that channel to its own WebSocket clients. A Celery task sweeps the whole inventory
  every 15 minutes, another mails the alerts.

  Theories, in the order they build on each other, and the code they model:
    Prelude           programs with state and exceptions; tables updated row by row
    Identifiers       uuid.UUID as a 128-bit word, its str and the str of an int
    Exceptions        core/exceptions.py, core/error_handlers.py
    Models            models/*.py and the schema of migrations/versions/*.py as a predicate
    Events            events/base.py, events/inventory.py
    Session           core/session.py: committed database, open transaction, row locks
    Repositories      repositories/*.py over the generic BaseRepository
    Schemas           schemas/{warehouse,product,inventory,movement,alert}.py
    Catalogue         services/warehouse.py, services/product.py
    AlertService      services/alert.py
    InventoryCommand  services/inventory_command.py: its operations and the two stock legs
    RecordMovement    record_movement as a whole: what it commits
    Acceptance        record_movement as a decision: when it raises what
    InventoryQuery    services/inventory_query.py and pages of results
    Reports           services/report.py, schemas/report.py
    Sweep             tasks/alerts.py
    LockOrder         row locks of concurrent movements
    Isolation         transactions of concurrent movements; an overtaken evaluation
    Publisher         events/publisher.py
    WebSockets        websockets/*.py, the heartbeat of core/scheduler.py
    Api               api/v1/endpoints/*.py; requests served one after the other
    ParseUuid         uuid.UUID of a text
    Auth              core/security.py, api/deps.py
    Cache             core/cache.py, api/v1/endpoints/reports.py
    FileSystem        directories and files as tasks/reports.py uses them
    CsvReports        tasks/reports.py and csv.writer
    Notifications     tasks/notifications.py, core/email.py
    Middleware        core/middleware.py and the layers main.py puts around the routes
    Monitoring        tasks/monitoring.py
    Startup           core/config.py, core/logging.py, core/scheduler.py, tasks/celery_app.py, lifespan of main.py
    Contract          api/v1/responses.py, schemas/common.py: the errors each route documents
    Migration         migrations/versions/*.py, the mapped columns of models/*.py
    MigrationEnv      migrations/env.py
    Races             creations and evaluations overtaken between their SELECT and their INSERT
    Blocked           a pair with two active alerts: what changes them, and until when it stays so
    UpdateRaces       an overtaken update of a product, an overtaken resolution of an alert
    Relay             the relay task of websockets/pubsub.py under the lifespan of main.py
    Engines           the engines and session makers of core/session.py over event loops
    Routing           the routers of api/v1/endpoints, api/v1/router.py, the tags of main.py
    Wiring            get_settings, Redis clients, module-level instances, the FastAPI object of main.py
    Gather            publish with its handlers interleaved by asyncio.gather
    Example           a concrete database the properties are applied to

  State. A \<open>db\<close> has one list of rows per table; the schema's keys, foreign keys and column
  ranges are \<open>constraints\<close>, and a flush that would break them raises \<open>DatabaseError\<close>. A
  \<open>world\<close> adds the transaction. A coroutine is a function from the world to a result and a
  world (\<open>prog\<close>), an exception is the result Inl. Everything outside the repository
  (the clock, uuid4, row order without ORDER BY, ILIKE, the broker, the publisher's
  subscribers, Redis, json, bcrypt, PyJWT, the SMTP server) is a field of \<open>deps\<close> or an
  argument, numbered by a tick so that two calls may answer differently.

  Interfaces are locales interpreted on the model: \<open>table_store\<close> (six tables),
  \<open>keyed_service\<close> (both catalogue services), \<open>validated_service\<close> (what their payload validation
  guarantees of the rows, so that they can be shown), \<open>stock_leg\<close> and \<open>leg_pair\<close> (increase and decrease,
  in either order), \<open>ranked_locks\<close> (deadlock freedom from a common lock order),
  \<open>event_bus\<close> (the publisher).

  What is shown, by group: the whole system (invariants of every state reachable by requests
  and sweeps: schema, rows their read models take, ledger, non-negative stock, one active alert per pair; append-only
  history); recording a movement (exact outcome on every branch, atomicity, effects,
  conservation); alerts (reconciliation, announcements, resolution, the sweep); concurrency
  of movements (serializability, lock order, no deadlock, every run ends); the catalogue (uniqueness, conflicts, nulls);
  queries and reports (agreement with the ledger, totals); HTTP surface (routing, failed
  requests change nothing, every status is a documented one); the schema (what the migration makes is
  what the models declare and what \<open>constraints\<close> says; running migrations forth and back); notifications (who gets which event); report cache, CSV
  export, alert mails, access tokens and middleware, each on every branch; start-up and shutdown (who is registered, what runs).

  Bounds. One movement draws at most 11 values from outside before it ends: one per row it
  may insert, one clock value per commit and the ids of the events; \<open>fresh e 11\<close> asks that the
  ids among them are new. The sweep's page size is 200 and its loop ends because the skip
  passes the end of the table. OFFSET and LIMIT are 64 bit, stock and quantities 32 bit,
  prices 12 digits, and a Python Decimal sum rounds at 28 digits.

  Concurrency. Requests and sweeps of the system model run one after the other. Isolation
  models movements that run at the same time, statement by statement, and shows that what they
  commit is what the one-after-the-other model gives; what follows the commit (alerts) is not
  serialized, and a theorem shows what that can lead to. Races cuts the services that check
  before they insert at the check and lets any other requests run there: a lost creation is a
  500, and two evaluations of one record leave two active alerts; Blocked shows that they stay
  two, and every evaluation of the pair raises, until one is resolved by hand. UpdateRaces does the same for
  the resolution of an alert (both answer 200) and for updates of a product, which merge column
  by column. Updates of a warehouse follow the same code and are not repeated.

  Gather interleaves the handlers of an event at their awaits and shows that the order of the
  turns does not matter for the listeners there are; elsewhere they run one after the other.

  The schema. Migration has the DDL of the initial revision as a list of operations, a catalog
  they run on (PostgreSQL's rules for names, references and types), the mapped columns of the
  models, and the check of stored rows against a catalog. MigrationEnv is Alembic's env.py on
  top of it; the steps to run are its argument.

  Processes. Wiring has what importing the modules makes: the settings, read once; one
  publisher, connection manager and broadcaster per process; the Redis clients and the event
  loops they may be used on; the FastAPI object, whose layers are shown to be the application
  of Middleware. CsvReports writes to a file system (FileSystem) in which directories may be
  missing, in the way or refused, and a file may be left cut short by a full disk.

  Not modelled: how pydantic-settings reads the environment, the text of log lines (the logger
  calls), Celery, APScheduler, Alembic, Starlette's (CORSMiddleware among it) and Pydantic's
  own code and uvicorn. The services' constructors only keep the session and make
  repositories on it, which the definitions take as given. Unflushed attribute changes and the
  identity map of SQLAlchemy are folded into the session's view of the database, except in
  Isolation's \<open>overtaken\<close>, where the stale object matters.
\<close>

section \<open>The whole system\<close>

text \<open>
  C1. Starting from an empty database, after any sequence of served requests and sweeps, the
  committed database satisfies the schema, its warehouses and products pass the field
  constraints of their read models, every stock level equals the balance of the audit trail,
  no stock is negative, and no product/warehouse pair has two active alerts.
\<close>

theorem reachable_states_consistent:
  assumes "fair_scan e" and "(system_step e)\<^sup>*\<^sup>* w w'" and "committed w = empty_db"
  shows "constraints (committed w') \<and> rows_readable (committed w') \<and>
    (\<forall>p wh. stock_in (inventories (committed w')) p wh = ledger_balance (movements (committed w')) p wh \<and>
       0 \<le> stock_in (inventories (committed w')) p wh \<and>
       length (active_alerts (committed w') p wh) \<le> 1)"
proof -
  have "system_ok (committed w)" by (simp add: assms(3) system_ok_empty)
  note steps = reachable_db_steps [OF assms(1,2) this]
  have "rows_readable (committed w')"
    using db_steps_readable [OF steps] by (simp add: assms(3) rows_readable_empty)
  with db_steps_system_ok [OF steps \<open>system_ok (committed w)\<close>] show ?thesis
    unfolding system_ok_def ledger_ok_def stock_nonneg_def one_active_def by blast
qed

lemma reachable_states_consistent_witness:
  "constraints (committed demo_history) \<and> rows_readable (committed demo_history) \<and>
   (\<forall>p wh. stock_in (inventories (committed demo_history)) p wh =
        ledger_balance (movements (committed demo_history)) p wh \<and>
      0 \<le> stock_in (inventories (committed demo_history)) p wh \<and>
      length (active_alerts (committed demo_history) p wh) \<le> 1)"
  by (rule reachable_states_consistent [OF demo_fair demo_history_steps]) (simp add: demo_start_def)

text \<open>
  C2. The audit trail is append-only: whatever is served later, the movements recorded so
  far keep their place and contents, and a resolved alert is never changed.
\<close>

theorem history_is_permanent:
  assumes "fair_scan e" and "(system_step e)\<^sup>*\<^sup>* w w'" and "system_ok (committed w)"
  shows "(\<exists>ms. movements (committed w') = movements (committed w) @ ms) \<and>
    {a \<in> set (alerts (committed w)). al_status a = RESOLVED} \<subseteq> set (alerts (committed w'))"
proof -
  note steps = reachable_db_steps [OF assms]
  show ?thesis
    using db_steps_trail [OF steps] db_steps_resolved [OF steps] by (auto simp: trail_extends_def)
qed

lemma history_is_permanent_witness:
  "let w' = snd (serve demo_deps (RecordMovement demo_transfer) demo_world)
   in (\<exists>ms. movements (committed w') = movements demo_db @ ms) \<and>
    {a \<in> set (alerts demo_db). al_status a = RESOLVED} \<subseteq> set (alerts (committed w'))"
  using history_is_permanent [OF demo_fair serve_steps [OF rtranclp.rtrancl_refl],
      of demo_world "RecordMovement demo_transfer"] demo_invariants
  by (simp add: demo_world_def Let_def)

section \<open>Recording a movement\<close>

text \<open>
  C3. record_movement decides exactly as \<open>movement_problem\<close> says, on every branch: the
  product, then the legs in lock order, each with its warehouse, its inventory record, the
  sufficiency of the stock and the range of the column. With a problem it raises it and has
  committed and published nothing; without one it returns the movement. (The next eleven
  ids drawn are assumed new, which is as many as one movement can use.)
\<close>

theorem movement_accepted_or_refused:
  assumes "movement_create_ok x" and "storable x" and "constraints (work w)" and "fresh e 11 w"
    and "stock_nonneg (work w)" and "one_active (work w)"
    and "int4 (low_stock_alert_threshold_default e)"
  shows "case movement_problem x (work w) of
      Some y \<Rightarrow> \<exists>w'. record_movement e x u w = (Inl y, w') \<and> committed w' = committed w \<and>
        outside w' = outside w
    | None \<Rightarrow> \<exists>m w'. record_movement e x u w = (Inr m, w')"
  using assms by (rule record_movement_decides)

lemma movement_accepted_or_refused_witness:
  "(\<exists>m w'. record_movement demo_deps demo_transfer None demo_world = (Inr m, w')) \<and>
   (let x = demo_transfer\<lparr>mc_quantity := 21\<rparr> in \<exists>w'. record_movement demo_deps x None demo_world =
      (Inl (insufficient_stock 21 3 1 20), w') \<and> committed w' = demo_db \<and> outside w' = [])"
proof -
  let ?x = "demo_transfer\<lparr>mc_quantity := 21\<rparr>"
  have w: "work demo_world = demo_db" "committed demo_world = demo_db" "outside demo_world = []"
    by (simp_all add: demo_world_def)
  have ok: "stock_nonneg demo_db" "one_active demo_db" "constraints demo_db"
    using demo_invariants by (simp_all add: system_ok_def)
  have "movement_problem demo_transfer demo_db = None" by code_simp
  moreover have "movement_problem ?x demo_db = Some (insufficient_stock 21 3 1 20)" by code_simp
  moreover have "movement_create_ok ?x" "storable ?x" by code_simp+
  ultimately show ?thesis
    using movement_accepted_or_refused [OF demo_transfer_ok demo_storable _ demo_fresh _ _ demo_threshold]
      movement_accepted_or_refused [of ?x demo_world demo_deps, OF _ _ _ demo_fresh _ _ demo_threshold]
    by (simp add: w ok)
qed

text \<open>
  C4. Atomicity, whatever happens: either the call raised with the database and the outside
  untouched, or the committed database is the old one with the movement's whole effect:
  stock, one audit record, then alerts (\<open>movement_committed\<close>).
\<close>

theorem movement_all_or_nothing:
  assumes "movement_create_ok x" and "constraints (work w)"
    and "record_movement e x u w = (res, w')"
  shows "(\<exists>y. res = Inl y) \<and> committed w' = committed w \<and> outside w' = outside w \<or>
    movement_committed x u (work w) (committed w')"
  using record_movement_committed [OF assms] by blast

lemma movement_all_or_nothing_witness:
  "case record_movement demo_deps demo_transfer None demo_world of (res, w') \<Rightarrow>
    (\<exists>y. res = Inl y) \<and> committed w' = committed demo_world \<and> outside w' = outside demo_world \<or>
    movement_committed demo_transfer None demo_db (committed w')"
  using movement_all_or_nothing [OF demo_transfer_ok, of demo_world demo_deps None]
    demo_constraints by (auto simp: demo_world_def split: prod.splits)

text \<open>
  C5. A movement that returns has changed every stock by exactly its effect, appended
  exactly itself to the audit trail, left the alert of every affected pair as its threshold
  wants it, and published the event its committed stock deserves.
\<close>

theorem movement_effects:
  assumes "movement_create_ok x" and "constraints (work w)"
    and "record_movement e x u w = (Inr m, w')"
  shows "(\<forall>p wh. stock_in (inventories (committed w')) p wh =
        stock_in (inventories (work w)) p wh + movement_effect p wh m) \<and>
    movements (committed w') = movements (work w) @ [m] \<and>
    mov_type m = mc_movement_type x \<and> mov_quantity m = mc_quantity x \<and>
    (\<forall>r \<in> set (inventories (committed w')). inv_product_id r = mc_product_id x \<and>
        inv_warehouse_id r \<in> set (touched x) \<longrightarrow> reconciled e (committed w') r) \<and>
    (\<exists>ev s. outside w' = event_publish e ev s \<and> movement_event x (committed w') = Some (body ev))"
proof (rule record_movement_done [OF assms])
  assume mv: "movement_committed x u (work w) (committed w')"
    and trail: "movements (committed w') = movements (work w) @ [m]"
    and m: "mov_type m = mc_movement_type x" "mov_quantity m = mc_quantity x"
    and rec: "\<And>r. r \<in> set (inventories (committed w')) \<Longrightarrow> inv_product_id r = mc_product_id x \<Longrightarrow>
        inv_warehouse_id r \<in> set (touched x) \<Longrightarrow> reconciled e (committed w') r"
    and ev: "\<exists>ev s. outside w' = event_publish e ev s \<and> movement_event x (committed w') = Some (body ev)"
  have "movement_effect p wh m = movement_effect p wh (new_movement x None)" for p wh
    using movement_committed_stock(2) [OF mv, of p wh] trail by simp
  with movement_committed_stock(1) [OF mv] trail m rec ev show ?thesis by simp
qed

lemma movement_effects_witness:
  "\<exists>m w'. record_movement demo_deps demo_transfer None demo_world = (Inr m, w') \<and>
    stock_in (inventories (committed w')) 3 1 = 8 \<and> stock_in (inventories (committed w')) 3 2 = 12 \<and>
    movements (committed w') = movements demo_db @ [m]"
proof -
  have w: "work demo_world = demo_db" by (simp add: demo_world_def)
  have ok: "stock_nonneg demo_db" "one_active demo_db" "constraints demo_db"
    using demo_invariants by (simp_all add: system_ok_def)
  have "movement_problem demo_transfer demo_db = None" by code_simp
  then obtain m w' where run: "record_movement demo_deps demo_transfer None demo_world = (Inr m, w')"
    using record_movement_decides [OF demo_transfer_ok demo_storable _ demo_fresh _ _ demo_threshold, of None]
    by (auto simp: w ok)
  have c: "constraints (work demo_world)" by (simp add: w ok)
  note eff = movement_effects [OF demo_transfer_ok c run]
  from record_movement_done [OF demo_transfer_ok c run]
  have "movement_committed demo_transfer None demo_db (committed w')" by (metis w)
  from movement_committed_stock(1) [OF this]
  have "movement_effect p wh m = movement_effect p wh (new_movement demo_transfer None)" for p wh
    using eff by (simp add: w)
  moreover have "movement_effect 3 1 (new_movement demo_transfer None) = - 12"
    "movement_effect 3 2 (new_movement demo_transfer None) = 12"
    by (simp_all add: movement_effect_def demo_transfer_def)
  moreover have "stock_in (inventories demo_db) 3 1 = 20" "stock_in (inventories demo_db) 3 2 = 0"
    by (simp_all add: demo_db_def)
  ultimately show ?thesis using run eff by (intro exI [of _ m] exI [of _ w']) (simp add: w)
qed

text \<open>
  C6. Conservation: a transfer, however it ends, leaves the stock of every product, summed
  over any set of warehouses that contains both ends, as it was.
\<close>

theorem transfer_conserves_stock:
  assumes "movement_create_ok x" and "mc_movement_type x = TRANSFER" and "constraints (work w)"
    and "committed w = work w" and "record_movement e x u w = (res, w')" and "finite W"
    and "set (touched x) \<subseteq> W"
  shows "(\<Sum>wh\<in>W. stock_in (inventories (committed w')) p wh) =
    (\<Sum>wh\<in>W. stock_in (inventories (committed w)) p wh)"
proof -
  obtain s t where x: "mc_source_warehouse_id x = Some s" "mc_destination_warehouse_id x = Some t"
    using assms(1,2) by (cases rule: movement_create_ok_cases) auto
  then have st: "s \<in> W" "t \<in> W" using assms(7) by (auto simp: touched_def)
  have "(\<Sum>wh\<in>W. movement_effect p wh (new_movement x None)) = 0"
  proof (cases "p = mc_product_id x")
    case True
    have "(\<Sum>wh\<in>W. movement_effect p wh (new_movement x None)) =
        (\<Sum>wh\<in>W. if t = wh then mc_quantity x else 0) - (\<Sum>wh\<in>W. if s = wh then mc_quantity x else 0)"
      unfolding sum_subtractf [symmetric] by (rule sum.cong) (auto simp: movement_effect_def x True)
    with st assms(6) show ?thesis by (simp add: sum.delta)
  qed (simp add: movement_effect_def)
  then show ?thesis
    using record_movement_committed [OF assms(1,3,5)] movement_committed_stock(1) [of x u "work w" "committed w'"]
    by (auto simp: assms(4) sum.distrib)
qed

lemma transfer_conserves_stock_witness:
  "stock_in (inventories (committed (snd (record_movement demo_deps demo_transfer None demo_world)))) 3 1 +
   stock_in (inventories (committed (snd (record_movement demo_deps demo_transfer None demo_world)))) 3 2 = 20"
proof -
  let ?r = "record_movement demo_deps demo_transfer None demo_world"
  have "(\<Sum>wh\<in>{1, 2}. stock_in (inventories (committed (snd ?r))) 3 wh) =
      (\<Sum>wh\<in>{1, 2}. stock_in (inventories (committed demo_world)) 3 wh)"
    by (rule transfer_conserves_stock [OF demo_transfer_ok, of demo_world demo_deps None "fst ?r"])
      (use demo_constraints in \<open>simp_all add: demo_world_def demo_transfer_def touched_def\<close>)
  then show ?thesis by (simp add: demo_world_def demo_db_def)
qed

text \<open>
  Stock is never overdrawn: a movement out of a warehouse that holds less than its
  quantity raises and leaves the database and the outside untouched.
\<close>

lemma overdraft_refused:
  assumes "movement_create_ok x" and "constraints (work w)"
    and "mc_source_warehouse_id x = Some s"
    and "stock_in (inventories (work w)) (mc_product_id x) s < mc_quantity x"
    and "record_movement e x u w = (res, w')"
  shows "(\<exists>y. res = Inl y) \<and> committed w' = committed w \<and> outside w' = outside w"
  using record_movement_committed [OF assms(1,2,5)] movement_committed_stock(3) [OF _ assms(3)] assms(4)
  by fastforce

lemma overdraft_refused_witness:
  "let r = record_movement demo_deps (demo_transfer\<lparr>mc_quantity := 21\<rparr>) None demo_world
   in (\<exists>y. fst r = Inl y) \<and> committed (snd r) = demo_db \<and> outside (snd r) = []"
proof -
  let ?x = "demo_transfer\<lparr>mc_quantity := 21\<rparr>"
  let ?r = "record_movement demo_deps ?x None demo_world"
  have x: "movement_create_ok ?x" by code_simp
  have "(\<exists>y. fst ?r = Inl y) \<and> committed (snd ?r) = committed demo_world \<and>
      outside (snd ?r) = outside demo_world"
    by (rule overdraft_refused [OF x, of demo_world 1 demo_deps None])
      (use demo_constraints in \<open>simp_all add: demo_world_def demo_transfer_def demo_db_def\<close>)
  then show ?thesis by (simp add: Let_def demo_world_def)
qed

section \<open>Movements at the same time\<close>

text \<open>
  C7. Movements that run at the same time, interleaved statement by statement in any way and
  interrupted anywhere, are serializable: what they have committed is what
  record_movement gives when the sessions that committed are served one after the other in
  the order of their commits (none of those calls raises), so no update is lost and no stock
  is overdrawn; every session commits at most once. (Concurrent changes of products and
  warehouses are left out: the API never deletes one.)
\<close>

theorem concurrent_movements_are_serializable:
  assumes "(concurrent_step d)\<^sup>*\<^sup>* (started d xs) s" and "\<forall>x \<in> set xs. movement_create_ok x"
    and "committed w = d" and "work w = d" and "system_ok d" and "int4 (low_stock_alert_threshold_default e)"
    and "fresh e (14 * length (trail s)) w"
  shows "map payload (sessions s) = xs \<and> mset (trail s) = committed_sessions (sessions s) \<and>
    (\<exists>w'. for_each (one_request e) (trail s) w = (Inr (), w') \<and>
       (\<forall>p wh. amount (stock s) (p, wh) = stock_in (inventories (committed w')) p wh \<and> 0 \<le> amount (stock s) (p, wh)))"
proof -
  from concurrent_steps_mirror [OF assms(1-4) _ _ _ assms(6,7)] assms(5)
  obtain w' where "mirrors e d w s w'" by (auto simp: system_ok_def)
  with concurrent_steps_accounted [OF assms(1)] show ?thesis
    by (auto simp: mirrors_def accounted_def stock_nonneg_def)
qed

lemma concurrent_movements_are_serializable_witness:
  "trail demo_race = [demo_transfer] \<and>
   (\<exists>w'. for_each (one_request demo_deps) [demo_transfer] demo_world = (Inr (), w') \<and>
      stock_in (inventories (committed w')) 3 1 = 8)"
proof -
  have "(concurrent_step demo_db)\<^sup>*\<^sup>* (started demo_db [demo_transfer, demo_transfer]) demo_race"
    unfolding demo_race_def by (rule run_schedule_steps)
  from concurrent_movements_are_serializable [OF this _ _ _ demo_invariants demo_threshold, of demo_world]
    demo_transfer_ok demo_fresh_14 demo_race_trail
  obtain w' where "for_each (one_request demo_deps) [demo_transfer] demo_world = (Inr (), w')"
    "amount (stock demo_race) (3, 1) = stock_in (inventories (committed w')) 3 1"
    by (auto simp: demo_world_def)
  with demo_race_trail show ?thesis by (auto simp: amount_def)
qed

text \<open>
  C8. They never deadlock, and every run ends: in each reachable state either every session
  has committed or rolled back, or one of them can send its next statement, which then does
  not wait; and no run of \<open>n\<close> movements has more than \<open>7 n\<close> steps.
\<close>

theorem concurrent_movements_finish:
  assumes "\<forall>x \<in> set xs. movement_create_ok x" and "(concurrent_step d ^^ n) (started d xs) s"
  shows "(finished s \<or> (\<exists>i s'. advance d i s = Some s')) \<and> n \<le> 7 * length xs"
proof -
  have "(concurrent_step d)\<^sup>*\<^sup>* (started d xs) s" by (rule relpowp_imp_rtranclp [OF assms(2)])
  then have "concurrent_ok d s"
    by (induction rule: rtranclp_induct) (auto intro: started_ok [OF assms(1)] concurrent_step_ok)
  with some_session_advances [of d s] run_length [OF assms(2)] started_cost [OF assms(1), of d]
  show ?thesis by fastforce
qed

lemma concurrent_movements_finish_witness:
  "let s = run_schedule demo_db [0, 0, 0, 1, 1] (started demo_db [demo_transfer, demo_transfer])
   in advance demo_db 1 s = None \<and> \<not> finished s \<and> (\<exists>i s'. advance demo_db i s = Some s')"
proof -
  let ?first = "started demo_db [demo_transfer, demo_transfer]"
  let ?s = "run_schedule demo_db [0, 0, 0, 1, 1] ?first"
  obtain n where "(concurrent_step demo_db ^^ n) ?first ?s"
    using rtranclp_imp_relpowp [OF run_schedule_steps [of demo_db ?first "[0, 0, 0, 1, 1]"]] by blast
  from concurrent_movements_finish [OF _ this] demo_transfer_ok
  have "finished ?s \<or> (\<exists>i s'. advance demo_db i ?s = Some s')" by simp
  moreover have "advance demo_db 1 ?s = None" "\<not> finished ?s"
    by (simp_all add: demo_steps demo_tables upt_rec finished_def)
  ultimately show ?thesis by (simp add: Let_def)
qed

text \<open>
  C9. The alerts are not serialized: the evaluation after a movement's commit holds no lock and
  uses the Inventory object as it was at the commit. A receipt that runs between the two and
  lifts the stock above the threshold is overlooked: at the end the pair has an active alert
  although its stock is above the threshold.
\<close>

theorem overtaken_evaluation_is_stale:
  assumes "movement_create_ok x" "storable x" "mc_source_warehouse_id x = Some s" "mc_destination_warehouse_id x = None"
    and "movement_create_ok y" "storable y" "mc_source_warehouse_id y = None" "mc_destination_warehouse_id y = Some s"
      "mc_product_id y = mc_product_id x"
    and "system_ok d" "committed w = d" "work w = d" "movement_problem x d = None" "fresh e 18 w"
    and "low_stock_alert_threshold_default e = t" "int4 t"
    and "stock_in (inventories d) (mc_product_id x) s - mc_quantity x = q" "q \<le> t"
    and "t < q + mc_quantity y" "q + mc_quantity y < 2 ^ 31"
  shows "\<exists>a w'. overtaken e x y w = (Inr (Some a), w') \<and>
    stock_in (inventories (work w')) (mc_product_id x) s = q + mc_quantity y \<and>
    active_alerts (work w') (mc_product_id x) s = [a]"
proof -
  have n: "int4 (stock_in (inventories d) (mc_product_id x) s - mc_quantity x + mc_quantity y)"
    using assms(16,17,19,20) by (simp add: int4_def)
  have thr: "int4 (low_stock_alert_threshold_default e)" using assms(15,16) by simp
  obtain iv w2 where run: "overtaken e x y w = evaluate_stock_level e iv w2" "fresh e 1 w2" "work w2 = committed w2"
    and iv: "inv_pair iv = (mc_product_id x, s)" "inv_quantity iv = q" "applicable_threshold e iv = t"
    and ok: "system_ok (committed w2)" "int4 (inv_quantity iv)"
    and refs: "mc_product_id x \<in> set (ids (products (committed w2)))" "s \<in> set (ids (warehouses (committed w2)))"
    and q: "stock_in (inventories (committed w2)) (mc_product_id x) s = q + mc_quantity y"
    by (rule overtaken_run [OF assms(1-14) thr n]) (use assms(15,17) in simp)
  have c: "constraints (work w2)" "one_active (work w2)" using ok run(3) by (simp_all add: system_ok_def)
  have "int4 (applicable_threshold e iv)" using iv(3) assms(16) by simp
  from evaluate_object_decides [OF c(1) run(2) c(2) this ok(2)] refs iv(1) run(3)
  obtain r w' where ev: "evaluate_stock_level e iv w2 = (Inr r, w')" by (auto simp: decides_def)
  note st = evaluate_step [OF ev c(1) ok(2)]
  have "wanted e iv \<noteq> None" using iv assms(18) by (simp add: wanted_def wanted_alert_def)
  then obtain a where a: "active_alerts (work w') (mc_product_id x) s = [a]" "r = Some a"
    using st(1,3) iv(1) by (auto simp: alert_step_def)
  have "inventories (work w') = inventories (work w2)"
    using st(1) unfolding alert_step_def by (metis db.select_convs(3) db.surjective db.update_convs(5))
  with run ev a q show ?thesis by simp
qed

lemma overtaken_evaluation_is_stale_witness:
  "let sale = demo_transfer\<lparr>mc_movement_type := OUT, mc_destination_warehouse_id := None\<rparr>;
       delivery = sale\<lparr>mc_movement_type := IN, mc_source_warehouse_id := None, mc_destination_warehouse_id := Some 1\<rparr>
   in \<exists>a w'. overtaken demo_deps sale delivery demo_world = (Inr (Some a), w') \<and>
     stock_in (inventories (work w')) 3 1 = 20 \<and> active_alerts (work w') 3 1 = [a]"
proof -
  let ?x = "demo_transfer\<lparr>mc_movement_type := OUT, mc_destination_warehouse_id := None\<rparr>"
  let ?y = "?x\<lparr>mc_movement_type := IN, mc_source_warehouse_id := None, mc_destination_warehouse_id := Some 1\<rparr>"
  have ok: "movement_create_ok ?x" "storable ?x" "movement_create_ok ?y" "storable ?y" "movement_problem ?x demo_db = None"
    by code_simp+
  have "{10..<28} = {10, 11, 12, 13, 14, 15, 16, 17, 18, 19, 20, 21, 22, 23, 24, 25, 26, 27 :: nat}"
    unfolding set_upt [symmetric] by (simp add: upt_rec)
  then have f: "fresh demo_deps 18 demo_world"
    by (simp add: fresh_def demo_world_def demo_deps_def demo_db_def all_ids_def inj_on_def)
  have s: "stock_in (inventories demo_db) (mc_product_id ?x) 1 - mc_quantity ?x = 8"
    by (simp add: demo_transfer_def demo_db_def)
  from overtaken_evaluation_is_stale [OF ok(1,2) _ _ ok(3,4) _ _ _ demo_invariants _ _ ok(5) f refl demo_threshold s]
  show ?thesis by (simp add: demo_world_def demo_deps_def demo_transfer_def Let_def)
qed

section \<open>The documented contract\<close>

text \<open>
  C10. The HTTP contract: a payload that fails validation is a 422 and touches nothing; any
  other request is answered with its success status and a resource, or with an error whose
  status its route documents in \<open>responses=\<close>, or with a 500. Reading one resource by its id is
  a 500 exactly when the row is a warehouse or product its read model refuses, which no
  reachable state has (C1).
\<close>

theorem statuses_are_documented:
  "if request_ok req
   then resp_status (fst (serve e req w)) \<in> {success_status req, 500} \<union> dom (documented req) \<and>
     (resp_status (fst (serve e req w)) = success_status req) =
        (\<forall>d. resp_content (fst (serve e req w)) \<noteq> ErrorBody d) \<and>
     (reads_by_id req \<longrightarrow> (resp_status (fst (serve e req w)) = 500) =
        (case req of
           GetWarehouse i \<Rightarrow> \<exists>r. find (\<lambda>r. entity_id r = i) (warehouses (committed w)) = Some r \<and> \<not> warehouse_fields_ok r
         | GetProduct i \<Rightarrow> \<exists>r. find (\<lambda>r. entity_id r = i) (products (committed w)) = Some r \<and> \<not> product_fields_ok r
         | _ \<Rightarrow> False)) \<and>
     (reads_by_id req \<and> rows_readable (committed w) \<longrightarrow> resp_status (fst (serve e req w)) \<noteq> 500)
   else serve e req w = (\<lparr>resp_status = 422, resp_content = ErrorBody ''validation''\<rparr>, w)"
proof (cases "request_ok req")
  case True
  have "resp_status (fst (serve e req w)) \<in> {success_status req, 500} \<union> dom (documented req)"
    using serve_statuses(1) [OF True, of e w] by (auto split: if_splits)
  moreover have "reads_by_id req \<and> rows_readable (committed w) \<longrightarrow> resp_status (fst (serve e req w)) \<noteq> 500"
    using serve_statuses(1) [OF True, of e w] documented_errors [of req] success_status_cases [of req] by auto
  ultimately show ?thesis
    using True serve_statuses(2) [OF True, of e w] read_by_id_status [of req e w]
    by (simp only: if_True simp_thms)
qed (simp add: serve_refused)

lemma statuses_are_documented_witness:
  "resp_status (fst (serve demo_deps (GetWarehouse 1) demo_world)) \<in> {200, 404}"
proof -
  let ?status = "resp_status (fst (serve demo_deps (GetWarehouse 1) demo_world))"
  have ok: "request_ok (GetWarehouse 1)" by simp
  note shown = statuses_are_documented [of "GetWarehouse 1" demo_deps demo_world, unfolded if_P [OF ok]]
  have "?status \<in> {success_status (GetWarehouse 1), 500} \<union> dom (documented (GetWarehouse 1))"
    by (rule shown [THEN conjunct1])
  moreover have "dom (documented (GetWarehouse 1)) = {404}" by (simp add: documented_defs)
  moreover have "reads_by_id (GetWarehouse 1) \<and> rows_readable (committed demo_world)"
    using demo_readable by (simp add: demo_world_def)
  with shown have "?status \<noteq> 500" by blast
  ultimately show ?thesis by auto
qed

text \<open>
  C11. Every request of the surface is reachable over HTTP, and by one route only: written as
  its method, path, query and body it is routed and read back as itself and then served; no
  two routes of the application match one method and path; and the tags documented in the
  OpenAPI schema are exactly those the routes carry.
\<close>

theorem http_reaches_every_request:
  assumes "reads_back p wr req"
  shows "http_serve e p (app_routes default_prefix) elsewhere (http_of wr req) w = serve e req w \<and>
    length (filter (\<lambda>r. rt_method r = m \<and> match_path (rt_path r) path \<noteq> None) (app_routes default_prefix)) \<le> 1 \<and>
    set (websocket_route_tag # concat (map rt_tags (app_routes default_prefix))) = set (map fst OPENAPI_TAGS)"
  by (rule conjI [OF http_serve_request [OF assms] conjI [OF apart_unique [OF app_routes_apart] tags_documented]])

lemma http_reaches_every_request_witness:
  "let p = \<lparr>read_uuid = ParseUuid.UUID, read_int = (\<lambda>s. None),
      read_bool = (\<lambda>s. if s = ''true'' then Some True else if s = ''false'' then Some False else None),
      read_warehouse_create = (\<lambda>s. None), read_warehouse_update = (\<lambda>s. None), read_product_create = (\<lambda>s. None),
      read_product_update = (\<lambda>s. None), read_movement_create = (\<lambda>s. None)\<rparr>;
      wr = \<lparr>write_warehouse_create = (\<lambda>x. []), write_warehouse_update = (\<lambda>x. []), write_product_create = (\<lambda>x. []),
        write_product_update = (\<lambda>x. []), write_movement_create = (\<lambda>x. [])\<rparr>
   in http_serve demo_deps p (app_routes default_prefix) (\<lambda>_ w. (\<lparr>resp_status = 200, resp_content = ErrorBody []\<rparr>, w))
      (http_of wr (GetStockLevel 3 1)) demo_world = serve demo_deps (GetStockLevel 3 1) demo_world"
  unfolding Let_def
  by (rule http_reaches_every_request [THEN conjunct1]) (simp add: reads_back_def UUID_str)

section \<open>The schema and its migration\<close>

text \<open>
  C12. The schema everything else rests on is the one the migration makes: \<open>upgrade\<close> runs on an
  empty database, its result has the tables, columns, keys and indexes the models declare,
  and what it accepts as stored rows is exactly \<open>constraints\<close>.
\<close>

theorem constraints_are_the_migrated_schema:
  "case run_script upgrade empty_catalog of
     Inl x \<Rightarrow> False
   | Inr c \<Rightarrow> in_step c metadata \<and> (\<forall>d. accepts c (stored d) = constraints d)"
  by (simp add: upgrade_run migrated_in_step migrated_accepts)

section \<open>Check, then act\<close>

text \<open>
  C13. A lost race for a natural key is a 500, not the documented 409: a creation whose SKU or
  code was free when it looked, and has been taken by a request that committed before its
  INSERT, is refused by the unique index; what the other request committed stays.
\<close>

theorem lost_creation_race_is_a_500:
  assumes "constraints (work w)" and "constraints (committed (f w))"
    and "pc_sku x \<notin> prod_sku ` set (products (work w))"
    and "pc_sku x \<in> prod_sku ` set (products (committed (f w)))"
    and "wc_code y \<notin> wh_code ` set (warehouses (work w))"
    and "wc_code y \<in> wh_code ` set (warehouses (committed (f w)))"
  shows "fst (interrupted_create_product e f x w) = Inl DatabaseError \<and>
    committed (snd (interrupted_create_product e f x w)) = committed (f w) \<and>
    fst (interrupted_create_warehouse e f y w) = Inl DatabaseError \<and>
    committed (snd (interrupted_create_warehouse e f y w)) = committed (f w) \<and>
    status_code (handle_exception DatabaseError) = 500"
  using raced_product [of w f x e] raced_warehouse [of w f y e] assms by auto

lemma lost_creation_race_is_a_500_witness:
  "fst (interrupted_create_product demo_deps (\<lambda>w. w\<lparr>committed := demo_db\<rparr>)
     \<lparr>pc_sku = ''B-1'', pc_name = ''Bolt'', pc_description = None, pc_price = Decimal 1 0\<rparr> demo_start) = Inl DatabaseError"
  using lost_creation_race_is_a_500 [of demo_start "\<lambda>w. w\<lparr>committed := demo_db\<rparr>"
      "\<lparr>pc_sku = ''B-1'', pc_name = ''Bolt'', pc_description = None, pc_price = Decimal 1 0\<rparr>"
      "\<lparr>wc_name = ''North'', wc_code = ''N'', wc_address = None\<rparr>" demo_deps] demo_constraints
  by (simp add: demo_start_def) (simp add: demo_db_def empty_db_def)

text \<open>
  C14. How the one-active-alert invariant breaks, and what follows: two evaluations of a
  record (say of the sweep and of a movement) that both look before either has inserted raise
  two active alerts for the pair, since nothing in the schema forbids it. From then on, after
  any served requests and sweeps that do not resolve one of the two by hand, the pair has these
  two active alerts, and an evaluation of any record of the pair in a new session, whatever its
  stock, raises MultipleResultsFound, a 500, and changes nothing. Resolving either by hand
  leaves the other as the one active alert, and evaluations of the pair find it again.
\<close>

theorem raced_evaluations_block_the_pair:
  assumes "committed w = work w" and "constraints (work w)" and "iv \<in> set (inventories (work w))"
    and "int4 (applicable_threshold e iv)" and "pair_active w iv = []" and "wanted e iv \<noteq> None"
    and "fresh e 6 w" and "fair_scan e" and "p = inv_product_id iv" and "wh = inv_warehouse_id iv"
  shows "case interrupted_evaluation e (another_evaluation e iv) iv w of (res, w') \<Rightarrow>
    \<exists>a b. res = Inr (Some b) \<and> a \<noteq> b \<and> active_alerts (committed w') p wh = [a, b] \<and> constraints (committed w') \<and>
    status_code (handle_exception MultipleResultsFound) = 500 \<and>
    (\<forall>v. (step_keeping e {entity_id a, entity_id b})\<^sup>*\<^sup>* w' v \<longrightarrow>
      active_alerts (committed v) p wh = [a, b] \<and>
      (\<forall>r. inv_product_id r = p \<and> inv_warehouse_id r = wh \<longrightarrow>
         evaluate_stock_level e r (begin_session e v) = (Inl MultipleResultsFound, begin_session e v)) \<and>
      (\<forall>c d resp v'. (c, d) \<in> {(a, b), (b, a)} \<and> serve e (ResolveAlert (entity_id c)) v = (resp, v') \<longrightarrow>
         resp_status resp = 200 \<and> active_alerts (committed v') p wh = [d] \<and>
         (\<forall>r \<in> set (inventories (committed v')). inv_product_id r = p \<and> inv_warehouse_id r = wh \<longrightarrow>
            fst (evaluate_stock_level e r (begin_session e v')) \<noteq> Inl MultipleResultsFound)))"
proof -
  obtain k where "wanted e iv = Some k" using assms(6) by blast
  from raced_evaluations [OF assms(1-5) this assms(7)] obtain a b w' where
    run: "interrupted_evaluation e (another_evaluation e iv) iv w = (Inr (Some b), w')"
    and c: "committed w' = (work w)\<lparr>alerts := alerts (work w) @ [a, b]\<rparr>"
    and ok: "constraints (committed w')"
    and ab: "active_for p wh a" "active_for p wh b"
    unfolding assms(9,10) by blast
  have two: "active_alerts (committed w') p wh = [a, b]"
    using assms(5,9,10) c ab by (simp add: active_alerts_def)
  have "distinct (map entity_id (alerts (committed w')))" using ok by (simp add: constraint_defs ids_def)
  then have ne: "a \<noteq> b" by (auto simp: c)
  have later: "active_alerts (committed v) p wh = [a, b] \<and>
      (\<forall>r. inv_product_id r = p \<and> inv_warehouse_id r = wh \<longrightarrow>
         evaluate_stock_level e r (begin_session e v) = (Inl MultipleResultsFound, begin_session e v)) \<and>
      (\<forall>c d resp v'. (c, d) \<in> {(a, b), (b, a)} \<and> serve e (ResolveAlert (entity_id c)) v = (resp, v') \<longrightarrow>
         resp_status resp = 200 \<and> active_alerts (committed v') p wh = [d] \<and>
         (\<forall>r \<in> set (inventories (committed v')). inv_product_id r = p \<and> inv_warehouse_id r = wh \<longrightarrow>
            fst (evaluate_stock_level e r (begin_session e v')) \<noteq> Inl MultipleResultsFound))"
    if "(step_keeping e {entity_id a, entity_id b})\<^sup>*\<^sup>* w' v" for v
  proof -
    have kept: "constraints (committed v)" "active_alerts (committed v) p wh = [a, b]"
      using steps_keeping_ambiguous [of e w' p wh v] assms(8) ok two that by simp_all
    have resolved: "resp_status resp = 200 \<and> active_alerts (committed v') p wh = [d] \<and>
        (\<forall>r \<in> set (inventories (committed v')). inv_product_id r = p \<and> inv_warehouse_id r = wh \<longrightarrow>
            fst (evaluate_stock_level e r (begin_session e v')) \<noteq> Inl MultipleResultsFound)"
      if cd: "(c, d) \<in> {(a, b), (b, a)}" and s: "serve e (ResolveAlert (entity_id c)) v = (resp, v')" for c d resp v'
    proof -
      have "c \<in> set (active_alerts (committed v) p wh)" using cd kept(2) by auto
      from resolve_one_of_many [OF kept(1) this s] kept(2) cd ne
      have "resp_status resp = 200" "constraints (committed v')" "active_alerts (committed v') p wh = [d]" by auto
      with one_active_not_ambiguous [of v' p wh e] show ?thesis by simp
    qed
    have "evaluate_stock_level e r (begin_session e v) = (Inl MultipleResultsFound, begin_session e v)"
      if "inv_product_id r = p" "inv_warehouse_id r = wh" for r
      by (rule evaluate_ambiguous) (simp add: that kept(2))
    with kept(2) resolved show ?thesis by blast
  qed
  show ?thesis
    unfolding run prod.case using ne two ok later by (intro exI [of _ a] exI [of _ b]) simp
qed

lemma raced_evaluations_block_the_pair_witness:
  "let row = demo_row\<lparr>inv_quantity := 3\<rparr>; d = demo_db\<lparr>inventories := [row]\<rparr>;
     w = demo_world\<lparr>committed := d, work := d\<rparr>;
     w' = snd (interrupted_evaluation demo_deps (another_evaluation demo_deps row) row w);
     v = snd (serve demo_deps (CreateWarehouse demo_depot) w')
   in \<exists>a b. active_alerts (committed v) 3 1 = [a, b] \<and> a \<noteq> b \<and>
     fst (evaluate_stock_level demo_deps (row\<lparr>inv_quantity := 50\<rparr>) (begin_session demo_deps v)) =
       Inl MultipleResultsFound \<and>
     active_alerts (committed (snd (serve demo_deps (ResolveAlert (entity_id a)) v))) 3 1 = [b]"
proof -
  let ?row = "demo_row\<lparr>inv_quantity := 3\<rparr>"
  let ?d = "demo_db\<lparr>inventories := [?row]\<rparr>"
  let ?w = "demo_world\<lparr>committed := ?d, work := ?d\<rparr>"
  let ?run = "interrupted_evaluation demo_deps (another_evaluation demo_deps ?row) ?row ?w"
  let ?v = "snd (serve demo_deps (CreateWarehouse demo_depot) (snd ?run))"
  have 1: "committed ?w = work ?w" by simp
  have 2: "constraints (work ?w)" by code_simp
  have 3: "?row \<in> set (inventories (work ?w))" by simp
  have 4: "int4 (applicable_threshold demo_deps ?row)"
    by (simp add: applicable_threshold_def demo_row_def demo_deps_def int4_def)
  have 5: "pair_active ?w ?row = []" by (simp add: active_alerts_def demo_db_def)
  have 6: "wanted demo_deps ?row \<noteq> None"
    by (simp add: wanted_def wanted_alert_def applicable_threshold_def demo_row_def demo_deps_def)
  have "{10..<16} = {10, 11, 12, 13, 14, 15 :: nat}" unfolding set_upt [symmetric] by (simp add: upt_rec)
  then have 7: "fresh demo_deps 6 ?w"
    by (simp add: fresh_def demo_world_def demo_deps_def demo_db_def demo_row_def all_ids_def inj_on_def)
  have 8: "3 = inv_product_id ?row" "1 = inv_warehouse_id ?row" by (simp_all add: demo_row_def)
  obtain res w' where run: "?run = (res, w')" by fastforce
  from raced_evaluations_block_the_pair [OF 1 2 3 4 5 6 7 demo_fair 8, unfolded run prod.case]
  obtain a b where ab: "a \<noteq> b" and later: "\<And>v. (step_keeping demo_deps {entity_id a, entity_id b})\<^sup>*\<^sup>* w' v \<Longrightarrow>
      active_alerts (committed v) 3 1 = [a, b] \<and>
      (\<forall>r. inv_product_id r = 3 \<and> inv_warehouse_id r = 1 \<longrightarrow>
         evaluate_stock_level demo_deps r (begin_session demo_deps v) = (Inl MultipleResultsFound, begin_session demo_deps v)) \<and>
      (\<forall>c d resp v'. (c, d) \<in> {(a, b), (b, a)} \<and> serve demo_deps (ResolveAlert (entity_id c)) v = (resp, v') \<longrightarrow>
         resp_status resp = 200 \<and> active_alerts (committed v') 3 1 = [d] \<and>
         (\<forall>r \<in> set (inventories (committed v')). inv_product_id r = 3 \<and> inv_warehouse_id r = 1 \<longrightarrow>
            fst (evaluate_stock_level demo_deps r (begin_session demo_deps v')) \<noteq> Inl MultipleResultsFound))"
    by (elim exE conjE) (rule that, assumption, blast)
  have v: "?v = snd (serve demo_deps (CreateWarehouse demo_depot) w')" by (simp add: run)
  have "step_keeping demo_deps {entity_id a, entity_id b} w' ?v"
    unfolding v by (rule step_keeping.request [where req = "CreateWarehouse demo_depot"]) (simp_all add: prod_eq_iff)
  then have "(step_keeping demo_deps {entity_id a, entity_id b})\<^sup>*\<^sup>* w' ?v" by simp
  note l = later [OF this]
  have "active_alerts (committed (snd (serve demo_deps (ResolveAlert (entity_id a)) ?v))) 3 1 = [b]"
    using l surjective_pairing [of "serve demo_deps (ResolveAlert (entity_id a)) ?v"] by blast
  moreover have "fst (evaluate_stock_level demo_deps (?row\<lparr>inv_quantity := 50\<rparr>) (begin_session demo_deps ?v)) =
      Inl MultipleResultsFound"
    using l 8 by simp
  ultimately show ?thesis unfolding Let_def using l ab by blast
qed

text \<open>
  C15. Resolving an alert is not protected either: a request that read the alert as active and
  is overtaken by another resolution answers 200, not 409, and puts its own time in place of the
  one already recorded.
\<close>

theorem lost_resolution_race_overwrites:
  assumes "find (\<lambda>r. entity_id r = i) (alerts (work w)) = Some a" and "al_status a = ACTIVE"
    and "constraints (committed (f w))" and "b \<in> set (alerts (committed (f w)))" and "entity_id b = i"
    and "al_status b = RESOLVED"
  shows "case interrupted_resolve_alert e f i w of (r, w') \<Rightarrow>
    (\<exists>b'. r = Inr b' \<and> b' \<in> set (alerts (committed w')) \<and> entity_id b' = i \<and> al_status b' = RESOLVED \<and>
      al_resolved_at b' = Some (clock e (tick (f w)))) \<and>
    resolve_alert e i (w\<lparr>work := committed (f w)\<rparr>) = (Inl (already_resolved i), w\<lparr>work := committed (f w)\<rparr>)"
proof -
  let ?g = "resolving (tx_time w) (clock e (tick (f w)))"
  obtain w' where run: "interrupted_resolve_alert e f i w = (Inr (?g b), w')"
    and c: "committed w' = with_changed alerts_table i ?g (committed (f w))"
    using raced_resolution [where f = f and w = w and e = e, OF assms(1-5)] by blast
  have dist: "distinct (map entity_id (alerts (committed (f w))))"
    using assms(3) by (simp add: constraint_defs ids_def)
  have "?g b \<in> set (alerts (committed w'))"
    using set_update_by [OF dist assms(4), of ?g] assms(5) by (simp add: c)
  moreover have "find (\<lambda>r. entity_id r = i) (alerts (committed (f w))) = Some b"
    using find_Some_iff_distinct [OF dist] assms(4,5) by simp
  ultimately show ?thesis
    using run assms(3,5,6) by (simp add: resolve_alert_run)
qed

lemma lost_resolution_race_overwrites_witness:
  "let d = demo_db\<lparr>alerts := [demo_alert 6]\<rparr>;
     d' = demo_db\<lparr>alerts := [(demo_alert 6)\<lparr>al_status := RESOLVED, al_resolved_at := Some 1\<rparr>]\<rparr>;
     w = demo_world\<lparr>committed := d, work := d\<rparr>
   in \<exists>b. fst (interrupted_resolve_alert demo_deps (\<lambda>w. w\<lparr>committed := d'\<rparr>) 6 w) = Inr b \<and>
     al_resolved_at b = Some (clock demo_deps 10)"
proof -
  let ?b = "(demo_alert 6)\<lparr>al_status := RESOLVED, al_resolved_at := Some 1\<rparr>"
  let ?w = "demo_world\<lparr>committed := demo_db\<lparr>alerts := [demo_alert 6]\<rparr>, work := demo_db\<lparr>alerts := [demo_alert 6]\<rparr>\<rparr>"
  let ?f = "\<lambda>w :: domain_event list world. w\<lparr>committed := demo_db\<lparr>alerts := [?b]\<rparr>\<rparr>"
  have "constraints (committed (?f ?w))" by code_simp
  from lost_resolution_race_overwrites [where i = 6 and w = ?w and a = "demo_alert 6" and f = ?f and b = ?b
      and e = demo_deps, OF _ _ this]
  show ?thesis
    unfolding Let_def by (auto simp: demo_alert_def demo_world_def split: prod.splits)
qed

text \<open>
  C16. Two updates of one product do not lose each other's fields, on every branch of an
  overtaken update. A new SKU that was taken when it was checked is a 409, before the pause.
  Otherwise a null for a required field is a 500 that leaves the other request's row; and any
  other update sends only the columns whose new values differ from those it had loaded, so the
  row ends as the other request left it but for those columns. (A field set to the value it was
  loaded with is not sent: it keeps the other request's value.) If the schema refuses the merged
  row, as it does when the new SKU was given to another product in the pause, the answer is a
  500 and the other request's row stays.
\<close>

theorem overtaken_update_merges:
  assumes "find (\<lambda>r. entity_id r = i) (products (work w)) = Some loaded" and "constraints (work w)"
    and "theirs \<in> set (products (committed (f w)))" and "entity_id theirs = i"
    and "constraints (committed (f w))"
  shows "if \<exists>k. pu_sku u = Value k \<and> k \<noteq> prod_sku loaded \<and> k \<in> prod_sku ` set (products (work w))
    then \<exists>k. pu_sku u = Value k \<and> interrupted_update_product e f i u w = (Inl (product_conflict k), w) \<and>
      status_code (handle_exception (product_conflict k)) = 409
    else case apply_product_update u loaded of
      None \<Rightarrow> (\<exists>w'. interrupted_update_product e f i u w = (Inl DatabaseError, w') \<and> committed w' = committed (f w))
    | Some mine \<Rightarrow> \<exists>now. let r' = (merged loaded mine theirs)\<lparr>updated_at := now\<rparr>;
          d = (committed (f w))\<lparr>products := update_by entity_id i (\<lambda>_. r') (products (committed (f w)))\<rparr>
        in (case interrupted_update_product e f i u w of (res, w') \<Rightarrow>
          if constraints d then res = Inr r' \<and> committed w' = d
          else res = Inl DatabaseError \<and> committed w' = committed (f w)) \<and>
        (prod_sku mine \<noteq> prod_sku loaded \<and>
           (\<exists>s \<in> set (products (committed (f w))). entity_id s \<noteq> i \<and> prod_sku s = prod_sku mine) \<longrightarrow>
           fst (interrupted_update_product e f i u w) = Inl DatabaseError)"
proof (cases "sku_taken u loaded (work w)")
  case True
  then have "\<exists>k. pu_sku u = Value k \<and> k \<noteq> prod_sku loaded \<and> k \<in> prod_sku ` set (products (work w))"
    by (auto simp: sku_taken_def split: patch.splits)
  with interrupted_update_refused [OF assms(1,2) True, of e f] show ?thesis
    by (auto simp: product_conflict_def)
next
  case False
  then have free: "\<not> (\<exists>k. pu_sku u = Value k \<and> k \<noteq> prod_sku loaded \<and> k \<in> prod_sku ` set (products (work w)))"
    by (auto simp: sku_taken_def)
  show ?thesis
  proof (cases "apply_product_update u loaded")
    case None
    from interrupted_update_null [OF assms(1,2) False None, of e f] show ?thesis
      unfolding if_not_P [OF free] None option.case .
  next
    case (Some mine)
    obtain g now w' where g: "g theirs = (merged loaded mine theirs)\<lparr>updated_at := now\<rparr>"
      and run: "if constraints (with_changed products_table i g (committed (f w)))
        then interrupted_update_product e f i u w = (Inr (g theirs), w') \<and>
          committed w' = with_changed products_table i g (committed (f w))
        else interrupted_update_product e f i u w = (Inl DatabaseError, w') \<and>
          committed w' = committed (f w)"
      by (rule interrupted_update_run [where e = e and f = f and w = w, OF assms(1,2) Some False assms(3-5)])
    let ?d = "(committed (f w))\<lparr>products := update_by entity_id i (\<lambda>_. g theirs) (products (committed (f w)))\<rparr>"
    have "distinct (map entity_id (products (committed (f w))))"
      using assms(5) by (simp add: constraint_defs ids_def)
    from update_by_same [OF this assms(3), of g "\<lambda>_. g theirs"] assms(4)
    have "with_changed products_table i g (committed (f w)) = ?d" by simp
    with run have 1: "case interrupted_update_product e f i u w of (res, w') \<Rightarrow>
        if constraints ?d then res = Inr (g theirs) \<and> committed w' = ?d
        else res = Inl DatabaseError \<and> committed w' = committed (f w)"
      by (auto split: if_splits)
    have "fst (interrupted_update_product e f i u w) = Inl DatabaseError"
      if "prod_sku mine \<noteq> prod_sku loaded"
        and s: "s \<in> set (products (committed (f w)))" "entity_id s \<noteq> i" "prod_sku s = prod_sku mine" for s
    proof -
      have "entity_id (g theirs) = i" "prod_sku (g theirs) = prod_sku mine"
        using that(1) assms(4) by (simp_all add: g merged_def)
      then have "\<not> constraints ?d"
        using sku_taken_meanwhile [OF _ assms(3,4) \<open>entity_id (g theirs) = i\<close> s(1,2)] s(3) by metis
      with 1 show ?thesis by (auto split: prod.splits)
    qed
    with 1 have "case interrupted_update_product e f i u w of (res, w') \<Rightarrow>
        (if constraints ?d then res = Inr (g theirs) \<and> committed w' = ?d
         else res = Inl DatabaseError \<and> committed w' = committed (f w))"
      and "prod_sku mine \<noteq> prod_sku loaded \<and>
           (\<exists>s \<in> set (products (committed (f w))). entity_id s \<noteq> i \<and> prod_sku s = prod_sku mine) \<longrightarrow>
           fst (interrupted_update_product e f i u w) = Inl DatabaseError" by blast+
    then show ?thesis unfolding if_not_P [OF free] Some option.case g Let_def by (intro exI [of _ now] conjI)
  qed
qed

text \<open>A renaming that also moves the product to a new SKU, overtaken by a new price.\<close>

definition demo_rename :: product_update where
  "demo_rename = \<lparr>pu_sku = Value ''N-1'', pu_name = Value ''Nut'', pu_description = Unset,
     pu_price = Value (Decimal 250 2), pu_is_active = Unset\<rparr>"

lemma overtaken_update_merges_witness:
  "let reprice = (\<lambda>w :: domain_event list world. w\<lparr>committed :=
       demo_db\<lparr>products := [hd (products demo_db)\<lparr>prod_price := 99\<rparr>]\<rparr>\<rparr>)
   in \<exists>r. fst (interrupted_update_product demo_deps reprice 3 demo_rename demo_world) = Inr r \<and>
     prod_sku r = ''N-1'' \<and> prod_name r = ''Nut'' \<and> prod_price r = 99"
proof -
  let ?r = "hd (products demo_db)"
  let ?s = "?r\<lparr>prod_price := 99\<rparr>"
  let ?mine = "?r\<lparr>prod_sku := ''N-1'', prod_name := ''Nut''\<rparr>"
  let ?f = "\<lambda>w :: domain_event list world. w\<lparr>committed := demo_db\<lparr>products := [?s]\<rparr>\<rparr>"
  have 1: "find (\<lambda>r. entity_id r = 3) (products (work demo_world)) = Some ?r"
    by (simp add: demo_world_def demo_db_def)
  have 2: "apply_product_update demo_rename ?r = Some ?mine"
    by (simp add: apply_product_update_def demo_rename_def set_required_def set_nullable_def patch_cents_def
        cents_def demo_db_def)
  have 3: "\<not> (\<exists>k. pu_sku demo_rename = Value k \<and> k \<noteq> prod_sku ?r \<and> k \<in> prod_sku ` set (products (work demo_world)))"
    by (simp add: demo_rename_def demo_world_def demo_db_def)
  have 4: "?s \<in> set (products (committed (?f demo_world)))" by simp
  have 5: "entity_id ?s = 3" by (simp add: demo_db_def)
  have 6: "constraints (committed (?f demo_world))" by code_simp
  have 7: "constraints (work demo_world)" using demo_constraints by (simp add: demo_world_def)
  have ok: "constraints (demo_db\<lparr>products := [(merged ?r ?mine ?s)\<lparr>updated_at := now\<rparr>]\<rparr>)" for now
    by (simp add: constraint_defs ids_def demo_db_def merged_def varchar_def numeric_12_2_def int4_def)
  note shown = overtaken_update_merges [where f = ?f and w = demo_world and e = demo_deps and u = demo_rename,
      OF 1 7 4 5 6, unfolded if_not_P [OF 3] 2 option.case Let_def]
  then obtain now where "case interrupted_update_product demo_deps ?f 3 demo_rename demo_world of (res, w') \<Rightarrow>
      if constraints ((committed (?f demo_world))\<lparr>products := update_by entity_id 3
          (\<lambda>_. (merged ?r ?mine ?s)\<lparr>updated_at := now\<rparr>) (products (committed (?f demo_world)))\<rparr>)
      then res = Inr ((merged ?r ?mine ?s)\<lparr>updated_at := now\<rparr>) \<and>
        committed w' = (committed (?f demo_world))\<lparr>products := update_by entity_id 3
          (\<lambda>_. (merged ?r ?mine ?s)\<lparr>updated_at := now\<rparr>) (products (committed (?f demo_world)))\<rparr>
      else res = Inl DatabaseError \<and> committed w' = committed (?f demo_world)"
    by (elim exE conjE) (rule that)
  then have "fst (interrupted_update_product demo_deps ?f 3 demo_rename demo_world) =
      Inr ((merged ?r ?mine ?s)\<lparr>updated_at := now\<rparr>)"
    using ok [of now] 5 by (simp add: Let_def update_by_def case_prod_beta)
  moreover have "prod_name ?r = ''Bolt''" "prod_sku ?r = ''B-1''" by (simp_all add: demo_db_def)
  ultimately show ?thesis by (simp add: merged_def)
qed

section \<open>Alerts\<close>

text \<open>
  C17. Evaluating a stock level, when it returns, leaves the pair with exactly the active
  alert its quantity and threshold want (none above the threshold, OUT_OF_STOCK at zero,
  LOW_STOCK otherwise), every other pair with the active alerts it had, and every other
  table alone; the result is that alert.
\<close>

theorem evaluation_reconciles:
  assumes "evaluate_stock_level e iv w = (Inr res, w')" and "constraints (work w)"
    and "int4 (inv_quantity iv)"
  shows "map al_alert_type (pair_active w' iv) =
      (if inv_quantity iv > applicable_threshold e iv then []
       else if inv_quantity iv = 0 then [OUT_OF_STOCK] else [LOW_STOCK]) \<and>
    (\<forall>p wh. (p, wh) \<noteq> (inv_product_id iv, inv_warehouse_id iv) \<longrightarrow>
       active_alerts (work w') p wh = active_alerts (work w) p wh) \<and>
    work w' = (work w)\<lparr>alerts := alerts (work w')\<rparr> \<and>
    res = (case pair_active w' iv of [] \<Rightarrow> None | a # _ \<Rightarrow> Some a)"
  using evaluate_step(1) [OF assms] evaluate_step(3) [OF assms]
  by (simp add: alert_step_def wanted_def wanted_alert_def split: if_splits)

lemma evaluation_reconciles_witness:
  "\<exists>res w'. evaluate_stock_level demo_deps (demo_row\<lparr>inv_quantity := 0\<rparr>) demo_world = (Inr res, w') \<and>
     map al_alert_type (active_alerts (work w') 3 1) = [OUT_OF_STOCK]"
proof -
  let ?r = "demo_row\<lparr>inv_quantity := 0\<rparr>"
  let ?a = "raised_alert demo_deps ?r OUT_OF_STOCK demo_world"
  have none: "pair_active demo_world ?r = []"
    by (simp add: active_alerts_def demo_world_def demo_db_def)
  have want: "wanted demo_deps ?r = Some OUT_OF_STOCK"
    by (simp add: wanted_def wanted_alert_def demo_row_def applicable_threshold_def demo_deps_def)
  have "constraints ((work demo_world)\<lparr>alerts := alerts (work demo_world) @ [?a]\<rparr>)"
    by (rule constraints_alert_added)
      (use demo_constraints in \<open>simp_all add: demo_world_def demo_row_def applicable_threshold_def
        demo_deps_def demo_db_def int4_def\<close>)
  then obtain res w' where run: "evaluate_stock_level demo_deps ?r demo_world = (Inr res, w')"
    by (simp add: evaluate_raised [OF none want] Let_def)
  from evaluation_reconciles [OF run] demo_constraints
  have "map al_alert_type (pair_active w' ?r) = [OUT_OF_STOCK]"
    by (simp add: demo_world_def demo_row_def int4_def applicable_threshold_def demo_deps_def)
  with run show ?thesis by (simp add: demo_row_def)
qed

text \<open>
  An evaluation cannot fail: while no pair has two active alerts and the next id is new,
  it returns, for every inventory record of the database.
\<close>

lemma evaluation_returns:
  assumes "constraints (work w)" and "one_active (work w)" and "fresh e 1 w"
    and "int4 (low_stock_alert_threshold_default e)" and "iv \<in> set (inventories (work w))"
  shows "\<exists>alert w'. evaluate_stock_level e iv w = (Inr alert, w')"
  using evaluate_decides [OF assms(1,3,2,4,5)] by (auto simp: decides_def)

lemma evaluation_returns_witness:
  "\<exists>alert w'. evaluate_stock_level demo_deps demo_row demo_world = (Inr alert, w')"
  by (rule evaluation_returns [OF _ _ _ demo_threshold])
    (use demo_invariants fresh_mono [OF demo_fresh, of 1] in
      \<open>simp_all add: demo_world_def system_ok_def, simp add: demo_db_def demo_row_def\<close>)

text \<open>
  C18. An alert is announced (event published, email enqueued) when it is raised or changes
  type, once each; an alert that is still wanted as it is, or is resolved, announces nothing.
  In particular a notification the broker refused is not sent again by a later evaluation.
\<close>

theorem announced_when_raised_or_retyped:
  assumes "evaluate_stock_level e iv w = (Inr res, w')" and "constraints (work w)"
    and "int4 (inv_quantity iv)"
  shows "if wanted e iv = None \<or> map al_alert_type (pair_active w iv) = [the (wanted e iv)]
    then outside w' = outside w
    else \<exists>a i now. res = Some a \<and> al_alert_type a = the (wanted e iv) \<and>
      outside w' = snd (task_delay e (uuid_str (entity_id a)) (event_publish e
        \<lparr>event_id = i, occurred_at = now, body = alert_body a\<rparr> (outside w)))"
proof -
  have one: "length (pair_active w iv) \<le> 1"
    using assms(1) evaluate_ambiguous [of w iv e] by fastforce
  show ?thesis
  proof (cases "pair_active w iv")
    case none: Nil
    show ?thesis
    proof (cases "wanted e iv")
      case None
      with none assms(1) show ?thesis by (simp add: evaluate_quiet)
    next
      case (Some k)
      from assms(1) have "res = Some (raised_alert e iv k w)"
        "w' = notified e (raised_alert e iv k w) (committed_world e (alert_added e (raised_alert e iv k w) w))"
        unfolding evaluate_raised [OF none Some] Let_def by (auto split: if_splits)
      with Some none show ?thesis by (auto simp: notified_def)
    qed
  next
    case (Cons a as)
    with one have a: "pair_active w iv = [a]" by simp
    show ?thesis
    proof (cases "wanted e iv")
      case None
      with assms(1) show ?thesis by (auto simp: evaluate_recovered [OF a None assms(2)])
    next
      case (Some k)
      show ?thesis
      proof (cases "k = al_alert_type a")
        case True
        with a Some assms(1) show ?thesis by (simp add: evaluate_unchanged)
      next
        case False
        let ?g = "retyping (tx_time w) k (inv_quantity iv)"
        from assms(1) have "res = Some (?g a)" "w' = notified e (?g a) (alert_saved e a ?g w)"
          unfolding evaluate_retyped [OF a Some False assms(2,3)] Let_def by simp_all
        with Some a False show ?thesis
          by (auto simp: notified_def simp del: with_changed_tables)
      qed
    qed
  qed
qed

lemma announced_when_raised_or_retyped_witness:
  "let w = demo_world\<lparr>work := demo_db\<lparr>alerts := [demo_alert 6]\<rparr>\<rparr>
   in outside (snd (evaluate_stock_level demo_deps (demo_row\<lparr>inv_quantity := 8\<rparr>) w)) = outside w"
proof -
  let ?w = "demo_world\<lparr>work := demo_db\<lparr>alerts := [demo_alert 6]\<rparr>\<rparr>"
  let ?r = "demo_row\<lparr>inv_quantity := 8\<rparr>"
  have act: "pair_active ?w ?r = [demo_alert 6]"
    by (simp add: active_alerts_def active_for_def demo_alert_def demo_row_def)
  have want: "wanted demo_deps ?r = Some (al_alert_type (demo_alert 6))"
    by (simp add: wanted_def wanted_alert_def demo_row_def applicable_threshold_def demo_deps_def demo_alert_def)
  have ok: "constraints (work ?w)" by code_simp
  have q: "int4 (inv_quantity ?r)" by code_simp
  have "\<exists>res w'. evaluate_stock_level demo_deps ?r ?w = (Inr res, w')"
    using evaluate_unchanged [OF act want] by blast
  then obtain res w' where run: "evaluate_stock_level demo_deps ?r ?w = (Inr res, w')" by blast
  have "outside w' = outside ?w"
    using announced_when_raised_or_retyped [OF run ok q] act want by simp
  with run show ?thesis by (simp add: Let_def)
qed

text \<open>
  Resolving an alert by hand: 404 if it does not exist, 409 if it is resolved already,
  and otherwise the alert is committed as resolved, with the time of the call.
\<close>

lemma resolve_alert_outcomes:
  assumes "constraints (work w)"
  shows "case find (\<lambda>a. entity_id a = i) (alerts (work w)) of
      None \<Rightarrow> \<exists>x. resolve_alert e i w = (Inl x, w) \<and> status_code (handle_exception x) = 404
    | Some a \<Rightarrow>
        if al_status a = RESOLVED
        then \<exists>x. resolve_alert e i w = (Inl x, w) \<and> status_code (handle_exception x) = 409
        else \<exists>a' w'. resolve_alert e i w = (Inr a', w') \<and> a' \<in> set (alerts (committed w')) \<and>
          entity_id a' = i \<and> al_status a' = RESOLVED \<and> al_resolved_at a' = Some (clock e (tick w))"
proof (cases "find (\<lambda>a. entity_id a = i) (alerts (work w))")
  case None
  then show ?thesis by (simp add: resolve_alert_run [OF assms] not_found_def)
next
  case (Some a)
  then have a: "a \<in> set (alerts (work w))" "entity_id a = i" by (auto dest: find_SomeD)
  let ?g = "resolving (tx_time w) (clock e (tick w))"
  have "distinct (map entity_id (alerts (work w)))" using assms by (simp add: constraint_defs ids_def)
  then have "?g a \<in> set (update_by entity_id (entity_id a) ?g (alerts (work w)))"
    using a(1) by (simp add: set_update_by)
  with Some a show ?thesis
    by (simp add: resolve_alert_run [OF assms] already_resolved_def)
qed

lemma resolve_alert_outcomes_witness:
  "\<exists>a w'. resolve_alert demo_deps 6 (demo_world\<lparr>work := demo_db\<lparr>alerts := [demo_alert 6]\<rparr>\<rparr>) = (Inr a, w') \<and>
     al_status a = RESOLVED"
proof -
  let ?w = "demo_world\<lparr>work := demo_db\<lparr>alerts := [demo_alert 6]\<rparr>\<rparr>"
  have "constraints (demo_db\<lparr>alerts := [demo_alert 6]\<rparr>)" by code_simp
  with resolve_alert_outcomes [where w = ?w and i = 6 and e = demo_deps] show ?thesis by (auto simp: demo_alert_def)
qed

section \<open>The sweep\<close>

text \<open>
  C19. The sweep's unbounded loop ends on every database, and has only reconciled alerts.
\<close>

theorem sweep_terminates:
  assumes "fair_scan e" and "constraints (committed w)"
  shows "\<exists>res w'. check_low_stock_levels e w = Some (res, w') \<and>
    alert_steps (committed w) (committed w')"
  using sweep_pages_total [OF assms(1), of "begin_session e w" 0 0 0] assms(2)
  by (auto simp: check_low_stock_levels_def)

lemma sweep_terminates_witness:
  "\<exists>res w'. check_low_stock_levels demo_deps demo_world = Some (res, w') \<and> alert_steps demo_db (committed w')"
  using sweep_terminates [OF demo_fair, of demo_world] demo_constraints by (simp add: demo_world_def)

text \<open>
  C20. Where the database returns the rows in one order for every page, a sweep that
  finishes has evaluated each record exactly once, counted those in an alert state, and left
  every pair with the alert it should have.
\<close>

theorem sweep_covers_inventory:
  assumes "fair_scan e" and "stable_scan e" and "constraints (committed w)"
    and "check_low_stock_levels e w = Some (Inr (evaluated, active), w')"
  shows "evaluated = int (length (inventories (committed w))) \<and>
    active = int (length (filter (\<lambda>r. wanted e r \<noteq> None) (inventories (committed w)))) \<and>
    (\<forall>r \<in> set (inventories (committed w)). reconciled e (committed w') r)"
proof -
  let ?L = "scan e 0 (inventories (committed w))"
  obtain w1 where run: "sweep_pages e 0 0 0 (begin_session e w) = Some (Inr (evaluated, active), w1)"
    and w': "w' = close_session w1" using assms(4) by (auto simp: check_low_stock_levels_def)
  have cov: "evaluated = int (length ?L)" "active = in_alert e ?L" "committed w1 = work w1"
    "\<forall>s \<in> set (inventories (committed w)). s \<in> set ?L \<longrightarrow> reconciled e (work w1) s"
    using sweep_pages_covers [OF assms(1,2) _ _ _ run, of ?L] assms(3) by auto
  have "mset (filter (\<lambda>r. wanted e r \<noteq> None) ?L) = mset (filter (\<lambda>r. wanted e r \<noteq> None) (inventories (committed w)))"
    by (simp add: mset_scan [OF assms(1)])
  then have "in_alert e ?L = int (length (filter (\<lambda>r. wanted e r \<noteq> None) (inventories (committed w))))"
    unfolding in_alert_def by (metis size_mset)
  with cov w' show ?thesis using assms(1) by simp
qed

lemma sweep_covers_inventory_witness:
  "\<exists>w'. check_low_stock_levels demo_deps demo_world = Some (Inr (1, 0), w') \<and>
     reconciled demo_deps (committed w') demo_row"
proof -
  have page: "list_all_rows demo_deps inventories_table 0 BATCH_SIZE (begin_session demo_deps demo_world) =
      (Inr [demo_row], begin_session demo_deps demo_world\<lparr>tick := 12\<rparr>)"
    by (simp add: page_run scan_def paginate_def BATCH_SIZE_def demo_deps_def demo_world_def demo_db_def demo_row_def)
  have page2: "list_all_rows demo_deps inventories_table BATCH_SIZE BATCH_SIZE
      (begin_session demo_deps demo_world\<lparr>tick := 12\<rparr>) =
      (Inr [], begin_session demo_deps demo_world\<lparr>tick := 13\<rparr>)"
    by (simp add: page_run scan_def paginate_def BATCH_SIZE_def demo_deps_def demo_world_def demo_db_def)
  have "evaluate_stock_level demo_deps demo_row (begin_session demo_deps demo_world\<lparr>tick := 12\<rparr>) =
      (Inr None, begin_session demo_deps demo_world\<lparr>tick := 12\<rparr>)"
    by (rule evaluate_quiet)
      (simp_all add: active_alerts_def demo_world_def demo_db_def wanted_def wanted_alert_def demo_row_def
        applicable_threshold_def demo_deps_def)
  then have "sweep_pages demo_deps 0 0 0 (begin_session demo_deps demo_world) =
      Some (Inr (1, 0), begin_session demo_deps demo_world\<lparr>tick := 13\<rparr>)"
    by (subst sweep_pages.simps, simp add: page, subst sweep_pages.simps, simp add: page2)
  then obtain w' where run: "check_low_stock_levels demo_deps demo_world = Some (Inr (1, 0), w')"
    by (simp add: check_low_stock_levels_def)
  have "demo_row \<in> set (inventories (committed demo_world))"
    by (simp add: demo_world_def demo_db_def demo_row_def)
  with sweep_covers_inventory [OF demo_fair demo_stable _ run] demo_constraints run
  show ?thesis by (simp add: demo_world_def)
qed

section \<open>Row locks\<close>

text \<open>
  C21. Whatever its outcome, a movement takes row locks of its product only, in the order of
  the warehouses' UUID strings, each at most once.
\<close>

theorem locks_in_global_order:
  assumes "movement_create_ok x" and "constraints (work w)"
    and "apply_movement e x w = (res, w')"
  shows "\<exists>ks. row_locks w' = row_locks w @ ks \<and> set ks \<subseteq> Pair (mc_product_id x) ` set (touched x) \<and>
    sorted_wrt (\<lambda>a b. lock_rank a < lock_rank b) ks"
proof -
  obtain ks where ks: "row_locks w' = row_locks w @ ks" "subseq ks (movement_locks x)"
    using apply_movement_locks [OF assms(1,3,2)] by blast
  have "set (movement_locks x) \<subseteq> Pair (mc_product_id x) ` set (touched x)"
    using assms(1) by (cases rule: movement_create_ok_cases)
      (auto simp: movement_locks_def touched_def lock_order_cases)
  moreover have "set ks \<subseteq> set (movement_locks x)"
    using ks(2) by (auto dest: list_emb_set)
  ultimately show ?thesis
    using ks subseq_ranked [OF ks(2) movement_locks_ranked [OF assms(1)]] by blast
qed

lemma locks_in_global_order_witness:
  "\<exists>ks. row_locks (snd (apply_movement demo_deps demo_transfer demo_world)) = ks \<and>
    set ks \<subseteq> {(3, 1), (3, 2)} \<and> sorted_wrt (\<lambda>a b. lock_rank a < lock_rank b) ks"
  using locks_in_global_order [OF demo_transfer_ok, of demo_world demo_deps
      "fst (apply_movement demo_deps demo_transfer demo_world)"
      "snd (apply_movement demo_deps demo_transfer demo_world)"] demo_constraints
  by (simp add: demo_world_def demo_transfer_def touched_def)

text \<open>
  Movements running at the same time, each taking a subsequence of its locks in the
  service's order, never deadlock: in every reachable state either all have ended or one can
  take its next lock or end. Every step uses up work, so every run ends.
\<close>

lemma movements_never_deadlock:
  assumes "list_all2 (\<lambda>ks x. movement_create_ok x \<and> subseq ks (movement_locks x)) programs xs"
    and "lock_step\<^sup>*\<^sup>* (map begun programs) ts"
  shows "(all_ended ts \<or> (\<exists>i. can_go_on ts i)) \<and> (\<forall>ts'. lock_step ts ts' \<longrightarrow> work_left ts' < work_left ts)"
  using stock_locks.never_stuck [OF movement_programs_ranked [OF assms(1)] assms(2)]
    lock_step_decreases by blast

lemma movements_never_deadlock_witness:
  "let ts = [\<lparr>to_lock = [(3 :: uuid, 2 :: uuid)], held_locks = [(3, 1)]\<rparr>, begun [(3, 1), (3, 2)]]
   in lock_step\<^sup>*\<^sup>* (map begun [[(3, 1), (3, 2)], [(3, 1), (3, 2)]]) ts \<and>
     (all_ended ts \<or> (\<exists>i. can_go_on ts i)) \<and> \<not> can_go_on ts 1"
proof -
  let ?ks = "[(3 :: uuid, 1 :: uuid), (3, 2)]"
  let ?ts = "[\<lparr>to_lock = [(3 :: uuid, 2 :: uuid)], held_locks = [(3, 1)]\<rparr>, begun ?ks]"
  let ?return = "demo_transfer\<lparr>mc_source_warehouse_id := Some 2, mc_destination_warehouse_id := Some 1\<rparr>"
  have "\<not> (2 :: uuid) \<le> 1" by code_simp
  then have l: "movement_locks demo_transfer = ?ks" "movement_locks ?return = ?ks"
    by (simp_all add: movement_locks_def demo_transfer_def lock_order_cases)
  have "movement_create_ok ?return" by code_simp
  then have p: "list_all2 (\<lambda>ks x. movement_create_ok x \<and> subseq ks (movement_locks x)) [?ks, ?ks]
      [demo_transfer, ?return]"
    using demo_transfer_ok l by simp
  have "lock_step (map begun [?ks, ?ks]) ((map begun [?ks, ?ks])
      [0 := \<lparr>to_lock = [(3, 2)], held_locks = (3, 1) # held_locks ((map begun [?ks, ?ks]) ! 0)\<rparr>])"
    by (rule acquire) (auto simp: begun_def less_Suc_eq)
  then have s: "lock_step\<^sup>*\<^sup>* (map begun [?ks, ?ks]) ?ts" by (simp add: begun_def)
  have "\<not> can_go_on ?ts 1" by (auto simp: can_go_on_def begun_def intro: exI [of _ 0])
  with movements_never_deadlock [OF p s] s show ?thesis by (simp add: Let_def)
qed

section \<open>The catalogue\<close>

text \<open>
  C22. Creating a product with a valid payload: 409 and no change if the SKU is taken;
  otherwise the row is committed, and looking the SKU up gives it, every other SKU what it
  gave before. (The text has no NUL, the price fits the column, and the id is new.)
\<close>

theorem product_creation:
  assumes "product_create_ok x" and "constraints (work w)"
    and "no_nul (pc_sku x)" and "no_nul (pc_name x)" and "opt_ok no_nul (pc_description x)"
    and "cents (pc_price x) < 10 ^ 12" and "uuid4 e (tick w) \<notin> set (ids (products (work w)))"
  shows "if pc_sku x \<in> prod_sku ` set (products (work w))
    then create_product e x w = (Inl (product_conflict (pc_sku x)), w) \<and>
      status_code (handle_exception (product_conflict (pc_sku x))) = 409
    else \<exists>r w'. create_product e x w = (Inr r, w') \<and> prod_price r = cents (pc_price x) \<and>
      (\<forall>sku. find (\<lambda>r. prod_sku r = sku) (products (committed w')) =
        (if sku = pc_sku x then Some r else find (\<lambda>r. prod_sku r = sku) (products (work w))))"
proof (cases "product_service.lookup (work w) (pc_sku x)")
  case None
  then have free: "pc_sku x \<notin> prod_sku ` set (products (work w))"
    using product_service.lookup_None [of "work w" "pc_sku x"] by simp
  let ?r = "stamped (uuid4 e (tick w)) (tx_time w) (new_product x)"
  have c: "constraints ((work w)\<lparr>products := products (work w) @ [?r]\<rparr>)"
    by (rule constraints_insert_product) (use assms free in simp_all)
  obtain w' where run: "create_product e x w = (Inr ?r, w')"
    using product_service.create_free [OF assms(2), of x e] None c by (simp add: prod_sku_new Let_def)
  have "prod_price ?r = cents (pc_price x)" by (simp add: stamped_def new_product_def)
  moreover have "find (\<lambda>r. prod_sku r = sku) (products (committed w')) =
      (if sku = pc_sku x then Some ?r else find (\<lambda>r. prod_sku r = sku) (products (work w)))" for sku
    using fun_cong [OF product_service.create_refines [OF run assms(2)], of sku]
    by (simp add: product_service.lookup_def prod_sku_new)
  ultimately show ?thesis using free run by simp
next
  case (Some r)
  then have "pc_sku x \<in> prod_sku ` set (products (work w))"
    using product_service.lookup_None [of "work w" "pc_sku x"] by (metis option.distinct(1) rows_tables(2))
  with Some product_service.create_conflict [OF assms(2), of x r e] show ?thesis
    by (simp add: prod_sku_new product_conflict_def)
qed

definition demo_nut :: product_create where
  "demo_nut = \<lparr>pc_sku = ''N-1'', pc_name = ''Nut'', pc_description = None, pc_price = Decimal 5 1\<rparr>"

lemma product_creation_witness:
  "\<exists>r w'. create_product demo_deps demo_nut demo_world = (Inr r, w') \<and> prod_price r = 50"
proof -
  have x: "product_create_ok demo_nut" by code_simp
  have "\<exists>r w'. create_product demo_deps demo_nut demo_world = (Inr r, w') \<and>
      prod_price r = cents (pc_price demo_nut)"
    using product_creation [OF x, of demo_world demo_deps] demo_constraints
    by (auto simp: demo_nut_def demo_world_def demo_db_def demo_deps_def no_nul_def cents_def)
  then show ?thesis by (simp add: demo_nut_def cents_def)
qed

text \<open>
  Changing a warehouse's code to one in use by another is a 409 and changes nothing.
\<close>

lemma warehouse_code_conflict:
  assumes "constraints (work w)" and "find (\<lambda>r. entity_id r = i) (warehouses (work w)) = Some r"
    and "wu_code u = Value code" and "code \<noteq> wh_code r" and "r' \<in> set (warehouses (work w))"
    and "wh_code r' = code"
  shows "update_warehouse e i u w = (Inl (warehouse_conflict code), w) \<and>
    status_code (handle_exception (warehouse_conflict code)) = 409"
proof -
  have "warehouse_service.lookup (work w) code = Some r'"
    using warehouse_service.lookup_Some [OF assms(1), of code r'] assms(5,6) by simp
  with warehouse_service.update_conflict [OF assms(1), of i r u code r' e] assms(2-4)
  show ?thesis by (simp add: patch_value_def warehouse_conflict_def)
qed

lemma warehouse_code_conflict_witness:
  "update_warehouse demo_deps 1 \<lparr>wu_name = Unset, wu_code = Value ''S'', wu_address = Unset,
     wu_is_active = Unset\<rparr> demo_world = (Inl (warehouse_conflict ''S''), demo_world) \<and>
   status_code (handle_exception (warehouse_conflict ''S'')) = 409"
  by (rule warehouse_code_conflict [where r = "hd (warehouses demo_db)" and r' = "warehouses demo_db ! 1"])
    (use demo_constraints in \<open>simp_all add: demo_world_def\<close>, simp_all add: demo_db_def)

text \<open>
  An update that sets a product's name, price or active flag to an explicit null passes
  validation and is refused by the database: a 500, nothing changed.
\<close>

lemma explicit_null_is_a_500:
  assumes "constraints (work w)" and "find (\<lambda>r. entity_id r = i) (products (work w)) = Some r"
    and "pu_sku u = Unset" and "pu_name u = Null \<or> pu_price u = Null \<or> pu_is_active u = Null"
  shows "update_product e i u w = (Inl DatabaseError, w) \<and>
    status_code (handle_exception DatabaseError) = 500 \<and>
    product_update_ok \<lparr>pu_sku = Unset, pu_name = Null, pu_description = Unset, pu_price = Unset,
      pu_is_active = Unset\<rparr>"
proof -
  have "apply_product_update u r = None"
    using assms(4) by (auto simp: apply_product_update_def set_required_def patch_cents_def
        split: option.splits patch.splits)
  with product_service.update_null [OF assms(1), of i r u e] assms(2,3)
  show ?thesis by (simp add: patch_value_def product_update_ok_def patch_ok_def)
qed

lemma explicit_null_is_a_500_witness:
  "update_product demo_deps 3 \<lparr>pu_sku = Unset, pu_name = Null, pu_description = Unset, pu_price = Unset,
     pu_is_active = Unset\<rparr> demo_world = (Inl DatabaseError, demo_world)"
  by (rule explicit_null_is_a_500 [where r = "hd (products demo_db)", THEN conjunct1])
    (use demo_constraints in \<open>simp_all add: demo_world_def\<close>, simp_all add: demo_db_def)

section \<open>Queries and reports\<close>



text \<open>
  C24. The low-stock listing is empty in every state reached through the API, however low
  the stock: it compares with the record's own threshold, and nothing ever sets one.
\<close>

theorem low_stock_listing_is_empty:
  assumes "fair_scan e" and "(system_step e)\<^sup>*\<^sup>* w0 w" and "system_ok (committed w0)"
    and "list_low_stock_records e skip limit (begin_session e w) = (Inr page, w')"
  shows "page = []"
proof -
  have "system_ok (committed w)"
    by (rule db_steps_system_ok [OF reachable_db_steps [OF assms(1-3)] assms(3)])
  then have "own_thresholds (work (begin_session e w)) = {}" by (simp add: system_ok_def)
  from list_low_stock_empty [OF this assms(1)] assms(4) show ?thesis
    by (simp add: list_low_stock_records_def)
qed

lemma low_stock_listing_is_empty_witness:
  "fst (list_low_stock_records demo_deps 0 100 (begin_session demo_deps
     (snd (serve demo_deps (RecordMovement demo_transfer) demo_world)))) = Inr []"
proof -
  let ?w = "snd (serve demo_deps (RecordMovement demo_transfer) demo_world)"
  obtain page w' where run: "list_low_stock_records demo_deps 0 100 (begin_session demo_deps ?w) = (Inr page, w')"
    by (simp add: list_low_stock_records_def list_low_stock_def select_page_def paginate_def)
  have "system_ok (committed demo_world)" using demo_invariants by (simp add: demo_world_def)
  from low_stock_listing_is_empty [OF demo_fair serve_steps [OF rtranclp.rtrancl_refl] this run] run
  show ?thesis by simp
qed

text \<open>
  C25. The summary report: its totals are those of the whole inventory table, its low-stock
  count is the number of records that want an alert, and it has exactly one row per
  warehouse, with the warehouse's id and name and the number of its records, its stock, its
  low-stock and its out-of-stock count, ordered by name. Generating it changes nothing.
\<close>

theorem summary_totals:
  assumes "fair_scan e" and "constraints (work w)"
  shows "\<exists>rep w'. generate_inventory_summary e collation w = (Inr rep, w') \<and> work w' = work w \<and>
    sr_total_warehouses rep = int (length (warehouses (work w))) \<and>
    sr_total_stock_quantity rep = sum_list (map inv_quantity (inventories (work w))) \<and>
    sr_low_stock_count rep =
      int (length (filter (\<lambda>r. wanted e r \<noteq> None) (inventories (work w)))) \<and>
    sr_out_of_stock_count rep =
      int (length (filter (\<lambda>r. inv_quantity r = 0) (inventories (work w)))) \<and>
    sorted (map (\<lambda>s. collation (ss_warehouse_name s)) (sr_by_warehouse rep)) \<and>
    mset (map (\<lambda>s. (ss_warehouse_id s, ss_warehouse_name s, ss_distinct_products s,
        ss_total_quantity s, ss_low_stock_count s, ss_out_of_stock_count s)) (sr_by_warehouse rep)) =
      mset (map (\<lambda>wa. let rs = filter (\<lambda>r. inv_warehouse_id r = entity_id wa) (inventories (work w)) in
        (entity_id wa, wh_name wa, int (length rs), sum_list (map inv_quantity rs),
         int (length (filter (\<lambda>r. wanted e r \<noteq> None) rs)),
         int (length (filter (\<lambda>r. inv_quantity r = 0) rs)))) (warehouses (work w)))"
proof -
  have "sorted (map (\<lambda>s. collation (ss_warehouse_name s))
      (map (summary_row e (work w)) (listed e collation w)))"
    by (simp add: summary_row_def comp_def listed_def)
  moreover have "mset (map f (listed e collation w)) = mset (map f (warehouses (work w)))" for f :: "warehouse \<Rightarrow> 'z"
    by (simp add: mset_listed [OF assms(1)])
  ultimately show ?thesis
    by (simp add: summary_run [OF assms] count_rows_def summary_row_def stock_rows_def low_stock_wanted
        comp_def Let_def del: mset_map)
qed

lemma summary_totals_witness:
  "\<exists>rep w'. generate_inventory_summary demo_deps (\<lambda>s. s) demo_world = (Inr rep, w') \<and>
     sr_total_warehouses rep = 2 \<and> sr_total_stock_quantity rep = 20 \<and>
     mset (map (\<lambda>s. (ss_warehouse_id s, ss_warehouse_name s, ss_distinct_products s,
        ss_total_quantity s, ss_low_stock_count s, ss_out_of_stock_count s)) (sr_by_warehouse rep)) =
       {#(1, ''North'', 1, 20, 0, 0), (2, ''South'', 0, 0, 0, 0)#}"
proof -
  have c: "constraints (work demo_world)" using demo_constraints by (simp add: demo_world_def)
  have "wanted demo_deps demo_row = None"
    by (simp add: wanted_def wanted_alert_def applicable_threshold_def demo_deps_def demo_row_def)
  moreover have "work demo_world = demo_db" "inventories demo_db = [demo_row]" "length (warehouses demo_db) = 2"
    "inv_warehouse_id demo_row = 1" "inv_quantity demo_row = 20"
    "map (\<lambda>wa. (entity_id wa, wh_name wa)) (warehouses demo_db) = [(1, ''North''), (2, ''South'')]"
    by (simp_all add: demo_world_def demo_db_def demo_row_def)
  ultimately show ?thesis
    using summary_totals [OF demo_fair c, of "\<lambda>s. s"] by (auto simp: Let_def map_eq_Cons_conv)
qed

text \<open>
  C26. The valuation report's total is the sum of quantity times unit price over every
  inventory record, as long as no value is negative and the total fits the 28 digits of a
  Python Decimal.
\<close>

theorem valuation_total:
  assumes "fair_scan e" and "constraints (work w)"
    and "\<forall>r \<in> set (inventories (work w)). 0 \<le> inv_quantity r"
    and "\<forall>p \<in> set (products (work w)). 0 \<le> prod_price p" and "stock_value (work w) < 10 ^ 28"
  shows "\<exists>rep w'. generate_valuation_report e collation w = (Inr rep, w') \<and> work w' = work w \<and>
    vr_total_value rep = (\<Sum>r\<leftarrow>inventories (work w). inv_quantity r *
      prod_price (the (find (\<lambda>p. entity_id p = inv_product_id r) (products (work w)))))"
proof -
  have rv: "row_value (work w) r = inv_quantity r *
      prod_price (the (find (\<lambda>p. entity_id p = inv_product_id r) (products (work w)))) \<and>
      0 \<le> row_value (work w) r"
    if r: "r \<in> set (inventories (work w))" for r
  proof -
    obtain p where p: "find (\<lambda>p. entity_id p = inv_product_id r) (products (work w)) = Some p"
      using find_by_id_None [of "inv_product_id r" "products (work w)"] assms(2) r
      by (cases "find (\<lambda>p. entity_id p = inv_product_id r) (products (work w))")
        (auto simp: constraint_defs)
    then have "p \<in> set (products (work w))" by (auto dest: find_SomeD)
    with p assms(3,4) r show ?thesis by (simp add: row_value_def)
  qed
  then have sum: "stock_value (work w) = (\<Sum>r\<leftarrow>inventories (work w). inv_quantity r *
      prod_price (the (find (\<lambda>p. entity_id p = inv_product_id r) (products (work w)))))"
    unfolding stock_value_def by (intro arg_cong [where f = sum_list] map_cong) simp_all
  have "\<forall>r \<in> set (inventories (work w)). 0 \<le> row_value (work w) r" using rv by blast
  from valuation_run [OF assms(1,2) this assms(5), of collation] show ?thesis
    by (simp flip: sum)
qed

lemma valuation_total_witness:
  "\<exists>rep w'. generate_valuation_report demo_deps (\<lambda>s. s) demo_world = (Inr rep, w') \<and>
     vr_total_value rep = 5000"
proof -
  have c: "constraints (work demo_world)" using demo_constraints by (simp add: demo_world_def)
  show ?thesis
    using valuation_total [OF demo_fair c, of "\<lambda>s. s"]
    by (auto simp: demo_world_def demo_db_def stock_value_def row_value_def)
qed

text \<open>
  Where the database keeps to one row order, two consecutive pages of the active
  products that reach the end of the table hold each active product exactly once.
\<close>

lemma product_pages_cover:
  assumes "fair_scan e" and "stable_scan e" and "list_products e 0 a True w = (Inr p, w')"
    and "list_products e a b True v = (Inr q, v')" and "products (work v) = products (work w)"
    and "int (length (products (work w))) \<le> a + b"
  shows "mset (p @ q) = filter_mset prod_is_active (mset (products (work w)))"
proof -
  let ?rs = "filter prod_is_active (scan e 0 (products (work w)))"
  have st: "scan e k (products (work w)) = scan e 0 (products (work w))" for k
    by (rule scan_stable [OF assms(2)])
  have "paginate 0 a ?rs = Inr p" "paginate a b ?rs = Inr q"
    using assms(3-5) st [of "tick w"] st [of "tick v"]
    by (simp_all add: list_products_def list_active_products_def select_page_run)
  moreover have "int (length ?rs) \<le> a + b"
    using length_filter_le [of prod_is_active "scan e 0 (products (work w))"] assms(1,6) by simp
  ultimately have "p @ q = ?rs" by (rule pages_cover)
  then show ?thesis by (metis mset_filter mset_scan [OF assms(1)])
qed

lemma product_pages_cover_witness:
  "\<exists>p q. fst (list_products demo_deps 0 1 True demo_world) = Inr p \<and>
     fst (list_products demo_deps 1 1 True demo_world) = Inr q \<and> size (mset (p @ q)) = 1"
proof -
  obtain p w' q v' where r: "list_products demo_deps 0 1 True demo_world = (Inr p, w')"
    "list_products demo_deps 1 1 True demo_world = (Inr q, v')"
    by (simp add: list_products_def list_active_products_def select_page_run paginate_Inr)
  from product_pages_cover [OF demo_fair demo_stable r]
  have "size (mset (p @ q)) = 1" by (simp add: demo_world_def demo_db_def)
  with r show ?thesis by auto
qed

section \<open>The HTTP surface\<close>

text \<open>
  C27. A request that fails, other than a movement, has changed nothing that is durable, on a
  database whose warehouses and products pass their read models, as in every reachable state
  (C1): what a committed write returns can then be shown. (What a failed movement leaves is C4.)
\<close>

theorem failed_requests_change_nothing:
  assumes "constraints (committed w)" and "serve e req w = (resp, w')"
    and "resp_content resp = ErrorBody text" and "\<forall>x. req \<noteq> RecordMovement x"
    and "rows_readable (committed w)"
  shows "committed w' = committed w"
proof (cases "request_ok req")
  case False
  with assms(2) show ?thesis by (simp add: serve_def)
next
  case True
  let ?b = "begin_session e w"
  obtain r w1 where run: "route e req ?b = (r, w1)" by fastforce
  note db = get_db_run [of "route e req" e w r w1, OF run]
  show ?thesis
  proof (cases r)
    case (Inl y)
    with route_failed [of e req ?b y w1] run assms True db show ?thesis by (auto simp: serve_def)
  next
    case (Inr c)
    with assms(2,3) True db have "c = ErrorBody text" by (auto simp: serve_def)
    with run Inr have "route e req ?b = (Inr (ErrorBody text), w1)" by simp
    from route_content [OF this] show ?thesis by blast
  qed
qed

lemma failed_requests_change_nothing_witness:
  "committed (snd (serve demo_deps (ResolveAlert 9) demo_world)) = demo_db"
proof -
  have "resp_content (fst (serve demo_deps (ResolveAlert 9) demo_world)) =
      ErrorBody (detail (handle_exception (not_found ''Alert'' 9)))"
    using demo_constraints
    by (simp add: serve_def get_db_def then_show_def andthen_def resolve_alert_run demo_world_def)
      (simp add: demo_db_def)
  from failed_requests_change_nothing [OF _ surjective_pairing this] demo_constraints demo_readable
  show ?thesis by (simp add: demo_world_def)
qed

text \<open>
  Round trip: a warehouse that was created (201) is what GET by its id returns (200),
  with the name, code and address of the payload.
\<close>

lemma created_warehouse_is_readable:
  assumes "constraints (committed w)" and "serve e (CreateWarehouse x) w = (resp, w')"
    and "resp_status resp = 201"
  shows "\<exists>v. resp_content resp = WarehouseBody v \<and> wr_name v = wc_name x \<and> wr_code v = wc_code x \<and>
    wr_address v = wc_address x \<and> wr_is_active v \<and>
    fst (serve e (GetWarehouse (wr_id v)) w') = \<lparr>resp_status = 200, resp_content = WarehouseBody v\<rparr>"
proof -
  let ?b = "begin_session e w"
  have ok: "warehouse_create_ok x" using assms(2,3) by (auto simp: serve_def split: if_splits)
  obtain r w1 where run: "create_warehouse e x ?b = (r, w1)" by fastforce
  have c: "constraints (work ?b)" using assms(1) by simp
  show ?thesis
  proof (cases r)
    case (Inl y)
    with run have run: "create_warehouse e x ?b = (Inl y, w1)" by simp
    have "status_code (handle_exception y) \<noteq> 201"
      by (cases y) (auto simp: handle_exception.simps app_exception_handler_def
        unhandled_exception_handler_def status_code_by_exception_def split: option.splits if_splits)
    with run assms(2,3) ok show ?thesis
      by (auto simp: serve_def get_db_def then_show_def andthen_def)
  next
    case (Inr row)
    with run have run: "create_warehouse e x ?b = (Inr row, w1)" by simp
    have "warehouse_fields_ok row" by (rule warehouse_rows.create_returns_readable [OF run c ok])
    then obtain v where v: "warehouse_read row = Some v" by (auto simp: warehouse_read_def)
    have resp: "resp_content resp = WarehouseBody v" "w' = close_session w1"
      using run assms(2) ok v by (auto simp: serve_def get_db_def then_show_def andthen_def)
    show ?thesis
    proof (rule warehouse_service.create_InrE [OF run c])
      assume row: "row = stamped (uuid4 e (tick ?b)) (tx_time ?b) (new_warehouse x)"
        and w1: "work w1 = with_row warehouses_table row (work ?b)" "committed w1 = work w1"
          "constraints (work w1)"
      have "row \<in> set (rows warehouses_table (committed w1))"
        unfolding w1(1,2) warehouses_store.rows_with_row by simp
      from warehouses_store.find_row [OF this] w1
      have "find (\<lambda>s. entity_id s = entity_id row) (warehouses (committed w1)) = Some row" by simp
      then have "fst (serve e (GetWarehouse (entity_id row)) w') =
          \<lparr>resp_status = 200, resp_content = WarehouseBody v\<rparr>"
        by (simp add: resp v serve_def get_db_def then_show_def andthen_def get_warehouse_def
            get_by_id_or_raise_run)
      then show ?thesis
        unfolding resp(1)
        using v by (intro exI [of _ v])
          (auto simp: warehouse_read_def row stamped_def new_warehouse_def split: if_splits)
    qed
  qed
qed

lemma created_warehouse_is_readable_witness:
  "\<exists>v. resp_content (fst (serve demo_deps (CreateWarehouse demo_depot) demo_world)) = WarehouseBody v \<and>
     wr_code v = ''D''"
proof -
  let ?b = "begin_session demo_deps demo_world"
  have x: "warehouse_create_ok demo_depot" by code_simp
  have c: "constraints (work ?b)" using demo_constraints by (simp add: demo_world_def)
  have "constraints (demo_db\<lparr>warehouses := warehouses demo_db @ [stamped 11 10 (new_warehouse demo_depot)]\<rparr>)"
    by (rule constraints_insert_warehouse [OF demo_constraints x])
      (simp_all add: demo_db_def demo_depot_def no_nul_def opt_ok_def ids_def)
  moreover have "warehouse_service.lookup demo_db (wh_code (new_warehouse demo_depot)) = None"
    by (simp add: warehouse_service.lookup_None wh_code_new) (simp add: demo_db_def demo_depot_def)
  ultimately have run: "\<exists>w'. create_warehouse demo_deps demo_depot ?b =
      (Inr (stamped 11 10 (new_warehouse demo_depot)), w')"
    using warehouse_service.create_free [OF c, of demo_depot demo_deps]
    by (simp add: demo_world_def demo_deps_def Let_def)
  then have "resp_status (fst (serve demo_deps (CreateWarehouse demo_depot) demo_world)) = 201"
    using x by (auto simp: serve_def get_db_def then_show_def andthen_def warehouse_read_def warehouse_fields_ok_def
        warehouse_create_ok_def stamped_def new_warehouse_def)
  from created_warehouse_is_readable [OF _ surjective_pairing this] demo_constraints
  show ?thesis by (auto simp: demo_world_def demo_depot_def)
qed

text \<open>
  A response is a 500 exactly when the exception is not one of the application's own,
  and then its text says nothing about the exception; the application's own exceptions are
  answered with their message and a status below 500.
\<close>

lemma error_responses:
  "(status_code (handle_exception x) = 500 \<longleftrightarrow> (\<forall>y. x \<noteq> App y)) \<and>
   detail (handle_exception x) =
     (case x of App y \<Rightarrow> message y | _ \<Rightarrow> ''An unexpected error occurred.'')"
  by (rule conjI [OF app_exception_status])
    (cases x, simp_all add: handle_exception.simps app_exception_handler_def unhandled_exception_handler_def)

text \<open>
  The validator of a movement accepts exactly the three shapes (an IN has a destination
  only, an OUT a source only, a TRANSFER two different warehouses), and a payload it accepts
  never fails one of the asserts in the service.
\<close>

lemma movement_shapes:
  assumes "movement_create_fields_ok x"
  shows "(validate_warehouses_for_type x = Inr x \<longleftrightarrow>
    (case mc_movement_type x of
       IN \<Rightarrow> mc_source_warehouse_id x = None \<and> mc_destination_warehouse_id x \<noteq> None
     | OUT \<Rightarrow> mc_source_warehouse_id x \<noteq> None \<and> mc_destination_warehouse_id x = None
     | TRANSFER \<Rightarrow> mc_source_warehouse_id x \<noteq> None \<and> mc_destination_warehouse_id x \<noteq> None \<and>
         mc_source_warehouse_id x \<noteq> mc_destination_warehouse_id x)) \<and>
    (validate_warehouses_for_type x = Inr x \<longrightarrow> fst (record_movement e x u w) \<noteq> Inl AssertionError)"
proof -
  have "fst (record_movement e x u w) \<noteq> Inl AssertionError" if "validate_warehouses_for_type x = Inr x"
  proof -
    have "movement_create_ok x" using that assms by (simp add: movement_create_ok_def)
    from raises_only_record_movement [OF this, of e u] show ?thesis using movement_failures_mem(6)
      by (metis prod.collapse raises_onlyD)
  qed
  then show ?thesis by (cases "mc_movement_type x") (auto simp: validate_warehouses_for_type_def)
qed

lemma movement_shapes_witness:
  "validate_warehouses_for_type demo_transfer = Inr demo_transfer \<and>
   fst (record_movement demo_deps demo_transfer None demo_world) \<noteq> Inl AssertionError"
proof -
  have "movement_create_fields_ok demo_transfer" using demo_transfer_ok by (simp add: movement_create_ok_def)
  from movement_shapes [OF this, of demo_deps None demo_world] show ?thesis
    by (simp add: demo_transfer_def)
qed

text \<open>
  Deactivating warehouses and products does not stop movements: whatever the
  \<open>is_active\<close> flags are set to, a movement ends the same way.
\<close>

lemma inactive_resources_still_move:
  assumes "movement_create_ok x" and "storable x" and "constraints (work w)" and "fresh e 11 w"
    and "stock_nonneg (work w)" and "one_active (work w)"
    and "int4 (low_stock_alert_threshold_default e)"
    and "v = w\<lparr>work := reflagged f g (work w)\<rparr>"
  shows "map_sum id (\<lambda>_. ()) (fst (record_movement e x u v)) =
    map_sum id (\<lambda>_. ()) (fst (record_movement e x u w))"
proof -
  have "stock_nonneg (work v)" "one_active (work v)" "constraints (work v)"
    using assms(3,5,6) by (simp_all add: assms(8) stock_nonneg_def one_active_def active_alerts_def)
  moreover have "fresh e 11 v" using assms(4) fresh_reflagged [where w = w and d = "work w" and e = e] by (simp add: assms(8))
  ultimately show ?thesis
    using record_movement_decides [OF assms(1-7), of u]
      record_movement_decides [OF assms(1,2) _ _ _ _ assms(7), of v u]
    by (auto simp: assms(8) split: option.splits)
qed

lemma inactive_resources_still_move_witness:
  "\<exists>m. fst (record_movement demo_deps demo_transfer None
     (demo_world\<lparr>work := reflagged (\<lambda>_. False) (\<lambda>_. False) demo_db\<rparr>)) = Inr m"
proof -
  have w: "work demo_world = demo_db" by (simp add: demo_world_def)
  have ok: "stock_nonneg demo_db" "one_active demo_db" "constraints demo_db"
    using demo_invariants by (simp_all add: system_ok_def)
  have "movement_problem demo_transfer demo_db = None" by code_simp
  then obtain m w' where run: "record_movement demo_deps demo_transfer None demo_world = (Inr m, w')"
    using record_movement_decides [OF demo_transfer_ok demo_storable _ demo_fresh _ _ demo_threshold, of None]
    by (auto simp: w ok)
  have "map_sum id (\<lambda>_. ()) (fst (record_movement demo_deps demo_transfer None
      (demo_world\<lparr>work := reflagged (\<lambda>_. False) (\<lambda>_. False) demo_db\<rparr>))) = Inr ()"
    using inactive_resources_still_move [OF demo_transfer_ok demo_storable _ demo_fresh _ _ demo_threshold,
        of _ "\<lambda>_. False" "\<lambda>_. False" None] run
    by (simp add: w ok)
  then show ?thesis
    by (cases "fst (record_movement demo_deps demo_transfer None
      (demo_world\<lparr>work := reflagged (\<lambda>_. False) (\<lambda>_. False) demo_db\<rparr>))") auto
qed

text \<open>
  A receipt that would take a stock level past the range of the column passes
  validation and is a 500; nothing changes.
\<close>

lemma oversized_receipt_is_a_500:
  assumes "system_ok (committed w)" and "movement_create_ok x" and "mc_movement_type x = IN"
    and "mc_destination_warehouse_id x = Some t" and "mc_product_id x \<in> set (ids (products (committed w)))"
    and "t \<in> set (ids (warehouses (committed w)))" and "fresh e 3 (begin_session e w)"
    and "2 ^ 31 \<le> stock_in (inventories (committed w)) (mc_product_id x) t + mc_quantity x"
    and "serve e (RecordMovement x) w = (resp, w')"
  shows "resp_status resp = 500 \<and> committed w' = committed w \<and> outside w' = outside w"
proof -
  let ?b = "begin_session e w"
  have ok: "constraints (work ?b)" "stock_nonneg (work ?b)"
    using assms(1) by (simp_all add: system_ok_def)
  have "movement_problem x (work ?b) = Some DatabaseError"
    using leg_overflow [OF assms(3,2,4), of "committed w"] assms(5,6,8) ok(2) by simp
  from movement_refused [OF assms(2) ok(1) assms(7) ok(2) this, of None]
  obtain w1 where "record_movement e x None ?b = (Inl DatabaseError, w1)"
    "committed w1 = committed w" "outside w1 = outside w" by auto
  with assms(2,9) show ?thesis
    by (auto simp: serve_def get_db_def then_show_def andthen_def)
qed

definition demo_flood :: movement_create where
  "demo_flood = \<lparr>mc_product_id = 3, mc_movement_type = IN, mc_quantity = 2 ^ 31,
     mc_source_warehouse_id = None, mc_destination_warehouse_id = Some 1, mc_reason = None\<rparr>"

lemma oversized_receipt_is_a_500_witness:
  "resp_status (fst (serve demo_deps (RecordMovement demo_flood) demo_world)) = 500"
proof -
  have x: "movement_create_ok demo_flood" by code_simp
  have f: "fresh demo_deps 3 (begin_session demo_deps demo_world)"
    using demo_fresh by (auto simp: fresh_def demo_world_def inj_on_def)
  show ?thesis
    using oversized_receipt_is_a_500 [OF _ x, of demo_world 1 demo_deps, OF _ _ _ _ _ f _ surjective_pairing]
      demo_invariants
    by (simp add: demo_world_def demo_flood_def demo_db_def)
qed

section \<open>Events and real-time notifications\<close>

text \<open>
  C28. Whatever connections come and go, no client is twice on a channel and no empty
  channel is kept; and a client whose endpoint has ended is not on its channel.
\<close>

theorem connections_consistent:
  assumes "manager_step\<^sup>*\<^sup>* no_connections conns"
  shows "(\<forall>ch cs. conns ch = Some cs \<longrightarrow> cs \<noteq> [] \<and> distinct cs) \<and>
    ws \<notin> set (on_channel (websocket_endpoint ws ch meanwhile conns) ch)"
proof
  have "connections_ok conns" by (rule manager_steps_ok [OF assms connections_ok_empty])
  then show "\<forall>ch cs. conns ch = Some cs \<longrightarrow> cs \<noteq> [] \<and> distinct cs"
    unfolding connections_ok_def .
qed (simp add: websocket_endpoint_def)

lemma connections_consistent_witness:
  "distinct (the (connect 7 GLOBAL_CHANNEL (connect (7 :: nat) GLOBAL_CHANNEL no_connections) GLOBAL_CHANNEL))"
proof -
  let ?c = "connect 7 GLOBAL_CHANNEL (connect (7 :: nat) GLOBAL_CHANNEL no_connections)"
  have "manager_step\<^sup>*\<^sup>* no_connections ?c"
    by (rule rtranclp.rtrancl_into_rtrancl [OF r_into_rtranclp]) (rule manager_step.connected)+
  from conjunct1 [OF connections_consistent [OF this]]
  have "?c GLOBAL_CHANNEL = Some cs \<Longrightarrow> distinct cs" for cs by blast
  moreover obtain cs where "?c GLOBAL_CHANNEL = Some cs" by (simp add: connect_def)
  ultimately show ?thesis by simp
qed

text \<open>
  A broadcast sends once to every client that can be reached and is on the global
  channel or one of those addressed, and to no other; afterwards the addressed channels
  hold those clients only, and the other channels what they held.
\<close>

lemma broadcast_exactly_once:
  "distinct (fst (broadcast ok channels conns)) \<and>
   (\<forall>c. c \<in> set (fst (broadcast ok channels conns)) \<longleftrightarrow> ok c \<and>
      (\<exists>ch \<in> insert GLOBAL_CHANNEL (set channels). c \<in> set (on_channel conns ch))) \<and>
   (\<forall>ch. set (on_channel (snd (broadcast ok channels conns)) ch) =
      (if ch \<in> insert GLOBAL_CHANNEL (set channels) then {c \<in> set (on_channel conns ch). ok c}
       else set (on_channel conns ch)))"
proof -
  note d = broadcast_delivers [OF surjective_pairing [of "broadcast ok channels conns"]]
  show ?thesis using d(1) unfolding d(2) d(3) by auto
qed

text \<open>
  C29. From an event to the clients: with the listeners registered once, publishing an event
  puts one text on Redis, and every process that relays it sends the serialized event, once,
  to exactly the reachable clients on the global channel or on the channel of a warehouse
  the event names. (\<open>loads\<close> is assumed to read back what \<open>dumps\<close> wrote for this event.)
\<close>

theorem event_reaches_its_clients:
  assumes "loads (dumps (serialize_event isoformat ev, channels_for ev)) =
      Some (serialize_event isoformat ev, channels_for ev)"
  shows "\<exists>published delivered conns'.
    publish_event (\<lambda>h. broadcast_event isoformat dumps True)
      (register_websocket_listeners () new_publisher) ev [] = ([], published) \<and>
    relay_to_local_clients loads ok (map (\<lambda>s. \<lparr>raw_type = ''message'', raw_data = s\<rparr>) published) conns =
      ([(delivered, serialize_event isoformat ev)], conns') \<and>
    distinct delivered \<and>
    set delivered = {c. ok c \<and> (c \<in> set (on_channel conns GLOBAL_CHANNEL) \<or>
      (\<exists>ch \<in> set (channels_for ev). c \<in> set (on_channel conns ch)))}"
proof -
  let ?env = "(serialize_event isoformat ev, channels_for ev)"
  have h: "handlers_of (register_websocket_listeners () new_publisher) ev = [()]"
    by (simp add: listener_delivered_once) (simp add: handlers_of_def new_publisher_def)
  obtain delivered conns' where b: "broadcast ok (channels_for ev) conns = (delivered, conns')"
    by fastforce
  have "relay_to_local_clients loads ok [\<lparr>raw_type = ''message'', raw_data = dumps ?env\<rparr>] conns =
      ([(delivered, serialize_event isoformat ev)], conns')"
    using relay_published [of loads dumps ?env, OF assms refl, of ok conns] b by simp
  then show ?thesis
    using broadcast_delivers(1,2) [OF b]
    by (intro exI [of _ "[dumps ?env]"] exI [of _ delivered] exI [of _ conns'])
      (simp add: publish_event_def h broadcast_event_def redis_publish_def)
qed

definition demo_event :: domain_event where
  "demo_event = \<lparr>event_id = 8, occurred_at = 4, body = StockTransferredEvent 3 1 2 12\<rparr>"

lemma event_reaches_its_clients_witness:
  "\<exists>delivered conns'. relay_to_local_clients
      (\<lambda>s. Some (serialize_event int_str demo_event, channels_for demo_event)) (\<lambda>c. True)
      [\<lparr>raw_type = ''message'', raw_data = ''text''\<rparr>]
      (connect 6 (uuid_str 2) (connect (5 :: nat) (uuid_str 7) no_connections)) =
        ([(delivered, serialize_event int_str demo_event)], conns') \<and>
     set delivered = {6}"
proof -
  let ?conns = "connect 6 (uuid_str 2) (connect (5 :: nat) (uuid_str 7) no_connections)"
  have "(7 :: uuid) \<noteq> 1 \<and> (7 :: uuid) \<noteq> 2" by code_simp
  then have s: "{c. c \<in> set (on_channel ?conns GLOBAL_CHANNEL) \<or>
      (\<exists>ch \<in> set (channels_for demo_event). c \<in> set (on_channel ?conns ch))} = {6}"
    by (auto simp: channels_for_def demo_event_def)
  from event_reaches_its_clients [of "\<lambda>s. Some (serialize_event int_str demo_event, channels_for demo_event)"
      "\<lambda>_. ''text''" int_str demo_event "\<lambda>c. True" ?conns]
  obtain published delivered conns' where
    "publish_event (\<lambda>h. broadcast_event int_str (\<lambda>_. ''text'') True)
      (register_websocket_listeners () new_publisher) demo_event [] = ([], published)"
    and r: "relay_to_local_clients (\<lambda>s. Some (serialize_event int_str demo_event, channels_for demo_event))
      (\<lambda>c. True) (map (\<lambda>s. \<lparr>raw_type = ''message'', raw_data = s\<rparr>) published) ?conns =
        ([(delivered, serialize_event int_str demo_event)], conns')"
    and d: "set delivered = {c. c \<in> set (on_channel ?conns GLOBAL_CHANNEL) \<or>
      (\<exists>ch \<in> set (channels_for demo_event). c \<in> set (on_channel ?conns ch))}"
    by auto
  moreover have "handlers_of (register_websocket_listeners () new_publisher) demo_event = [()]"
    by (simp add: listener_delivered_once) (simp add: handlers_of_def new_publisher_def)
  ultimately have "published = [''text'']"
    by (simp add: publish_event_def broadcast_event_def redis_publish_def)
  with r d show ?thesis unfolding s by auto
qed

text \<open>
  A message that is not of type "message", or whose data cannot be read, is logged and
  skipped: the relay goes on as if it had not arrived.
\<close>

lemma relay_ignores_bad_messages:
  "relay_to_local_clients loads ok raws conns =
   relay_to_local_clients loads ok
     (filter (\<lambda>raw. raw_type raw = ''message'' \<and> loads (raw_data raw) \<noteq> None) raws) conns"
  using relay_filter [of loads ok raws conns] unfolding well_formed_def [abs_def] .

text \<open>
  Subscribers are isolated from each other: publishing runs every handler of the
  event's type, each once and in the order of subscription, whichever of them fail, and
  logs only failed ones.
\<close>

lemma failing_handlers_are_isolated:
  "snd (publish_event run (fold (\<lambda>t. subscribe t h) ts p) ev s) =
     fold (\<lambda>h s. snd (run h ev s)) (handlers_of p ev @ replicate (count_list ts (event_type ev)) h) s \<and>
   set (fst (publish_event run p ev s)) \<subseteq> set (handlers_of p ev)"
proof
  show "snd (publish_event run (fold (\<lambda>t. subscribe t h) ts p) ev s) =
     fold (\<lambda>h s. snd (run h ev s)) (handlers_of p ev @ replicate (count_list ts (event_type ev)) h) s"
    unfolding publish_event_state in_process.delivers_fold ..
  show "set (fst (publish_event run p ev s)) \<subseteq> set (handlers_of p ev)"
    using call_handlers_log [of run "handlers_of p ev" ev s] by (simp add: publish_event_def Let_def)
qed

text \<open>
  The heartbeat reaches the clients on the global channel only: a client that follows
  one warehouse never gets it.
\<close>

lemma heartbeat_reaches_global_channel_only:
  "set (fst (broadcast_heartbeat ok conns)) = {c \<in> set (on_channel conns GLOBAL_CHANNEL). ok c} \<and>
   fst (broadcast_heartbeat ok (connect c (uuid_str wh) no_connections)) = []"
proof -
  have g: "set (fst (broadcast_heartbeat ok cs)) = {c \<in> set (on_channel cs GLOBAL_CHANNEL). ok c}" for cs
    using broadcast_delivers(2) [OF surjective_pairing [of "broadcast ok [GLOBAL_CHANNEL] cs"]]
    unfolding broadcast_heartbeat_def by auto
  have "set (fst (broadcast_heartbeat ok (connect c (uuid_str wh) no_connections))) = {}"
    unfolding g by simp
  then have "fst (broadcast_heartbeat ok (connect c (uuid_str wh) no_connections)) = []"
    unfolding set_empty .
  with g [of conns] show ?thesis by blast
qed

text \<open>
  What a client is sent identifies the event: two events serialize alike only if they
  are the same. (isoformat is assumed to identify the instant.)
\<close>

lemma serialization_is_faithful:
  assumes "inj isoformat"
  shows "serialize_event isoformat ev = serialize_event isoformat ev' \<longleftrightarrow> ev = ev'"
  using serialize_event_inject [OF assms] by blast

lemma serialization_is_faithful_witness:
  "serialize_event (\<lambda>i. replicate (nat i) (CHR ''1'') @ replicate (nat (- i)) (CHR ''0'')) demo_event \<noteq>
   serialize_event (\<lambda>i. replicate (nat i) (CHR ''1'') @ replicate (nat (- i)) (CHR ''0''))
     (demo_event\<lparr>occurred_at := 5\<rparr>)"
proof -
  let ?f = "\<lambda>i. replicate (nat i) (CHR ''1'') @ replicate (nat (- i)) (CHR ''0'')"
  have "count_list (replicate n c) d = (if c = d then n else 0)" for n and c d :: char
    by (induction n) auto
  then have f: "count_list (?f i) (CHR ''1'') = nat i" "count_list (?f i) (CHR ''0'') = nat (- i)" for i
    by simp_all
  have "inj ?f"
  proof (rule injI)
    fix i j assume "?f i = ?f j"
    then have "nat i = nat j" "nat (- i) = nat (- j)" using f by metis+
    then show "i = j" by linarith
  qed
  from serialization_is_faithful [OF this] show ?thesis by (simp add: demo_event_def)
qed

section \<open>Starting and stopping\<close>

text \<open>
  C30. In the API process the listeners are registered twice, because importing app/main.py
  also imports the Celery application, which registers them too: every event is put on Redis
  twice and every process sends it twice to each of its clients. An event published in a
  worker is sent once. (\<open>loads\<close> reads back what \<open>dumps\<close> wrote for this event.)
\<close>

theorem api_process_broadcasts_twice:
  assumes "loads (dumps (serialize_event isoformat ev, channels_for ev)) =
      Some (serialize_event isoformat ev, channels_for ev)"
  shows "let sent = (\<lambda>process. fst (relay_to_local_clients loads ok
        (map (\<lambda>s. \<lparr>raw_type = ''message'', raw_data = s\<rparr>)
          (snd (publish_event (\<lambda>h. broadcast_event isoformat dumps True) process ev []))) conns));
      clients = {c. ok c \<and> (c \<in> set (on_channel conns GLOBAL_CHANNEL) \<or>
        (\<exists>ch \<in> set (channels_for ev). c \<in> set (on_channel conns ch)))}
    in map (\<lambda>(delivered, m). (set delivered, m)) (sent api_process) =
         replicate 2 (clients, serialize_event isoformat ev) \<and>
       map (\<lambda>(delivered, m). (set delivered, m)) (sent worker_process) =
         [(clients, serialize_event isoformat ev)]"
proof -
  let ?env = "(serialize_event isoformat ev, channels_for ev)"
  obtain d1 c1 where 1: "broadcast ok (channels_for ev) conns = (d1, c1)" by fastforce
  obtain d2 c2 where 2: "broadcast ok (channels_for ev) c1 = (d2, c2)" by fastforce
  note relay = relay_published [of loads dumps ?env, OF assms refl, of ok]
  have "set d2 = set d1"
    unfolding broadcast_delivers(2) [OF 1] broadcast_delivers(2) [OF 2] by (auto simp: broadcast_delivers(3) [OF 1])
  then show ?thesis
    using broadcast_delivers(2) [OF 1]
    by (simp add: publish_event_def handlers_of_processes broadcast_event_def redis_publish_def relay 1 2
        numeral_2_eq_2 Let_def)
qed

lemma api_process_broadcasts_twice_witness:
  "map snd (fst (relay_to_local_clients (\<lambda>s. Some (serialize_event int_str demo_event, channels_for demo_event)) (\<lambda>c. True)
     (map (\<lambda>s. \<lparr>raw_type = ''message'', raw_data = s\<rparr>)
       (snd (publish_event (\<lambda>h. broadcast_event int_str (\<lambda>_. ''text'') True) api_process demo_event [])))
     (connect (5 :: nat) GLOBAL_CHANNEL no_connections))) = replicate 2 (serialize_event int_str demo_event)"
proof -
  have "map snd xs = map snd (map (\<lambda>(d, m). (set d, m)) xs)" for xs :: "(nat list \<times> (string \<times> json) list) list"
    by (induction xs) auto
  note drop = this
  show ?thesis
    using api_process_broadcasts_twice [of "\<lambda>s. Some (serialize_event int_str demo_event, channels_for demo_event)"
        "\<lambda>_. ''text''" int_str demo_event "\<lambda>c. True" "connect (5 :: nat) GLOBAL_CHANNEL no_connections"]
    by (subst drop) (simp add: Let_def)
qed

text \<open>
  C31. Publishing interleaves the handlers of an event at their awaits; the order of the turns
  does not matter when their steps commute, as those of the broadcast listeners do: the state
  and the handlers logged as failed are those of running them one after the other, and publish
  returns after as many turns for each handler as it has steps. A handler that raises stops
  none of the others.
\<close>

theorem interleaved_handlers_agree:
  assumes "sorted_wrt (\<lambda>h k. independent (steps h ev) (steps k ev)) (handlers_of p ev)"
    and "\<forall>i < length (handlers_of p ev). length (steps (handlers_of p ev ! i) ev) \<le> count_list turns i"
  shows "publish_gathered steps turns p ev s = Some (publish_event (\<lambda>h ev. run_steps (steps h ev)) p ev s) \<and>
    snd (publish_event (\<lambda>h ev. run_steps (steps h ev)) p ev s) =
      fold (\<lambda>h s. snd (run_steps (steps h ev) s)) (handlers_of p ev) s \<and>
    independent (broadcast_steps isoformat dumps up ev) (broadcast_steps isoformat dumps up ev)"
proof (intro conjI)
  show "publish_gathered steps turns p ev s = Some (publish_event (\<lambda>h ev. run_steps (steps h ev)) p ev s)"
    using assms by (rule gathered_sequential)
qed (rule publish_event_state, rule broadcast_independent)

lemma interleaved_handlers_agree_witness:
  "publish_gathered (\<lambda>h. broadcast_steps int_str (\<lambda>_. ''text'') True) [0, 1, 1, 0] api_process demo_event [] =
     Some ([], [''text'', ''text''])"
proof -
  let ?steps = "\<lambda>h :: app_module. broadcast_steps int_str (\<lambda>_. ''text'') True"
  have "sorted_wrt (\<lambda>h k. independent (?steps h demo_event) (?steps k demo_event)) (handlers_of api_process demo_event)"
    by (simp add: handlers_of_processes broadcast_independent)
  moreover have "\<forall>i < length (handlers_of api_process demo_event).
      length (?steps (handlers_of api_process demo_event ! i) demo_event) \<le> count_list [0, 1, 1, 0] i"
    by (simp add: handlers_of_processes broadcast_steps_def less_Suc_eq numeral_2_eq_2)
  ultimately have "publish_gathered ?steps [0, 1, 1, 0] api_process demo_event [] =
      Some (publish_event (\<lambda>h ev. run_steps (?steps h ev)) api_process demo_event [])"
    by (rule interleaved_handlers_agree [THEN conjunct1])
  moreover have "publish_event (\<lambda>h ev. run_steps (?steps h ev)) api_process demo_event [] = ([], [''text'', ''text''])"
    by (simp add: broadcast_steps_run publish_event_def handlers_of_processes broadcast_event_def redis_publish_def)
  ultimately show ?thesis by simp
qed

text \<open>
  From start-up to shutdown: while the API process serves, its scheduler runs with one
  heartbeat job every 30 seconds, and calling start_scheduler again changes nothing; at the
  end, however serving ended, the scheduler is stopped, and the relay task is cancelled and
  the Redis connection closed, unless the task had failed before: then its exception is
  raised and the connection stays open.
\<close>

lemma startup_and_shutdown:
  assumes "scheduler_documented api jobs" and "heartbeat_jobs (jobs (scheduler p)) = []"
    and "p0 = p\<lparr>relay := Relaying, scheduler := start_scheduler api (scheduler p)\<rparr>"
    and "serving p0 = (result, p1)" and "lifespan api serving p = (result', p')"
  shows "heartbeat_jobs (jobs (scheduler p0)) = [30] \<and> running api (scheduler p0) \<and>
    start_scheduler api (scheduler p0) = scheduler p0 \<and> \<not> running api (scheduler p') \<and>
    (case relay p1 of Failed x \<Rightarrow> result' = Inl x \<and> redis_open p' = redis_open p1
     | _ \<Rightarrow> result' = result \<and> relay p' = Cancelled \<and> \<not> redis_open p')"
proof -
  have "heartbeat_jobs (jobs (scheduler p0)) = [30]" "running api (scheduler p0)"
    using start_scheduler_once [OF assms(1), of "scheduler p"] assms(2,3)
    by (simp_all add: HEARTBEAT_INTERVAL_SECONDS_def)
  then show ?thesis
    using assms(3-5) start_scheduler_again [OF assms(1), of "scheduler p"] stop_scheduler_stops [OF assms(1)]
    by (auto simp: lifespan_def Let_def split: relay_task.splits)
qed

definition demo_scheduler :: "((string \<times> int) list \<times> bool) scheduler_api" where
  "demo_scheduler = \<lparr>get_job = (\<lambda>i s. i \<in> fst ` set (fst s)), add_job = (\<lambda>i n s. (fst s @ [(i, n)], snd s)),
     running = snd, start = (\<lambda>s. (fst s, True)), shutdown = (\<lambda>s. ([], False))\<rparr>"

lemma startup_and_shutdown_witness:
  "let serving = (\<lambda>p. (Inr (), p\<lparr>relay := Failed ''connection lost''\<rparr>));
       p = \<lparr>scheduler = ([], False), relay = NotStarted, redis_open = True\<rparr>
   in fst (lifespan demo_scheduler serving p) = Inl ''connection lost'' \<and>
      redis_open (snd (lifespan demo_scheduler serving p)) \<and>
      \<not> running demo_scheduler (scheduler (snd (lifespan demo_scheduler serving p)))"
proof -
  let ?serving = "\<lambda>p :: ((string \<times> int) list \<times> bool, string) process. (Inr () :: string + unit, p\<lparr>relay := Failed ''connection lost''\<rparr>)"
  let ?p = "\<lparr>scheduler = ([], False), relay = NotStarted, redis_open = True\<rparr> :: ((string \<times> int) list \<times> bool, string) process"
  have "scheduler_documented demo_scheduler fst" by (simp add: scheduler_documented_def demo_scheduler_def)
  from startup_and_shutdown [OF this _ refl, of ?p ?serving, OF _ surjective_pairing
      surjective_pairing [of "lifespan demo_scheduler ?serving ?p"]]
  show ?thesis by (simp add: heartbeat_jobs_def Let_def)
qed

section \<open>Running migrations\<close>

text \<open>
  C32. Downgrading is not the inverse of upgrading: it drops every table and index, but leaves
  the three enum types behind, so upgrading again stops at the first of them (the alerts
  table), and its transaction is rolled back.
\<close>

theorem downgrade_leaves_the_enum_types:
  assumes "CHR ''%'' \<notin> set (set_database_url s)" and "plain_options cfg" and "stored_schema w = empty_catalog"
  shows "let migrate = env_py s cfg False True;
      w1 = snd (migrate upgrade w); w2 = snd (migrate downgrade w1)
    in fst (migrate upgrade w) = Inr () \<and> fst (migrate downgrade w1) = Inr () \<and>
      cat_tables (stored_schema w2) = [] \<and> cat_indexes (stored_schema w2) = [] \<and>
      map fst (cat_types (stored_schema w2)) = [''alert_type'', ''alert_status'', ''movement_type''] \<and>
      fst (migrate upgrade w2) = Inl (Ddl (DuplicateObject ''alert_type'')) \<and>
      stored_schema (snd (migrate upgrade w2)) = stored_schema w2"
proof -
  have left: "cat_tables (empty_catalog\<lparr>cat_types := ts\<rparr>) = []" "cat_indexes (empty_catalog\<lparr>cat_types := ts\<rparr>) = []"
    "cat_types (empty_catalog\<lparr>cat_types := ts\<rparr>) = ts" for ts
    by (simp_all add: empty_catalog_def)
  have types: "map fst (cat_types migrated) = [''alert_type'', ''alert_status'', ''movement_type'']"
    by (simp add: migrated_def)
  let ?after = "\<lambda>c w. w\<lparr>open_schema := c, stored_schema := c, engine_disposed := True\<rparr>"
  let ?w1 = "?after migrated w"
  let ?w2 = "?after (empty_catalog\<lparr>cat_types := cat_types migrated\<rparr>) ?w1"
  note run = online_run [OF assms(1,2)]
  have 1: "env_py s cfg False True upgrade w = (Inr (), ?w1)"
    by (simp add: run assms(3) upgrade_run)
  have 2: "env_py s cfg False True downgrade ?w1 = (Inr (), ?w2)"
    by (simp add: run downgrade_run)
  have 3: "env_py s cfg False True upgrade ?w2 =
      (Inl (Ddl (DuplicateObject ''alert_type'')), ?w2\<lparr>open_schema := stored_schema ?w2\<rparr>)"
    by (simp add: run second_upgrade_run)
  show ?thesis
    unfolding Let_def 1 snd_conv 2 3 by (simp add: left types)
qed

definition demo_alembic :: alembic where
  "demo_alembic = \<lparr>stored_schema = empty_catalog, open_schema = empty_catalog, script_output = [],
     open_connections = 0, engine_disposed = False\<rparr>"

definition demo_settings :: settings where
  "demo_settings = default_settings ''postgresql+asyncpg://db/inventory'' ''redis://cache'' ''redis://broker''
     ''redis://results'' ''secret''"

definition demo_options :: options where
  "demo_options = [(''script_location'', ''migrations''), (''prepend_sys_path'', ''.'')]"

lemma plain_demo_options: "plain_options demo_options"
  by (simp add: demo_options_def plain_options_def)

lemma demo_url: "CHR ''%'' \<notin> set (set_database_url demo_settings)"
  by (simp add: demo_settings_def default_settings_def)

lemma downgrade_leaves_the_enum_types_witness:
  "let migrate = env_py demo_settings demo_options False True;
      w2 = snd (migrate downgrade (snd (migrate upgrade demo_alembic)))
    in cat_tables (stored_schema w2) = [] \<and> fst (migrate upgrade w2) = Inl (Ddl (DuplicateObject ''alert_type''))"
proof -
  have "stored_schema demo_alembic = empty_catalog" by (simp add: demo_alembic_def)
  from downgrade_leaves_the_enum_types [OF demo_url plain_demo_options this] show ?thesis
    unfolding Let_def by blast
qed

text \<open>
  C33. Running migrations: online the schema becomes what the steps make of it, or stays as it
  was if one of them fails (only then is the engine not disposed of), and no connection is
  left open; offline nothing but the script is made, which run on the same schema has the same
  result. A percent sign in the database URL that is not part of an escape, as in a
  percent-encoded password, stops both before anything happens.
\<close>

theorem migrations_are_all_or_nothing:
  assumes "CHR ''%'' \<notin> set (set_database_url s)"
    and "plain_options cfg" and "set_database_url s' = a @ CHR ''%'' # c # b" and "CHR ''%'' \<notin> set a" and "c \<notin> {CHR ''%'', CHR ''(''}"
  shows "(case env_py s cfg False True steps w of (r, w') \<Rightarrow>
      (case run_script steps (stored_schema w) of
         Inr schema \<Rightarrow> r = Inr () \<and> stored_schema w' = schema \<and> engine_disposed w'
       | Inl x \<Rightarrow> r = Inl (Ddl x) \<and> stored_schema w' = stored_schema w \<and>
           engine_disposed w' = engine_disposed w) \<and>
      open_connections w' = open_connections w) \<and>
    (case env_py s cfg True reachable steps w of (r, w') \<Rightarrow>
      r = Inr () \<and> stored_schema w' = stored_schema w \<and> open_connections w' = open_connections w \<and>
      script_output w' = script_output w @ steps) \<and>
    env_py s' cfg offline reachable steps w = (Inl InvalidInterpolation, w)"
proof -
  have "env_py s' cfg offline reachable steps w = (Inl InvalidInterpolation, w)"
    using lone_percent [OF assms(4), of c "''sqlalchemy.url''" b cfg] assms(3,5)
    by (simp add: env_py_def andthen_def)
  then show ?thesis
    unfolding online_run [OF assms(1,2)] offline_run [OF assms(1)] by (auto split: sum.splits)
qed

lemma migrations_are_all_or_nothing_witness:
  "env_py (demo_settings\<lparr>set_database_url := ''postgresql+asyncpg://u:p%40ss@db/inventory''\<rparr>) demo_options False
     True upgrade demo_alembic = (Inl InvalidInterpolation, demo_alembic)"
proof -
  have "set_database_url (demo_settings\<lparr>set_database_url := ''postgresql+asyncpg://u:p%40ss@db/inventory''\<rparr>) =
      ''postgresql+asyncpg://u:p'' @ CHR ''%'' # CHR ''4'' # ''0ss@db/inventory''" by simp
  from migrations_are_all_or_nothing [OF demo_url plain_demo_options this, where steps = upgrade and
      w = demo_alembic and reachable = True and offline = False]
  show ?thesis by simp
qed

section \<open>Background tasks and event loops\<close>

text \<open>
  C34. The life of the relay task: while it runs it delivers what the loop over the messages
  delivers. Once the connection to Redis is lost it has ended for good: nothing that happens
  later is delivered, though the clients stay registered, and the lifespan raises the
  exception at shutdown, with the scheduler stopped and the broadcaster's connection still open. A
  task that is running at shutdown is cancelled and unsubscribes, and the connection is closed.
\<close>

theorem relay_ends_with_its_connection:
  "(let st = relay_run loads ok u (map Arrives raws @ Lost x # evs) (relay_start None conns);
       failure = (case u of None \<Rightarrow> x | Some y \<Rightarrow> y);
       p1 = snd (serving (p\<lparr>relay := Relaying, scheduler := start_scheduler api (scheduler p)\<rparr>))
    in (rl_sent st, rl_connections st) = relay_to_local_clients loads ok raws conns \<and>
       rl_task st = Failed failure \<and>
       lifespan api (beside_relay st serving) p =
         (Inl failure, p1\<lparr>relay := Failed failure, scheduler := stop_scheduler api (scheduler p1)\<rparr>)) \<and>
   (let st = relay_run loads ok None (map Arrives raws) (relay_start None conns);
       st' = relay_turn loads ok None Cancel st
    in (rl_sent st, rl_connections st) = relay_to_local_clients loads ok raws conns \<and>
       rl_task st' = Cancelled \<and> \<not> rl_subscribed st' \<and>
       \<not> redis_open (snd (lifespan api (beside_relay st serving) p)))"
proof -
  let ?lost = "relay_run loads ok u (map Arrives raws @ Lost x # evs) (relay_start None conns)"
  note lost = relay_lost [of ?lost, OF refl]
  show ?thesis
    unfolding Let_def lifespan_beside lost
    by (simp add: relay_started relay_turn_def leave_loop_def split: prod.splits)
qed

text \<open>
  Why the tasks have an engine of their own: each task runs on a new event loop, and with
  TaskSessionLocal every session works, on a connection of its own that is closed afterwards;
  over the pooled engine the second task would get the first one's connection and fail. In the
  API process, on its one loop, all sessions work and share one connection.
\<close>

lemma task_sessions_stay_on_their_loop:
  "use_sessions (TaskSessionLocal s) (task_loops n) empty_pool =
     (replicate n True, \<lparr>idle_connections = [], opened_connections = n\<rparr>) \<and>
   use_sessions (AsyncSessionLocal s) (replicate (Suc n) l) empty_pool =
     (replicate (Suc n) True, \<lparr>idle_connections = [l], opened_connections = 1\<rparr>) \<and>
   take 2 (fst (use_sessions (AsyncSessionLocal s) (task_loops (n + 2)) empty_pool)) = [True, False]"
  using api_sessions_work [of s n l] pooled_tasks_fail [of s n]
  by (simp add: task_sessions_work task_loops_def empty_pool_def)

section \<open>Report cache and exports\<close>

text \<open>
  C35. Both report endpoints, after any history of calls of either on one Redis and of
  changes that write neither key: the answer is what the service answers now, or what it had
  to answer at a call of the same endpoint less than 60 seconds ago; and when Redis cannot be
  read it is what the service answers now, errors included. (Redis honours EX; a report reads
  back from its JSON.)
\<close>

theorem cached_report_is_fresh:
  assumes "ttl_store redis now written"
    and "report_calls e collation js jv digest redis now written (w, r) cs cv"
    and "\<forall>(t, b) \<in> cs. model_validate_json js (model_dump_json js b) = Inr b"
    and "\<forall>(t, b) \<in> cv. model_validate_json jv (model_dump_json jv b) = Inr b"
    and "get_inventory_summary e collation js digest redis (w, r) = (res, (w', r'))"
    and "get_valuation_report e collation jv digest redis (w, r) = (res', (w'', r''))"
  shows "(res = fst (generate_inventory_summary e collation w) \<or>
      (\<exists>t report. res = Inr report \<and> (t, report) \<in> cs \<and> now r' < t + 60)) \<and>
    (res' = fst (generate_valuation_report e collation w) \<or>
      (\<exists>t report. res' = Inr report \<and> (t, report) \<in> cv \<and> now r'' < t + 60)) \<and>
    (fst (redis_get redis ''cache:reports:inventory-summary'' r) = Inl () \<longrightarrow>
      res = fst (generate_inventory_summary e collation w)) \<and>
    (fst (redis_get redis ''cache:reports:valuation'' r) = Inl () \<longrightarrow>
      res' = fst (generate_valuation_report e collation w))"
  using report_answers(1) [OF assms(2,1,3,4,5)] report_answers(2) [OF assms(2,1,3,4,6)]
    cache_down [OF _ assms(5) [unfolded get_inventory_summary_def] report_keys(1)]
    cache_down [OF _ assms(6) [unfolded get_valuation_report_def] report_keys(2)]
  by blast

text \<open>A Redis of one cell, for the instance below: the clock, and what was SET last.\<close>

definition demo_redis :: "(int \<times> (string \<times> string \<times> int \<times> int) option) redis_client" where
  "demo_redis =
     \<lparr>redis_get = (\<lambda>k (t, c). (case c of
          Some (k', v, ex, s) \<Rightarrow> if k' = k \<and> t < s + ex then Inr (Some v) else Inr None
        | None \<Rightarrow> Inr None, (t, c))),
      redis_set = (\<lambda>k v ex (t, c). (Inr (), (t, Some (k, v, ex, t))))\<rparr>"

lemma demo_redis_store: "ttl_store demo_redis fst (\<lambda>r. set_option (snd r))"
  by (auto simp: ttl_store_def demo_redis_def split: option.splits if_splits)

definition demo_json :: "(exc, inventory_summary_report) model_json" where
  "demo_json = \<lparr>model_dump_json = (\<lambda>_. ''report''), model_validate_json = (\<lambda>_.
     fst (generate_inventory_summary demo_deps (\<lambda>s. s) demo_world))\<rparr>"

definition demo_value_json :: "(exc, inventory_valuation_report) model_json" where
  "demo_value_json = \<lparr>model_dump_json = (\<lambda>_. ''value''), model_validate_json = (\<lambda>_. Inl DatabaseError)\<rparr>"

text \<open>The summary is asked for, 50 seconds later the stock is gone, and it is asked for again.\<close>

definition emptied_world :: "domain_event list world" where
  "emptied_world = demo_world\<lparr>work := demo_db\<lparr>inventories := []\<rparr>\<rparr>"

lemma cached_report_is_fresh_witness:
  "\<exists>r old fresh s w1 t. get_inventory_summary demo_deps (\<lambda>s. s) demo_json (\<lambda>_. []) demo_redis
       (emptied_world, (150, r)) = (Inr old, s) \<and>
     generate_inventory_summary demo_deps (\<lambda>s. s) emptied_world = (Inr fresh, w1) \<and>
     sr_total_stock_quantity old = 20 \<and> sr_total_stock_quantity fresh = 0 \<and> t = 100 \<and> fst (snd s) < t + 60"
proof -
  let ?key = "''cache:reports:inventory-summary''"
  let ?get = "get_inventory_summary demo_deps (\<lambda>s. s) demo_json (\<lambda>_. []) demo_redis"
  let ?calls = "report_calls demo_deps (\<lambda>s. s) demo_json demo_value_json (\<lambda>_. []) demo_redis fst (\<lambda>r. set_option (snd r))"
  have "constraints (work demo_world)" "constraints (work emptied_world)"
    by (simp_all add: demo_world_def emptied_world_def demo_constraints) code_simp
  from summary_run [OF demo_fair this(1), of "\<lambda>s. s"] summary_run [OF demo_fair this(2), of "\<lambda>s. s"]
  obtain rep w1 fresh w2 where rep: "generate_inventory_summary demo_deps (\<lambda>s. s) demo_world = (Inr rep, w1)"
      "sr_total_stock_quantity rep = 20"
    and fresh: "generate_inventory_summary demo_deps (\<lambda>s. s) emptied_world = (Inr fresh, w2)"
      "sr_total_stock_quantity fresh = 0"
    by (auto simp: demo_world_def emptied_world_def demo_db_def)
  let ?r = "Some (?key, ''report'', 60, 100) :: (string \<times> string \<times> int \<times> int) option"
  have first: "?get (demo_world, (100, None)) = (Inr rep, (w1, (100, ?r)))"
    by (simp add: get_inventory_summary_def cache_response_def report_keys demo_redis_def rep demo_json_def Let_def
        REPORT_CACHE_TTL_SECONDS_def)
  have "?calls (demo_world, (100, None)) {} {}" by (rule report_calls.started) simp
  from report_calls.summary [OF this first]
  have calls: "?calls (w1, (100, ?r)) {(100, rep)} {}" by (simp add: rep)
  have calls: "?calls (emptied_world, (150, ?r)) {(100, rep)} {}"
    by (rule report_calls.elsewhere [OF calls]) simp_all
  have json: "model_validate_json demo_json (model_dump_json demo_json rep) = Inr rep"
    by (simp add: demo_json_def rep)
  have run: "?get (emptied_world, (150, ?r)) = (Inr rep, (emptied_world, (150, ?r)))"
    by (simp add: get_inventory_summary_def cache_response_def report_keys demo_redis_def demo_json_def rep Let_def)
  obtain res' w'' r'' where other: "get_valuation_report demo_deps (\<lambda>s. s) demo_value_json (\<lambda>_. []) demo_redis
      (emptied_world, (150, ?r)) = (res', (w'', r''))" by (metis surj_pair)
  have "Inr rep = fst (generate_inventory_summary demo_deps (\<lambda>s. s) emptied_world) \<or>
      (\<exists>t report. Inr rep = (Inr report :: exc + inventory_summary_report) \<and> (t, report) \<in> {(100, rep)} \<and>
        fst (150 :: int, ?r) < t + 60)"
    by (rule cached_report_is_fresh [OF demo_redis_store calls _ _ run other, THEN conjunct1]) (simp_all add: json)
  then obtain t where t: "t = 100" "fst (150 :: int, ?r) < t + 60" using fresh rep(2) by auto
  then have "t = 100 \<and> fst (snd (emptied_world, (150 :: int, ?r))) < t + 60" unfolding snd_conv by (rule conjI)
  then show ?thesis
    using run fresh rep(2) by (intro exI [of _ ?r] exI [of _ rep] exI [of _ fresh]
      exI [of _ "(emptied_world, (150, ?r))"] exI [of _ w2] exI [of _ t]) simp
qed

text \<open>
  C36. An export writes one file, in a directory it makes if need be, and the file reads back,
  by RFC 4180, as the header and one record per warehouse of the report computed in that
  session, whatever characters the names contain; nothing that existed is touched, except a
  file of that very name. When the report fails, no file or directory is touched; when a
  directory cannot be made or the file not be opened, directories are all that is left; and
  when the disk fills up while writing, the file is left with a proper beginning of the text.
  It does not fail by itself when nothing is in the way and there is room. The database is
  unchanged in every case.
\<close>

theorem csv_export_reads_back:
  assumes "tree_ok fs"
    and "generate_report_csv_async e collation decimal_str may room dir kind (w, fs) = (res, (w', fs'))"
  shows "committed w' = committed w \<and> tree_ok fs' \<and>
    (case res of
       Inr (k, path) \<Rightarrow> ReportKind k = Some kind \<and>
         (\<exists>u text. path = path_str (csv_name k u # dir) \<and> fs' (csv_name k u # dir) = Some (Regular text) \<and>
            (\<forall>q. q \<noteq> csv_name k u # dir \<and> fs q \<noteq> None \<longrightarrow> fs' q = fs q) \<and>
            fst (report_rows e collation decimal_str kind (begin_session e w)) = Inr (csv_read text))
     | Inl (FileError y) \<Rightarrow>
         if y \<noteq> NoSpaceError then adds_dirs dir fs fs'
         else \<exists>u text k. k < length text \<and>
           fs' (csv_name (kind_value kind) u # dir) = Some (Regular (take k text)) \<and>
           (\<forall>q. q \<noteq> csv_name (kind_value kind) u # dir \<and> fs q \<noteq> None \<longrightarrow> fs' q = fs q) \<and>
           fst (report_rows e collation decimal_str kind (begin_session e w)) = Inr (csv_read text)
     | Inl (ServiceError x) \<Rightarrow> fs' = fs \<and> fst (report_rows e collation decimal_str kind (begin_session e w)) = Inl x) \<and>
    ((\<exists>recs. fst (report_rows e collation decimal_str kind (begin_session e w)) = Inr recs) \<and>
       clear_way may fs dir \<and> (\<forall>n. fs (n # dir) \<noteq> Some Directory \<and> may (n # dir) \<and> room (n # dir) = None) \<longrightarrow>
       (\<exists>p. res = Inr p))"
proof -
  have k: "ReportKind (kind_value kind) = Some kind" by (cases kind) (simp_all add: ReportKind_def)
  have "\<exists>p. res = Inr p" if "room_for may room dir fs"
      "fst (report_rows e collation decimal_str kind (begin_session e w)) = Inr recs" for recs
    using csv_export_succeeds [OF assms(1) that] assms(2) by simp
  moreover have wrote: "fs' p = Some (Regular t) \<and> (\<forall>q. q \<noteq> p \<and> fs q \<noteq> None \<longrightarrow> fs' q = fs q)"
    if "exported t fs p fs'" for p t
    using exported_reads [OF that] exported_frame [OF that] by blast
  ultimately have ok: "(\<exists>recs. fst (report_rows e collation decimal_str kind (begin_session e w)) = Inr recs) \<and>
       clear_way may fs dir \<and> (\<forall>n. fs (n # dir) \<noteq> Some Directory \<and> may (n # dir) \<and> room (n # dir) = None) \<longrightarrow>
       (\<exists>p. res = Inr p)"
    unfolding room_for_def by blast
  note shown = csv_export_cases [OF assms]
  show ?thesis
  proof (cases res)
    case (Inr kp)
    with shown ok wrote k show ?thesis by (cases kp) auto
  next
    case (Inl x)
    show ?thesis
    proof (cases x)
      case (ServiceError y)
      with shown ok Inl show ?thesis by (auto simp: assms(1))
    next
      case (FileError y)
      show ?thesis
      proof (cases "y = NoSpaceError")
        case True
        with shown FileError Inl obtain t u k where
          "k < length t" "exported (take k t) fs (csv_name (kind_value kind) u # dir) fs'"
          "fst (report_rows e collation decimal_str kind (begin_session e w)) = Inr (csv_read t)"
          by (auto simp: left_by_failure_def)
        with wrote have "\<exists>u t k. k < length t \<and> fs' (csv_name (kind_value kind) u # dir) = Some (Regular (take k t)) \<and>
            (\<forall>q. q \<noteq> csv_name (kind_value kind) u # dir \<and> fs q \<noteq> None \<longrightarrow> fs' q = fs q) \<and>
            fst (report_rows e collation decimal_str kind (begin_session e w)) = Inr (csv_read t)" by blast
        with shown ok show ?thesis unfolding FileError Inl True by simp
      next
        case False
        with shown ok FileError Inl show ?thesis by (simp add: left_by_failure_def)
      qed
    qed
  qed
qed

lemma csv_export_reads_back_witness:
  "\<exists>path w' fs' text p. generate_report_csv_async demo_deps (\<lambda>s. s) int_str (\<lambda>_. True) (\<lambda>_. None) [''reports'', ''storage'']
     INVENTORY_SUMMARY (demo_world, Map.empty) = (Inr (''inventory_summary'', path), (w', fs')) \<and>
     fs' [''reports'', ''storage''] = Some Directory \<and> fs' p = Some (Regular text) \<and> length (csv_read text) = 3"
proof -
  let ?b = "begin_session demo_deps demo_world"
  let ?dir = "[''reports'', ''storage'']"
  have "constraints (work ?b)" using demo_constraints by (simp add: demo_world_def)
  from summary_run [OF demo_fair this, of "\<lambda>s. s"]
  obtain rep w1 where rep: "generate_inventory_summary demo_deps (\<lambda>s. s) ?b = (Inr rep, w1)"
    "length (sr_by_warehouse rep) = 2"
    by (auto simp: listed_def demo_world_def demo_db_def length_scan [OF demo_fair])
  then have rows: "fst (report_rows demo_deps (\<lambda>s. s) int_str INVENTORY_SUMMARY ?b) = Inr (inventory_summary_rows rep)"
    by (simp add: report_rows_def andthen_def ret_def)
  obtain res w' fs' where run: "generate_report_csv_async demo_deps (\<lambda>s. s) int_str (\<lambda>_. True) (\<lambda>_. None) ?dir
      INVENTORY_SUMMARY (demo_world, Map.empty) = (res, (w', fs'))" using prod_cases3 by blast
  have empty: "tree_ok Map.empty" by (simp add: tree_ok_def)
  note shown = csv_export_reads_back [OF empty run]
  from shown rows obtain k path where res: "res = Inr (k, path)" by auto
  with shown have k: "ReportKind k = Some INVENTORY_SUMMARY" by simp
  then have "k = ''inventory_summary''" by (simp add: ReportKind_def split: if_splits)
  from shown res obtain u t where out: "fs' (csv_name k u # ?dir) = Some (Regular t)"
    "Inr (inventory_summary_rows rep) = (Inr (csv_read t) :: exc + string list list)" unfolding rows by auto
  then have "csv_read t = inventory_summary_rows rep" by simp
  then have "length (csv_read t) = 3" using rep(2) by (simp add: inventory_summary_rows_def)
  moreover have "fs' ?dir = Some Directory" using tree_okD [of fs'] shown out(1) by (auto simp: is_dir_def)
  ultimately show ?thesis using run res \<open>k = ''inventory_summary''\<close> out(1) by blast
qed

section \<open>Alert mails\<close>

text \<open>
  C37. The task enqueued for an alert, run later, sends one mail about that alert, addressed
  to exactly the active superusers, also when the SMTP server refuses up to three connections
  before it accepts one, and changes nothing in the database; without any superuser, it sends
  nothing. (Once connected the server accepts every command; names and addresses are one line.)
\<close>

theorem alert_mail_reaches_superusers:
  assumes "constraints (committed w)" and "fair_scan e" and "a \<in> set (alerts (committed w))"
    and "takes_mail s" and "refuses s k (outside w)" and "k \<le> 3" and "one_line (smtp_from_email s)"
    and "\<forall>p \<in> set (products (committed w)). one_line (prod_name p)"
    and "\<forall>address \<in> set (superuser_emails (committed w)). one_line address"
    and "notification_task e s isoformat (uuid_str (entity_id a)) w = (res, w')"
  shows "res = Inr () \<and> committed w' = committed w \<and>
    (if superuser_emails (committed w) = [] then outside w' = outside w
     else \<exists>m es p. outside w' = fold (\<lambda>c x. snd (smtp s c x)) (whole_session s m) (after_refusals s k (outside w)) \<and>
       mset es = mset (superuser_emails (committed w)) \<and> mail_to m = comma_separated es \<and>
       p \<in> set (products (committed w)) \<and> entity_id p = al_product_id a \<and>
       mail_subject m = build_subject a (prod_name p))"
proof (cases "superuser_emails (committed w) = []")
  case True
  from mail_attempt(1) [OF assms(1-4,7-9) True, of isoformat] assms(10) True show ?thesis
    by (auto simp: notification_task_def MAX_RETRIES_def numeral_3_eq_3)
next
  case False
  from retried_mail [OF assms(2,4,7) assms(5) _ assms(1,3,8,9) False, of 3 isoformat] assms(6,10) False
  show ?thesis by (auto simp: notification_task_def MAX_RETRIES_def mail_about_def)
qed

text \<open>A server that refuses two connections and records the commands, and the state the mail is sent from.\<close>

definition mail_deps :: "smtp_command list deps" where
  "mail_deps = \<lparr>low_stock_alert_threshold_default = 10, uuid4 = of_nat, clock = int,
     scan_order = (\<lambda>k n. [0..<n]), ilike = (\<lambda>s p. True), event_publish = (\<lambda>ev x. x),
     task_delay = (\<lambda>i x. (True, x))\<rparr>"

definition demo_mail :: "smtp_command list mail_settings" where
  "demo_mail = \<lparr>smtp_host = ''localhost'', smtp_port = 1025, smtp_user = None, smtp_password = None,
     smtp_use_tls = False, smtp_from_email = ''alerts@local'', smtp = (\<lambda>c x. ((case c of Connect h p \<Rightarrow> length x < 2 | _ \<Rightarrow> False), x @ [c]))\<rparr>"

definition mail_world :: "smtp_command list world" where
  "mail_world = \<lparr>committed = demo_db\<lparr>alerts := [demo_alert 6], users := [demo_boss]\<rparr>,
     work = empty_db, tx_time = 0, row_locks = [], tick = 20, outside = []\<rparr>"

lemma alert_mail_reaches_superusers_witness:
  "\<exists>m. outside (snd (notification_task mail_deps demo_mail int_str (uuid_str 6) mail_world)) =
     replicate 3 (Connect ''localhost'' 1025) @ [SendMessage m, Quit] \<and> mail_to m = ''boss@local''"
proof -
  let ?run = "notification_task mail_deps demo_mail int_str (uuid_str 6) mail_world"
  have c: "constraints (committed mail_world)" unfolding mail_world_def by code_simp
  have f: "fair_scan mail_deps" by (simp add: fair_scan_def mail_deps_def)
  have a: "demo_alert 6 \<in> set (alerts (committed mail_world))" by (simp add: mail_world_def)
  have e: "superuser_emails (committed mail_world) = [''boss@local'']"
    by (simp add: superuser_emails_def mail_world_def demo_boss_def)
  have one: "one_line (smtp_from_email demo_mail)"
    "\<forall>p \<in> set (products (committed mail_world)). one_line (prod_name p)"
    "\<forall>address \<in> set (superuser_emails (committed mail_world)). one_line address"
    unfolding e by (auto simp: demo_mail_def mail_world_def demo_db_def one_line_def line_break_def)
  have s: "takes_mail demo_mail" by (auto simp: takes_mail_def demo_mail_def split: smtp_command.splits)
  have r: "refuses demo_mail 2 (outside mail_world)" by (simp add: demo_mail_def mail_world_def numeral_2_eq_2)
  have id: "entity_id (demo_alert 6) = 6" by (simp add: demo_alert_def)
  from alert_mail_reaches_superusers [OF c f a s r _ one, of int_str "fst ?run" "snd ?run"]
  obtain m es where "outside (snd ?run) = fold (\<lambda>c x. snd (smtp demo_mail c x)) (whole_session demo_mail m)
      (after_refusals demo_mail 2 (outside mail_world))" "mset es = {#''boss@local''#}" "mail_to m = comma_separated es"
    by (auto simp: id e)
  moreover then have "es = [''boss@local'']" by (simp add: mset_single_iff)
  ultimately show ?thesis
    by (auto simp: whole_session_def smtp_session_def demo_mail_def mail_world_def given_def
        numeral_2_eq_2 numeral_3_eq_3)
qed

lemma several_lines_attempt:
  assumes "constraints (committed w)" and "fair_scan e" and "a \<in> set (alerts (committed w))"
    and "p \<in> set (products (committed w))" and "entity_id p = al_product_id a"
    and "several_lines (prod_name p)" and "superuser_emails (committed w) \<noteq> []"
  shows "\<exists>w'. send_low_stock_alert_email e s isoformat (uuid_str (entity_id a)) w = (Inl ValueError, w') \<and>
    committed w' = committed w \<and> outside w' = outside w"
proof -
  let ?b = "begin_session e w"
  obtain p' wa es w1 where run: "alert_context e (entity_id a) ?b = (Inr (a, p', wa, es), w1)"
    and w1: "w1 = ?b\<lparr>tick := tick w1\<rparr>" and p: "p' \<in> set (products (committed w))" "entity_id p' = al_product_id a"
    and es: "mset es = mset (superuser_emails (committed w))"
    using alert_context_run [of ?b e a "entity_id a"] assms(1-3) by auto
  have "distinct (map entity_id (products (committed w)))"
    using assms(1) by (simp add: constraint_defs ids_def)
  then have "p' = p" using p assms(4,5) by (auto simp: distinct_map inj_on_def)
  then have "several_lines (build_subject a (prod_name p'))"
    unfolding build_subject_def by (intro several_lines_append) (simp only: assms(6))
  moreover have "es \<noteq> []" using es assms(7) by auto
  moreover have "outside w1 = outside w" "committed w1 = committed w"
    by (subst w1, simp)+
  ultimately show ?thesis
    by (auto simp: send_low_stock_alert_email_def UUID_str send_low_stock_alert_email_async_def andthen_def
        as_job_def get_db_run [of "alert_context e (entity_id a)", OF run] send_email_refused)
qed

text \<open>
  A product whose name has several lines passes validation, but no alert of it is ever
  mailed: the task raises before it connects, at every retry.
\<close>

lemma several_line_names_are_not_mailed:
  assumes "constraints (committed w)" and "fair_scan e" and "a \<in> set (alerts (committed w))"
    and "p \<in> set (products (committed w))" and "entity_id p = al_product_id a"
    and "several_lines (prod_name p)" and "superuser_emails (committed w) \<noteq> []"
    and "notification_task e s isoformat (uuid_str (entity_id a)) w = (res, w')"
  shows "res = Inl ValueError \<and> committed w' = committed w \<and> outside w' = outside w"
proof -
  have "\<exists>w'. notification_task e s isoformat (uuid_str (entity_id a)) w = (Inl ValueError, w') \<and>
      committed w' = committed w \<and> outside w' = outside w"
    unfolding notification_task_def
  proof (rule retried_fails)
    fix v :: "'a world" assume v: "committed v = committed w \<and> outside v = outside w"
    with several_lines_attempt [of v e a p s isoformat] assms(1-7)
    show "\<exists>w'. send_low_stock_alert_email e s isoformat (uuid_str (entity_id a)) v = (Inl ValueError, w') \<and>
        committed w' = committed w \<and> outside w' = outside w" by simp
  qed simp
  with assms(8) show ?thesis by auto
qed

lemma several_line_names_are_not_mailed_witness:
  "let w = mail_world\<lparr>committed := (committed mail_world)\<lparr>products :=
       map (\<lambda>p. p\<lparr>prod_name := ''Bolt'' @ [CHR 0x0A] @ ''M8''\<rparr>) (products demo_db)\<rparr>\<rparr>
   in product_create_ok (demo_nut\<lparr>pc_name := ''Bolt'' @ [CHR 0x0A] @ ''M8''\<rparr>) \<and>
      fst (notification_task mail_deps demo_mail int_str (uuid_str 6) w) = Inl ValueError"
proof -
  let ?w = "mail_world\<lparr>committed := (committed mail_world)\<lparr>products :=
       map (\<lambda>p. p\<lparr>prod_name := ''Bolt'' @ [CHR 0x0A] @ ''M8''\<rparr>) (products demo_db)\<rparr>\<rparr>"
  let ?run = "notification_task mail_deps demo_mail int_str (uuid_str (entity_id (demo_alert 6))) ?w"
  have c: "constraints (committed ?w)" unfolding mail_world_def by code_simp
  have f: "fair_scan mail_deps" by (simp add: fair_scan_def mail_deps_def)
  have "fst ?run = Inl ValueError"
    using several_line_names_are_not_mailed [OF c f, of "demo_alert 6" "hd (products (committed ?w))",
        OF _ _ _ _ _ surjective_pairing [of ?run]]
    by (simp add: mail_world_def demo_db_def demo_alert_def superuser_emails_def demo_boss_def line_break_def)
  moreover have "product_create_ok (demo_nut\<lparr>pc_name := ''Bolt'' @ [CHR 0x0A] @ ''M8''\<rparr>)" by code_simp
  ultimately show ?thesis by (simp add: Let_def demo_alert_def)
qed

section \<open>Access and responses\<close>

text \<open>
  C38. Round trip: an access token issued for a user names that user, until the second it
  expires in, on any database that has the user. (PyJWT reads the tokens it made.)
\<close>

theorem token_identifies_its_user:
  assumes "reads_own_tokens s" and "constraints (work v)" and "r \<in> set (users (work v))"
    and "create_access_token e s (uuid_str (entity_id r)) delta w = (Inr token, w')"
    and "clock e (tick v) + 10 ^ 6 \<le> clock e (tick w) + token_lifetime s delta"
  shows "get_current_user e s token v = (Inr r, v\<lparr>tick := Suc (tick v)\<rparr>)"
  using named_user_of_token [OF assms(1,4,5,3,2)] by (simp add: get_current_user_run)

definition demo_security :: security where
  "demo_security = \<lparr>secret_key = ''key'', algorithm = ''HS256'', access_token_expire_minutes = 30,
     jwt_encode = (\<lambda>c k alg. case claim_sub c of NoSubject \<Rightarrow> [] | OtherSubject \<Rightarrow> ''7'' | Subject sub \<Rightarrow> CHR ''x'' # sub),
     jwt_decode = (\<lambda>now t k algs. Some \<lparr>claim_sub = (case t of [] \<Rightarrow> NoSubject | c # sub \<Rightarrow> if c = CHR ''7'' then OtherSubject else Subject sub), claim_exp = 0\<rparr>),
     pwd_hash = (\<lambda>k p. p), pwd_verify = (\<lambda>p h. p = h)\<rparr>"

lemma token_identifies_its_user_witness:
  "\<exists>token w'. create_access_token demo_deps demo_security (uuid_str 9) None demo_world = (Inr token, w') \<and>
     fst (get_current_user demo_deps demo_security token
       (demo_world\<lparr>work := demo_db\<lparr>users := [demo_boss]\<rparr>\<rparr>)) = Inr demo_boss"
proof -
  let ?v = "demo_world\<lparr>work := demo_db\<lparr>users := [demo_boss]\<rparr>\<rparr>"
  obtain token w' where t: "create_access_token demo_deps demo_security (uuid_str (entity_id demo_boss)) None
      demo_world = (Inr token, w')"
    by (simp add: create_access_token_def andthen_def)
  have own: "reads_own_tokens demo_security"
    by (auto simp: reads_own_tokens_def demo_security_def split: subject_claim.splits)
  have c: "constraints (work ?v)" by code_simp
  have id: "entity_id demo_boss = 9" by (simp add: demo_boss_def)
  from token_identifies_its_user [OF own c _ t]
  have "fst (get_current_user demo_deps demo_security token ?v) = Inr demo_boss"
    by (simp add: token_lifetime_def minutes_def demo_security_def)
  with t show ?thesis by (auto simp: id)
qed

text \<open>
  C39. The three dependencies, on every branch. A token that does not decode, one without a
  subject, with a subject that is no UUID or with that of a user who does not exist is one and
  the same 401 for each of them; a validly signed token whose subject is not a string raises an
  AttributeError, a 500, instead. Otherwise the user comes back from the first dependency in
  any case, from the second if active (403), and from the third if active (403) and a
  superuser (403). Nothing in the database changes.
\<close>

theorem access_decisions:
  "let now = clock e (tick w);
       odd = odd_subject s now token;
       u = named_user s now token (work w);
       unauthorized = HTTPException 401 ''Could not validate credentials.''
   in
   fst (get_current_user e s token w) =
     (if odd then Inl (Other AttributeError)
      else case u of None \<Rightarrow> Inl unauthorized | Some r \<Rightarrow> Inr r) \<and>
   fst (get_current_active_user e s token w) =
     (if odd then Inl (Other AttributeError)
      else case u of None \<Rightarrow> Inl unauthorized
      | Some r \<Rightarrow> if us_is_active r then Inr r else Inl (HTTPException 403 ''Inactive user account.'')) \<and>
   fst (get_current_superuser e s token w) =
     (if odd then Inl (Other AttributeError)
      else case u of None \<Rightarrow> Inl unauthorized
      | Some r \<Rightarrow> if \<not> us_is_active r then Inl (HTTPException 403 ''Inactive user account.'')
          else if \<not> us_is_superuser r then Inl (HTTPException 403 ''Superuser privileges required.'')
          else Inr r) \<and>
   handle_exception AttributeError = \<lparr>status_code = 500, detail = ''An unexpected error occurred.''\<rparr> \<and>
   committed (snd (get_current_user e s token w)) = committed w \<and>
   committed (snd (get_current_active_user e s token w)) = committed w \<and>
   committed (snd (get_current_superuser e s token w)) = committed w"
  by (simp add: Let_def get_current_user_run get_current_active_user_run get_current_superuser_run
      credentials_exception_def handle_exception.simps unhandled_exception_handler_def split: option.splits)


end
